(* ===== verification/Prelude.thy ===== *)
theory Prelude
  imports Main "HOL-Library.Word" "HOL-Library.Monad_Syntax"
begin

text \<open>
  The shared vocabulary of the development.

  \<^item> Machine integers. \<open>u8\<close>, \<open>u32\<close> and \<open>u64\<close> are words, and so is \<open>i32\<close> (its bits, two's
    complement). A \<open>usize\<close> that is a length, an offset or a counter is a \<open>nat\<close>. Addition and
    subtraction that guest-controlled values can drive out of range go through
    \<open>usize_add\<close>, \<open>usize_sub\<close>, \<open>u64_add\<close> and \<open>u32_inc\<close>.
  \<^item> Panics. A function that may panic (an index or key that is not there, \<open>unwrap\<close> of
    \<open>None\<close>, an arithmetic overflow, a failed \<open>assert!\<close>) returns an \<open>option\<close>; \<open>None\<close>
    says that the call does not return. Rust's \<open>Result\<close> is a sum inside it, \<open>Inl\<close> the error.
  \<^item> Byte slices. \<open>slice\<close> and \<open>put_slice\<close> are bounds-checked sub-slices; \<open>le_put\<close> and
    \<open>le_val\<close> are \<open>to_le_bytes\<close> and \<open>from_le_bytes\<close>.
  \<^item> Maps. A \<open>BTreeMap\<close> (and a \<open>HashMap\<close>, of which no order is relied on) is an association
    list kept in ascending key order by \<open>mput\<close>; \<open>mget\<close>, \<open>mdel\<close> and \<open>mmod\<close> look up, remove
    and change one entry.
\<close>

unbundle bit_operations_syntax

named_theorems omap_simps \<open>lookup laws of the ordered maps\<close>
named_theorems upd_simps \<open>lookup laws of the record-in-map updates\<close>
named_theorems uapi_consts \<open>numeric values of the UAPI constants\<close>

type_synonym u8 = "8 word"
type_synonym u32 = "32 word"
type_synonym u64 = "64 word"
type_synonym i32 = "32 word"
type_synonym byte = u8
type_synonym ('k, 'v) omap = "('k \<times> 'v) list"

section \<open>Checked arithmetic\<close>

definition usize_add :: "nat \<Rightarrow> nat \<Rightarrow> nat option" where
  "usize_add a b = (if a + b < 2 ^ 64 then Some (a + b) else None)"

definition usize_sub :: "nat \<Rightarrow> nat \<Rightarrow> nat option" where
  "usize_sub a b = (if b \<le> a then Some (a - b) else None)"

definition u64_add :: "u64 \<Rightarrow> u64 \<Rightarrow> u64 option" where
  "u64_add a b = (if unat a + unat b < 2 ^ 64 then Some (a + b) else None)"

definition u64_sub :: "u64 \<Rightarrow> u64 \<Rightarrow> u64 option" where
  "u64_sub a b = (if b \<le> a then Some (a - b) else None)"

definition u32_inc :: "nat \<Rightarrow> nat option" where
  "u32_inc n = (if n + 1 < 2 ^ 32 then Some (n + 1) else None)"

definition u64_inc :: "nat \<Rightarrow> nat option" where
  "u64_inc n = (if n + 1 < 2 ^ 64 then Some (n + 1) else None)"

lemma usize_add_Some [simp]: "usize_add a b = Some c \<longleftrightarrow> c = a + b \<and> a + b < 2 ^ 64"
  by (auto simp: usize_add_def)

lemma usize_sub_Some [simp]: "usize_sub a b = Some c \<longleftrightarrow> c = a - b \<and> b \<le> a"
  by (auto simp: usize_sub_def)

lemma u32_inc_Some [simp]: "u32_inc n = Some m \<longleftrightarrow> m = n + 1 \<and> n + 1 < 2 ^ 32"
  by (auto simp: u32_inc_def)

lemma u64_inc_Some [simp]: "u64_inc n = Some m \<longleftrightarrow> m = n + 1 \<and> n + 1 < 2 ^ 64"
  by (auto simp: u64_inc_def)

lemma u64_add_Some: "u64_add a b = Some c \<Longrightarrow> unat c = unat a + unat b"
  by (auto simp: u64_add_def unat_word_ariths split: if_splits)

lemma u64_sub_Some: "u64_sub a b = Some c \<Longrightarrow> unat c = unat a - unat b \<and> unat b \<le> unat a"
  by (auto simp: u64_sub_def unat_sub word_le_nat_alt split: if_splits)

section \<open>Little-endian bytes and slices\<close>

primrec le_put :: "nat \<Rightarrow> nat \<Rightarrow> byte list" where
  "le_put 0 x = []"
| "le_put (Suc n) x = of_nat (x mod 256) # le_put n (x div 256)"

primrec le_val :: "byte list \<Rightarrow> nat" where
  "le_val [] = 0"
| "le_val (b # bs) = unat b + 256 * le_val bs"

definition slice :: "nat \<Rightarrow> nat \<Rightarrow> 'a list \<Rightarrow> 'a list option" where
  "slice off n bs = (if off + n \<le> length bs then Some (take n (drop off bs)) else None)"

definition splice :: "nat \<Rightarrow> 'a list \<Rightarrow> 'a list \<Rightarrow> 'a list" where
  "splice off d bs = take off bs @ d @ drop (off + length d) bs"

definition put_slice :: "nat \<Rightarrow> 'a list \<Rightarrow> 'a list \<Rightarrow> 'a list option" where
  "put_slice off d bs = (if off + length d \<le> length bs then Some (splice off d bs) else None)"

lemma length_le_put [simp]: "length (le_put n x) = n"
  by (induction n arbitrary: x) auto

lemma le_val_le_put: "le_val (le_put n x) = x mod 256 ^ n"
proof (induction n arbitrary: x)
  case 0
  then show ?case by simp
next
  case (Suc n)
  have "x mod 256 + 256 * (x div 256 mod 256 ^ n) = x mod (256 * 256 ^ n)"
    by (simp add: mod_mult2_eq)
  then show ?case by (simp add: Suc unat_of_nat)
qed

lemma le_val_bound: "le_val bs < 256 ^ length bs"
proof (induction bs)
  case Nil
  then show ?case by simp
next
  case (Cons b bs)
  have "unat b < 256" using unsigned_less [of b, where 'a = nat] by simp
  with Cons show ?case by simp
qed

lemma le_put_le_val: "le_put (length bs) (le_val bs) = bs"
proof (induction bs)
  case Nil
  then show ?case by simp
next
  case (Cons b bs)
  have "unat b < 256" using unsigned_less [of b, where 'a = nat] by simp
  then show ?case using Cons by simp
qed

lemma length_splice [simp]: "off + length d \<le> length bs \<Longrightarrow> length (splice off d bs) = length bs"
  by (simp add: splice_def)

lemma put_slice_Some: "put_slice off d bs = Some bs' \<longleftrightarrow>
    off + length d \<le> length bs \<and> bs' = splice off d bs"
  by (auto simp: put_slice_def)

lemma slice_length: "slice off n bs = Some x \<Longrightarrow> length x = n"
  by (auto simp: slice_def split: if_splits)

lemma slice_splice_same:
  "off + length d \<le> length bs \<Longrightarrow> n = length d \<Longrightarrow> slice off n (splice off d bs) = Some d"
  by (simp add: slice_def splice_def)

lemma slice_splice_before:
  assumes "off + length d \<le> length bs" "o' + n \<le> off"
  shows "slice o' n (splice off d bs) = slice o' n bs"
proof -
  have len: "length (take (off - o') (drop o' bs)) = off - o'" using assms by simp
  have "drop o' (splice off d bs) = take (off - o') (drop o' bs) @ d @ drop (off + length d) bs"
    using assms by (simp add: splice_def drop_take)
  then have "take n (drop o' (splice off d bs)) = take n (take (off - o') (drop o' bs))"
    using assms len by simp
  with assms show ?thesis by (simp add: slice_def min_def)
qed

lemma slice_splice_after:
  assumes "off + length d \<le> length bs" "off + length d \<le> o'"
  shows "slice o' n (splice off d bs) = slice o' n bs"
proof -
  have "drop o' (take off bs) = []" using assms by simp
  moreover have "drop (o' - off) d = []" using assms by simp
  moreover have "drop (o' - off - length d) (drop (off + length d) bs) = drop o' bs"
    using assms by simp
  moreover have "min (length bs) off = off" using assms by simp
  ultimately have "drop o' (splice off d bs) = drop o' bs"
    using assms by (simp add: splice_def)
  with assms show ?thesis by (simp add: slice_def)
qed

lemmas slice_splices = slice_splice_same slice_splice_before slice_splice_after

section \<open>Ordered maps\<close>

definition mget :: "('k, 'v) omap \<Rightarrow> 'k \<Rightarrow> 'v option" where
  "mget m k = map_of m k"

fun mput :: "'k::linorder \<Rightarrow> 'v \<Rightarrow> ('k, 'v) omap \<Rightarrow> ('k, 'v) omap" where
  "mput k v [] = [(k, v)]"
| "mput k v ((k', v') # m) =
     (if k = k' then (k, v) # m
      else if k < k' then (k, v) # (k', v') # m
      else (k', v') # mput k v m)"

definition mdel :: "'k \<Rightarrow> ('k, 'v) omap \<Rightarrow> ('k, 'v) omap" where
  "mdel k m = filter (\<lambda>e. fst e \<noteq> k) m"

definition mmod :: "'k::linorder \<Rightarrow> ('v \<Rightarrow> 'v) \<Rightarrow> ('k, 'v) omap \<Rightarrow> ('k, 'v) omap" where
  "mmod k f m = (case mget m k of None \<Rightarrow> m | Some v \<Rightarrow> mput k (f v) m)"

abbreviation mkeys :: "('k, 'v) omap \<Rightarrow> 'k list" where
  "mkeys m \<equiv> map fst m"

definition msorted :: "('k::linorder, 'v) omap \<Rightarrow> bool" where
  "msorted m \<longleftrightarrow> sorted_wrt (<) (mkeys m)"

lemma mget_Nil [omap_simps, simp]: "mget [] k = None"
  by (simp add: mget_def)

lemma mget_mput [omap_simps, simp]: "mget (mput k v m) k' = (if k = k' then Some v else mget m k')"
  by (induction k v m rule: mput.induct) (auto simp: mget_def)

lemma mget_mdel [omap_simps, simp]: "mget (mdel k m) k' = (if k = k' then None else mget m k')"
  by (induction m) (auto simp: mget_def mdel_def)

lemma mget_mmod [omap_simps, simp]:
  "mget (mmod k f m) k' = (if k = k' then map_option f (mget m k) else mget m k')"
  by (auto simp: mmod_def split: option.splits)

lemma mput_mput [simp]: "mput k v (mput k v' m) = mput k v m"
  by (induction k v' m rule: mput.induct) auto

lemma mmod_mmod: "mmod k f (mmod k g m) = mmod k (f \<circ> g) m"
  by (simp add: mmod_def split: option.split)

lemma mget_all_None: "(\<And>k. mget m k = None) \<Longrightarrow> m = []"
proof (cases m)
  case (Cons e m')
  assume "\<And>k. mget m k = None"
  from this [of "fst e"] Cons show ?thesis by (cases e) (simp add: mget_def)
qed simp

lemma mget_in_keys: "mget m k \<noteq> None \<longleftrightarrow> k \<in> set (mkeys m)"
  by (induction m) (auto simp: mget_def)

lemma mget_None: "mget m k = None \<longleftrightarrow> k \<notin> set (mkeys m)"
  using mget_in_keys [of m k] by blast

lemma mget_in_set: "mget m k = Some v \<Longrightarrow> (k, v) \<in> set m"
  by (simp add: mget_def map_of_SomeD)

lemma set_mkeys_mput [simp]: "set (mkeys (mput k v m)) = insert k (set (mkeys m))"
  by (induction k v m rule: mput.induct) auto

lemma keys_mput [simp]: "fst ` set (mput k v m) = insert k (fst ` set m)"
  using set_mkeys_mput [of k v m] by simp

lemma keys_mdel [simp]: "fst ` set (mdel k m) = fst ` set m - {k}"
  by (auto simp: mdel_def)

lemma keys_mmod [simp]: "fst ` set (mmod k f m) = fst ` set m"
  using mget_in_keys [of m k] by (simp add: mmod_def insert_absorb split: option.split)

lemma mkeys_mdel: "mkeys (mdel k m) = filter (\<lambda>x. x \<noteq> k) (mkeys m)"
  by (induction m) (auto simp: mdel_def)

lemma msorted_Nil [simp]: "msorted []"
  by (simp add: msorted_def)

lemma msorted_mput [simp]: "msorted m \<Longrightarrow> msorted (mput k v m)"
proof (induction k v m rule: mput.induct)
  case (1 k v)
  then show ?case by (simp add: msorted_def)
next
  case (2 k v k' v' m)
  then show ?case
    using set_mkeys_mput [of k v m] by (auto simp: msorted_def)
qed

lemma msorted_mdel [simp]: "msorted m \<Longrightarrow> msorted (mdel k m)"
  by (simp add: msorted_def mkeys_mdel sorted_wrt_filter)

lemma msorted_mmod [simp]: "msorted m \<Longrightarrow> msorted (mmod k f m)"
  by (simp add: mmod_def split: option.split)

lemma msorted_distinct: "msorted m \<Longrightarrow> distinct (mkeys m)"
  by (simp add: msorted_def strict_sorted_iff)

lemma msorted_in_set: "msorted m \<Longrightarrow> (k, v) \<in> set m \<longleftrightarrow> mget m k = Some v"
  using msorted_distinct [of m] by (simp add: mget_def)

text \<open>An ascending map is determined by its lookups.\<close>

lemma msorted_eqI:
  assumes "msorted m" "msorted m'" "\<And>k. mget m k = mget m' k"
  shows "m = m'"
proof -
  have eq: "set m = set m'"
    using assms msorted_in_set [of m] msorted_in_set [of m'] by auto
  have "inj_on fst (set m)" using msorted_distinct [OF assms(1)] by (simp add: distinct_map)
  with eq have "inj_on fst (set m \<union> set m')" by simp
  then show ?thesis
    using eq assms(1,2) by (intro map_sorted_distinct_set_unique)
      (auto simp: msorted_def strict_sorted_iff)
qed

lemma length_mdel_less: "mget m k \<noteq> None \<Longrightarrow> length (mdel k m) < length m"
proof -
  assume "mget m k \<noteq> None"
  then obtain v where "(k, v) \<in> set m" by (auto dest: mget_in_set)
  then show ?thesis by (auto simp: mdel_def intro: length_filter_less)
qed

lemma length_mdel_le: "length (mdel k m) \<le> length m"
  by (simp add: mdel_def)

lemma length_mput_present: "msorted m \<Longrightarrow> mget m k \<noteq> None \<Longrightarrow> length (mput k v m) = length m"
proof (induction k v m rule: mput.induct)
  case (1 k v)
  then show ?case by simp
next
  case (2 k v k' v' m)
  have "k < k' \<Longrightarrow> mget m k = None"
    using "2.prems"(1) by (auto simp: msorted_def mget_None)
  with 2 show ?case by (auto simp: msorted_def mget_def split: if_splits)
qed

lemma sum_list_mput_new:
  "mget m k = None \<Longrightarrow> sum_list (map f (mput k v m)) = f (k, v) + (sum_list (map f m) :: nat)"
  by (induction k v m rule: mput.induct) (auto simp: mget_def split: if_splits)

lemma sum_list_mdel_absent:
  "mget m k = None \<Longrightarrow> sum_list (map f (mdel k m)) = (sum_list (map f m) :: nat)"
  by (induction m) (auto simp: mget_def mdel_def split: if_splits)

lemma sum_list_mdel:
  "distinct (mkeys m) \<Longrightarrow> mget m k = Some v \<Longrightarrow>
     f (k, v) + sum_list (map f (mdel k m)) = (sum_list (map f m) :: nat)"
proof (induction m)
  case Nil
  then show ?case by simp
next
  case (Cons e m)
  obtain k' v' where e: "e = (k', v')" by (cases e)
  show ?case
  proof (cases "k = k'")
    case True
    with Cons.prems e have "mget m k = None" by (auto simp: mget_None)
    then have "sum_list (map f (mdel k m)) = sum_list (map f m)"
      by (rule sum_list_mdel_absent)
    with True Cons.prems e show ?thesis by (simp add: mget_def mdel_def)
  next
    case False
    with Cons.prems e have "mget m k = Some v" by (simp add: mget_def)
    with Cons.IH Cons.prems e False show ?thesis by (simp add: mget_def mdel_def)
  qed
qed

lemma sum_list_mput_same:
  assumes "msorted m" "mget m k = Some v0" "f (k, v) = f (k, v0)"
  shows "sum_list (map f (mput k v m)) = (sum_list (map f m) :: nat)"
  using assms
proof (induction k v m rule: mput.induct)
  case (1 k v)
  then show ?case by simp
next
  case (2 k v k' v' m)
  have "k < k' \<Longrightarrow> mget m k = None"
    using "2.prems"(1) by (auto simp: msorted_def mget_None)
  with 2 show ?case by (auto simp: msorted_def mget_def split: if_splits)
qed

section \<open>Other list and option lemmas\<close>

text \<open>\<open>VecDeque::remove(position(p))\<close>: drop the first element that satisfies the predicate.\<close>

fun remove_first :: "('a \<Rightarrow> bool) \<Rightarrow> 'a list \<Rightarrow> 'a list" where
  "remove_first p [] = []"
| "remove_first p (x # xs) = (if p x then xs else x # remove_first p xs)"

text \<open>\<open>rposition\<close> and \<open>remove\<close>: drop the last one.\<close>

definition remove_last :: "('a \<Rightarrow> bool) \<Rightarrow> 'a list \<Rightarrow> 'a list" where
  "remove_last p xs = rev (remove_first p (rev xs))"

lemma remove_first_none: "(\<forall>x\<in>set xs. \<not> p x) \<Longrightarrow> remove_first p xs = xs"
  by (induction xs) auto

lemma set_remove_first: "set (remove_first p xs) \<subseteq> set xs"
  by (induction xs) auto

lemma length_remove_first: "length (remove_first p xs) \<le> length xs"
  by (induction xs) auto

lemma remove_last_snoc [simp]: "p x \<Longrightarrow> remove_last p (xs @ [x]) = xs"
  by (simp add: remove_last_def)

text \<open>\<open>Iterator::position\<close>.\<close>

fun position :: "('a \<Rightarrow> bool) \<Rightarrow> 'a list \<Rightarrow> nat option" where
  "position p [] = None"
| "position p (x # xs) = (if p x then Some 0 else map_option Suc (position p xs))"

lemma position_less: "position p xs = Some i \<Longrightarrow> i < length xs"
  by (induction xs arbitrary: i) (auto split: if_splits)

lemma bind_Some_elim:
  assumes "Option.bind x f = Some y"
  obtains z where "x = Some z" "f z = Some y"
  using assms by (cases x) auto

end
