(* ===== verification/Uapi.thy ===== *)
theory Uapi
  imports Prelude
begin

text \<open>
  The 64-bit binder UAPI (\<^verbatim>\<open>src/crates/aim-binder-driver/src/uapi.rs\<close>) and the errno values of
  \<^verbatim>\<open>host.rs\<close>: ioctl, command and return numbers, and the byte layouts of the structures that
  cross the ioctl boundary. Every constant is computed as the source computes it; the collection
  \<open>uapi_consts\<close> holds their values. The structures are read and written field by field at
  explicit offsets (\<open>u32_at\<close>, \<open>put_u64\<close>, ...), and each decoder inverts its encoder.
\<close>

section \<open>Errno values\<close>

type_synonym errno = i32

definition EPERM :: errno where
  "EPERM = 1"

definition ESRCH :: errno where
  "ESRCH = 3"

definition EINTR :: errno where
  "EINTR = 4"

definition EBADF :: errno where
  "EBADF = 9"

definition EAGAIN :: errno where
  "EAGAIN = 11"

definition ENOMEM :: errno where
  "ENOMEM = 12"

definition EFAULT :: errno where
  "EFAULT = 14"

definition EBUSY :: errno where
  "EBUSY = 16"

definition EINVAL :: errno where
  "EINVAL = 22"

definition ENOSPC :: errno where
  "ENOSPC = 28"

definition EPROTO :: errno where
  "EPROTO = 71"

lemmas errno_defs [uapi_consts] =
  EPERM_def ESRCH_def EINTR_def EBADF_def EAGAIN_def ENOMEM_def EFAULT_def EBUSY_def EINVAL_def ENOSPC_def EPROTO_def

section \<open>Number encoding\<close>

definition IOC_NONE :: u32 where
  "IOC_NONE = 0"

definition IOC_WRITE :: u32 where
  "IOC_WRITE = 1"

definition IOC_READ :: u32 where
  "IOC_READ = 2"

definition ioc :: "u32 \<Rightarrow> u8 \<Rightarrow> u32 \<Rightarrow> nat \<Rightarrow> u32" where
  "ioc dir ty nr sz = push_bit 30 dir OR push_bit 16 (of_nat sz) OR push_bit 8 (ucast ty) OR nr"

definition io :: "u8 \<Rightarrow> u32 \<Rightarrow> u32" where
  "io ty nr = ioc IOC_NONE ty nr 0"

definition iow :: "u8 \<Rightarrow> u32 \<Rightarrow> nat \<Rightarrow> u32" where
  "iow ty nr sz = ioc IOC_WRITE ty nr sz"

definition ior :: "u8 \<Rightarrow> u32 \<Rightarrow> nat \<Rightarrow> u32" where
  "ior ty nr sz = ioc IOC_READ ty nr sz"

definition iowr :: "u8 \<Rightarrow> u32 \<Rightarrow> nat \<Rightarrow> u32" where
  "iowr ty nr sz = ioc (IOC_READ OR IOC_WRITE) ty nr sz"

definition ioc_size :: "u32 \<Rightarrow> nat" where
  "ioc_size cmd = unat (drop_bit 16 cmd AND 16383)"

definition pack_chars :: "u8 \<Rightarrow> u8 \<Rightarrow> u8 \<Rightarrow> u8 \<Rightarrow> u32" where
  "pack_chars c1 c2 c3 c4 =
     push_bit 24 (ucast c1) OR push_bit 16 (ucast c2) OR push_bit 8 (ucast c3) OR ucast c4"

lemmas ioc_defs = ioc_def io_def iow_def ior_def iowr_def IOC_NONE_def IOC_WRITE_def IOC_READ_def
  pack_chars_def

section \<open>Constants\<close>

subsection \<open>Structure sizes\<close>

definition WRITE_READ_SIZE :: nat where
  "WRITE_READ_SIZE = 48"

definition TRANSACTION_DATA_SIZE :: nat where
  "TRANSACTION_DATA_SIZE = 64"

definition TRANSACTION_DATA_SECCTX_SIZE :: nat where
  "TRANSACTION_DATA_SECCTX_SIZE = 72"

definition TRANSACTION_DATA_SG_SIZE :: nat where
  "TRANSACTION_DATA_SG_SIZE = 72"

definition FLAT_BINDER_OBJECT_SIZE :: nat where
  "FLAT_BINDER_OBJECT_SIZE = 24"

definition FD_OBJECT_SIZE :: nat where
  "FD_OBJECT_SIZE = 24"

definition BUFFER_OBJECT_SIZE :: nat where
  "BUFFER_OBJECT_SIZE = 40"

definition FD_ARRAY_OBJECT_SIZE :: nat where
  "FD_ARRAY_OBJECT_SIZE = 32"

definition PTR_COOKIE_SIZE :: nat where
  "PTR_COOKIE_SIZE = 16"

definition HANDLE_COOKIE_SIZE :: nat where
  "HANDLE_COOKIE_SIZE = 12"

definition NODE_DEBUG_INFO_SIZE :: nat where
  "NODE_DEBUG_INFO_SIZE = 24"

definition NODE_INFO_FOR_REF_SIZE :: nat where
  "NODE_INFO_FOR_REF_SIZE = 24"

definition FREEZE_INFO_SIZE :: nat where
  "FREEZE_INFO_SIZE = 12"

definition FROZEN_STATUS_INFO_SIZE :: nat where
  "FROZEN_STATUS_INFO_SIZE = 12"

definition EXTENDED_ERROR_SIZE :: nat where
  "EXTENDED_ERROR_SIZE = 12"

subsection \<open>Ioctls\<close>

definition CURRENT_PROTOCOL_VERSION :: i32 where
  "CURRENT_PROTOCOL_VERSION = 8"

definition BINDER_WRITE_READ :: u32 where
  "BINDER_WRITE_READ = iowr 98 1 WRITE_READ_SIZE"

definition BINDER_SET_IDLE_TIMEOUT :: u32 where
  "BINDER_SET_IDLE_TIMEOUT = iow 98 3 8"

definition BINDER_SET_MAX_THREADS :: u32 where
  "BINDER_SET_MAX_THREADS = iow 98 5 4"

definition BINDER_SET_IDLE_PRIORITY :: u32 where
  "BINDER_SET_IDLE_PRIORITY = iow 98 6 4"

definition BINDER_SET_CONTEXT_MGR :: u32 where
  "BINDER_SET_CONTEXT_MGR = iow 98 7 4"

definition BINDER_THREAD_EXIT :: u32 where
  "BINDER_THREAD_EXIT = iow 98 8 4"

definition BINDER_VERSION :: u32 where
  "BINDER_VERSION = iowr 98 9 4"

definition BINDER_GET_NODE_DEBUG_INFO :: u32 where
  "BINDER_GET_NODE_DEBUG_INFO = iowr 98 11 NODE_DEBUG_INFO_SIZE"

definition BINDER_GET_NODE_INFO_FOR_REF :: u32 where
  "BINDER_GET_NODE_INFO_FOR_REF = iowr 98 12 NODE_INFO_FOR_REF_SIZE"

definition BINDER_SET_CONTEXT_MGR_EXT :: u32 where
  "BINDER_SET_CONTEXT_MGR_EXT = iow 98 13 FLAT_BINDER_OBJECT_SIZE"

definition BINDER_FREEZE :: u32 where
  "BINDER_FREEZE = iow 98 14 FREEZE_INFO_SIZE"

definition BINDER_GET_FROZEN_INFO :: u32 where
  "BINDER_GET_FROZEN_INFO = iowr 98 15 FROZEN_STATUS_INFO_SIZE"

definition BINDER_ENABLE_ONEWAY_SPAM_DETECTION :: u32 where
  "BINDER_ENABLE_ONEWAY_SPAM_DETECTION = iow 98 16 4"

definition BINDER_GET_EXTENDED_ERROR :: u32 where
  "BINDER_GET_EXTENDED_ERROR = iowr 98 17 EXTENDED_ERROR_SIZE"

subsection \<open>Object types\<close>

definition TYPE_LARGE :: u8 where
  "TYPE_LARGE = 133"

definition BINDER_TYPE_BINDER :: u32 where
  "BINDER_TYPE_BINDER = pack_chars 115 98 42 TYPE_LARGE"

definition BINDER_TYPE_WEAK_BINDER :: u32 where
  "BINDER_TYPE_WEAK_BINDER = pack_chars 119 98 42 TYPE_LARGE"

definition BINDER_TYPE_HANDLE :: u32 where
  "BINDER_TYPE_HANDLE = pack_chars 115 104 42 TYPE_LARGE"

definition BINDER_TYPE_WEAK_HANDLE :: u32 where
  "BINDER_TYPE_WEAK_HANDLE = pack_chars 119 104 42 TYPE_LARGE"

definition BINDER_TYPE_FD :: u32 where
  "BINDER_TYPE_FD = pack_chars 102 100 42 TYPE_LARGE"

definition BINDER_TYPE_FDA :: u32 where
  "BINDER_TYPE_FDA = pack_chars 102 100 97 TYPE_LARGE"

definition BINDER_TYPE_PTR :: u32 where
  "BINDER_TYPE_PTR = pack_chars 112 116 42 TYPE_LARGE"

subsection \<open>Flags\<close>

definition FLAT_BINDER_FLAG_PRIORITY_MASK :: u32 where
  "FLAT_BINDER_FLAG_PRIORITY_MASK = 255"

definition FLAT_BINDER_FLAG_ACCEPTS_FDS :: u32 where
  "FLAT_BINDER_FLAG_ACCEPTS_FDS = 256"

definition FLAT_BINDER_FLAG_SCHED_POLICY_MASK :: u32 where
  "FLAT_BINDER_FLAG_SCHED_POLICY_MASK = push_bit 9 3"

definition FLAT_BINDER_FLAG_INHERIT_RT :: u32 where
  "FLAT_BINDER_FLAG_INHERIT_RT = 2048"

definition FLAT_BINDER_FLAG_TXN_SECURITY_CTX :: u32 where
  "FLAT_BINDER_FLAG_TXN_SECURITY_CTX = 4096"

definition BINDER_BUFFER_FLAG_HAS_PARENT :: u32 where
  "BINDER_BUFFER_FLAG_HAS_PARENT = 1"

definition TF_ONE_WAY :: u32 where
  "TF_ONE_WAY = 1"

definition TF_ROOT_OBJECT :: u32 where
  "TF_ROOT_OBJECT = 4"

definition TF_STATUS_CODE :: u32 where
  "TF_STATUS_CODE = 8"

definition TF_ACCEPT_FDS :: u32 where
  "TF_ACCEPT_FDS = 16"

definition TF_CLEAR_BUF :: u32 where
  "TF_CLEAR_BUF = 32"

definition TF_UPDATE_TXN :: u32 where
  "TF_UPDATE_TXN = 64"

subsection \<open>Return protocol\<close>

definition BR_ERROR :: u32 where
  "BR_ERROR = ior 114 0 4"

definition BR_OK :: u32 where
  "BR_OK = io 114 1"

definition BR_TRANSACTION_SEC_CTX :: u32 where
  "BR_TRANSACTION_SEC_CTX = ior 114 2 TRANSACTION_DATA_SECCTX_SIZE"

definition BR_TRANSACTION :: u32 where
  "BR_TRANSACTION = ior 114 2 TRANSACTION_DATA_SIZE"

definition BR_REPLY :: u32 where
  "BR_REPLY = ior 114 3 TRANSACTION_DATA_SIZE"

definition BR_ACQUIRE_RESULT :: u32 where
  "BR_ACQUIRE_RESULT = ior 114 4 4"

definition BR_DEAD_REPLY :: u32 where
  "BR_DEAD_REPLY = io 114 5"

definition BR_TRANSACTION_COMPLETE :: u32 where
  "BR_TRANSACTION_COMPLETE = io 114 6"

definition BR_INCREFS :: u32 where
  "BR_INCREFS = ior 114 7 PTR_COOKIE_SIZE"

definition BR_ACQUIRE :: u32 where
  "BR_ACQUIRE = ior 114 8 PTR_COOKIE_SIZE"

definition BR_RELEASE :: u32 where
  "BR_RELEASE = ior 114 9 PTR_COOKIE_SIZE"

definition BR_DECREFS :: u32 where
  "BR_DECREFS = ior 114 10 PTR_COOKIE_SIZE"

definition BR_ATTEMPT_ACQUIRE :: u32 where
  "BR_ATTEMPT_ACQUIRE = ior 114 11 24"

definition BR_NOOP :: u32 where
  "BR_NOOP = io 114 12"

definition BR_SPAWN_LOOPER :: u32 where
  "BR_SPAWN_LOOPER = io 114 13"

definition BR_FINISHED :: u32 where
  "BR_FINISHED = io 114 14"

definition BR_DEAD_BINDER :: u32 where
  "BR_DEAD_BINDER = ior 114 15 8"

definition BR_CLEAR_DEATH_NOTIFICATION_DONE :: u32 where
  "BR_CLEAR_DEATH_NOTIFICATION_DONE = ior 114 16 8"

definition BR_FAILED_REPLY :: u32 where
  "BR_FAILED_REPLY = io 114 17"

definition BR_FROZEN_REPLY :: u32 where
  "BR_FROZEN_REPLY = io 114 18"

definition BR_ONEWAY_SPAM_SUSPECT :: u32 where
  "BR_ONEWAY_SPAM_SUSPECT = io 114 19"

definition BR_TRANSACTION_PENDING_FROZEN :: u32 where
  "BR_TRANSACTION_PENDING_FROZEN = io 114 20"

definition BR_FROZEN_BINDER :: u32 where
  "BR_FROZEN_BINDER = ior 114 21 16"

definition BR_CLEAR_FREEZE_NOTIFICATION_DONE :: u32 where
  "BR_CLEAR_FREEZE_NOTIFICATION_DONE = ior 114 22 8"

subsection \<open>Command protocol\<close>

definition BC_TRANSACTION :: u32 where
  "BC_TRANSACTION = iow 99 0 TRANSACTION_DATA_SIZE"

definition BC_REPLY :: u32 where
  "BC_REPLY = iow 99 1 TRANSACTION_DATA_SIZE"

definition BC_ACQUIRE_RESULT :: u32 where
  "BC_ACQUIRE_RESULT = iow 99 2 4"

definition BC_FREE_BUFFER :: u32 where
  "BC_FREE_BUFFER = iow 99 3 8"

definition BC_INCREFS :: u32 where
  "BC_INCREFS = iow 99 4 4"

definition BC_ACQUIRE :: u32 where
  "BC_ACQUIRE = iow 99 5 4"

definition BC_RELEASE :: u32 where
  "BC_RELEASE = iow 99 6 4"

definition BC_DECREFS :: u32 where
  "BC_DECREFS = iow 99 7 4"

definition BC_INCREFS_DONE :: u32 where
  "BC_INCREFS_DONE = iow 99 8 PTR_COOKIE_SIZE"

definition BC_ACQUIRE_DONE :: u32 where
  "BC_ACQUIRE_DONE = iow 99 9 PTR_COOKIE_SIZE"

definition BC_ATTEMPT_ACQUIRE :: u32 where
  "BC_ATTEMPT_ACQUIRE = iow 99 10 8"

definition BC_REGISTER_LOOPER :: u32 where
  "BC_REGISTER_LOOPER = io 99 11"

definition BC_ENTER_LOOPER :: u32 where
  "BC_ENTER_LOOPER = io 99 12"

definition BC_EXIT_LOOPER :: u32 where
  "BC_EXIT_LOOPER = io 99 13"

definition BC_REQUEST_DEATH_NOTIFICATION :: u32 where
  "BC_REQUEST_DEATH_NOTIFICATION = iow 99 14 HANDLE_COOKIE_SIZE"

definition BC_CLEAR_DEATH_NOTIFICATION :: u32 where
  "BC_CLEAR_DEATH_NOTIFICATION = iow 99 15 HANDLE_COOKIE_SIZE"

definition BC_DEAD_BINDER_DONE :: u32 where
  "BC_DEAD_BINDER_DONE = iow 99 16 8"

definition BC_TRANSACTION_SG :: u32 where
  "BC_TRANSACTION_SG = iow 99 17 TRANSACTION_DATA_SG_SIZE"

definition BC_REPLY_SG :: u32 where
  "BC_REPLY_SG = iow 99 18 TRANSACTION_DATA_SG_SIZE"

definition BC_REQUEST_FREEZE_NOTIFICATION :: u32 where
  "BC_REQUEST_FREEZE_NOTIFICATION = iow 99 19 HANDLE_COOKIE_SIZE"

definition BC_CLEAR_FREEZE_NOTIFICATION :: u32 where
  "BC_CLEAR_FREEZE_NOTIFICATION = iow 99 20 HANDLE_COOKIE_SIZE"

definition BC_FREEZE_NOTIFICATION_DONE :: u32 where
  "BC_FREEZE_NOTIFICATION_DONE = iow 99 21 8"

lemma sizes_values [uapi_consts]:
  "WRITE_READ_SIZE = 48"
  "TRANSACTION_DATA_SIZE = 64"
  "TRANSACTION_DATA_SECCTX_SIZE = 72"
  "TRANSACTION_DATA_SG_SIZE = 72"
  "FLAT_BINDER_OBJECT_SIZE = 24"
  "FD_OBJECT_SIZE = 24"
  "BUFFER_OBJECT_SIZE = 40"
  "FD_ARRAY_OBJECT_SIZE = 32"
  "PTR_COOKIE_SIZE = 16"
  "HANDLE_COOKIE_SIZE = 12"
  "NODE_DEBUG_INFO_SIZE = 24"
  "NODE_INFO_FOR_REF_SIZE = 24"
  "FREEZE_INFO_SIZE = 12"
  "FROZEN_STATUS_INFO_SIZE = 12"
  "EXTENDED_ERROR_SIZE = 12"
  by (simp_all add: WRITE_READ_SIZE_def TRANSACTION_DATA_SIZE_def TRANSACTION_DATA_SECCTX_SIZE_def TRANSACTION_DATA_SG_SIZE_def FLAT_BINDER_OBJECT_SIZE_def FD_OBJECT_SIZE_def BUFFER_OBJECT_SIZE_def FD_ARRAY_OBJECT_SIZE_def PTR_COOKIE_SIZE_def HANDLE_COOKIE_SIZE_def NODE_DEBUG_INFO_SIZE_def NODE_INFO_FOR_REF_SIZE_def FREEZE_INFO_SIZE_def FROZEN_STATUS_INFO_SIZE_def EXTENDED_ERROR_SIZE_def ioc_defs)

lemma ioctls_values [uapi_consts]:
  "CURRENT_PROTOCOL_VERSION = 8"
  "BINDER_WRITE_READ = 3224396289"
  "BINDER_SET_IDLE_TIMEOUT = 1074291203"
  "BINDER_SET_MAX_THREADS = 1074029061"
  "BINDER_SET_IDLE_PRIORITY = 1074029062"
  "BINDER_SET_CONTEXT_MGR = 1074029063"
  "BINDER_THREAD_EXIT = 1074029064"
  "BINDER_VERSION = 3221512713"
  "BINDER_GET_NODE_DEBUG_INFO = 3222823435"
  "BINDER_GET_NODE_INFO_FOR_REF = 3222823436"
  "BINDER_SET_CONTEXT_MGR_EXT = 1075339789"
  "BINDER_FREEZE = 1074553358"
  "BINDER_GET_FROZEN_INFO = 3222037007"
  "BINDER_ENABLE_ONEWAY_SPAM_DETECTION = 1074029072"
  "BINDER_GET_EXTENDED_ERROR = 3222037009"
  by (simp_all add: CURRENT_PROTOCOL_VERSION_def BINDER_WRITE_READ_def BINDER_SET_IDLE_TIMEOUT_def BINDER_SET_MAX_THREADS_def BINDER_SET_IDLE_PRIORITY_def BINDER_SET_CONTEXT_MGR_def BINDER_THREAD_EXIT_def BINDER_VERSION_def BINDER_GET_NODE_DEBUG_INFO_def BINDER_GET_NODE_INFO_FOR_REF_def BINDER_SET_CONTEXT_MGR_EXT_def BINDER_FREEZE_def BINDER_GET_FROZEN_INFO_def BINDER_ENABLE_ONEWAY_SPAM_DETECTION_def BINDER_GET_EXTENDED_ERROR_def ioc_defs sizes_values)

lemma types_values [uapi_consts]:
  "TYPE_LARGE = 133"
  "BINDER_TYPE_BINDER = 1935813253"
  "BINDER_TYPE_WEAK_BINDER = 2002922117"
  "BINDER_TYPE_HANDLE = 1936206469"
  "BINDER_TYPE_WEAK_HANDLE = 2003315333"
  "BINDER_TYPE_FD = 1717840517"
  "BINDER_TYPE_FDA = 1717854597"
  "BINDER_TYPE_PTR = 1886661253"
  by (simp_all add: TYPE_LARGE_def BINDER_TYPE_BINDER_def BINDER_TYPE_WEAK_BINDER_def BINDER_TYPE_HANDLE_def BINDER_TYPE_WEAK_HANDLE_def BINDER_TYPE_FD_def BINDER_TYPE_FDA_def BINDER_TYPE_PTR_def ioc_defs)

lemma flags_values [uapi_consts]:
  "FLAT_BINDER_FLAG_PRIORITY_MASK = 255"
  "FLAT_BINDER_FLAG_ACCEPTS_FDS = 256"
  "FLAT_BINDER_FLAG_SCHED_POLICY_MASK = 1536"
  "FLAT_BINDER_FLAG_INHERIT_RT = 2048"
  "FLAT_BINDER_FLAG_TXN_SECURITY_CTX = 4096"
  "BINDER_BUFFER_FLAG_HAS_PARENT = 1"
  "TF_ONE_WAY = 1"
  "TF_ROOT_OBJECT = 4"
  "TF_STATUS_CODE = 8"
  "TF_ACCEPT_FDS = 16"
  "TF_CLEAR_BUF = 32"
  "TF_UPDATE_TXN = 64"
  by (simp_all add: FLAT_BINDER_FLAG_PRIORITY_MASK_def FLAT_BINDER_FLAG_ACCEPTS_FDS_def FLAT_BINDER_FLAG_SCHED_POLICY_MASK_def FLAT_BINDER_FLAG_INHERIT_RT_def FLAT_BINDER_FLAG_TXN_SECURITY_CTX_def BINDER_BUFFER_FLAG_HAS_PARENT_def TF_ONE_WAY_def TF_ROOT_OBJECT_def TF_STATUS_CODE_def TF_ACCEPT_FDS_def TF_CLEAR_BUF_def TF_UPDATE_TXN_def ioc_defs)

lemma br_values [uapi_consts]:
  "BR_ERROR = 2147774976"
  "BR_OK = 29185"
  "BR_TRANSACTION_SEC_CTX = 2152231426"
  "BR_TRANSACTION = 2151707138"
  "BR_REPLY = 2151707139"
  "BR_ACQUIRE_RESULT = 2147774980"
  "BR_DEAD_REPLY = 29189"
  "BR_TRANSACTION_COMPLETE = 29190"
  "BR_INCREFS = 2148561415"
  "BR_ACQUIRE = 2148561416"
  "BR_RELEASE = 2148561417"
  "BR_DECREFS = 2148561418"
  "BR_ATTEMPT_ACQUIRE = 2149085707"
  "BR_NOOP = 29196"
  "BR_SPAWN_LOOPER = 29197"
  "BR_FINISHED = 29198"
  "BR_DEAD_BINDER = 2148037135"
  "BR_CLEAR_DEATH_NOTIFICATION_DONE = 2148037136"
  "BR_FAILED_REPLY = 29201"
  "BR_FROZEN_REPLY = 29202"
  "BR_ONEWAY_SPAM_SUSPECT = 29203"
  "BR_TRANSACTION_PENDING_FROZEN = 29204"
  "BR_FROZEN_BINDER = 2148561429"
  "BR_CLEAR_FREEZE_NOTIFICATION_DONE = 2148037142"
  by (simp_all add: BR_ERROR_def BR_OK_def BR_TRANSACTION_SEC_CTX_def BR_TRANSACTION_def BR_REPLY_def BR_ACQUIRE_RESULT_def BR_DEAD_REPLY_def BR_TRANSACTION_COMPLETE_def BR_INCREFS_def BR_ACQUIRE_def BR_RELEASE_def BR_DECREFS_def BR_ATTEMPT_ACQUIRE_def BR_NOOP_def BR_SPAWN_LOOPER_def BR_FINISHED_def BR_DEAD_BINDER_def BR_CLEAR_DEATH_NOTIFICATION_DONE_def BR_FAILED_REPLY_def BR_FROZEN_REPLY_def BR_ONEWAY_SPAM_SUSPECT_def BR_TRANSACTION_PENDING_FROZEN_def BR_FROZEN_BINDER_def BR_CLEAR_FREEZE_NOTIFICATION_DONE_def ioc_defs sizes_values)

lemma bc_values [uapi_consts]:
  "BC_TRANSACTION = 1077961472"
  "BC_REPLY = 1077961473"
  "BC_ACQUIRE_RESULT = 1074029314"
  "BC_FREE_BUFFER = 1074291459"
  "BC_INCREFS = 1074029316"
  "BC_ACQUIRE = 1074029317"
  "BC_RELEASE = 1074029318"
  "BC_DECREFS = 1074029319"
  "BC_INCREFS_DONE = 1074815752"
  "BC_ACQUIRE_DONE = 1074815753"
  "BC_ATTEMPT_ACQUIRE = 1074291466"
  "BC_REGISTER_LOOPER = 25355"
  "BC_ENTER_LOOPER = 25356"
  "BC_EXIT_LOOPER = 25357"
  "BC_REQUEST_DEATH_NOTIFICATION = 1074553614"
  "BC_CLEAR_DEATH_NOTIFICATION = 1074553615"
  "BC_DEAD_BINDER_DONE = 1074291472"
  "BC_TRANSACTION_SG = 1078485777"
  "BC_REPLY_SG = 1078485778"
  "BC_REQUEST_FREEZE_NOTIFICATION = 1074553619"
  "BC_CLEAR_FREEZE_NOTIFICATION = 1074553620"
  "BC_FREEZE_NOTIFICATION_DONE = 1074291477"
  by (simp_all add: BC_TRANSACTION_def BC_REPLY_def BC_ACQUIRE_RESULT_def BC_FREE_BUFFER_def BC_INCREFS_def BC_ACQUIRE_def BC_RELEASE_def BC_DECREFS_def BC_INCREFS_DONE_def BC_ACQUIRE_DONE_def BC_ATTEMPT_ACQUIRE_def BC_REGISTER_LOOPER_def BC_ENTER_LOOPER_def BC_EXIT_LOOPER_def BC_REQUEST_DEATH_NOTIFICATION_def BC_CLEAR_DEATH_NOTIFICATION_def BC_DEAD_BINDER_DONE_def BC_TRANSACTION_SG_def BC_REPLY_SG_def BC_REQUEST_FREEZE_NOTIFICATION_def BC_CLEAR_FREEZE_NOTIFICATION_def BC_FREEZE_NOTIFICATION_DONE_def ioc_defs sizes_values)

section \<open>Commands and objects\<close>

definition command_payload_size :: "u32 \<Rightarrow> nat option" where
  "command_payload_size cmd =
     (if cmd \<in> {BC_TRANSACTION, BC_REPLY, BC_ACQUIRE_RESULT, BC_FREE_BUFFER, BC_INCREFS,
                BC_ACQUIRE, BC_RELEASE, BC_DECREFS, BC_INCREFS_DONE, BC_ACQUIRE_DONE,
                BC_ATTEMPT_ACQUIRE, BC_REGISTER_LOOPER, BC_ENTER_LOOPER, BC_EXIT_LOOPER,
                BC_REQUEST_DEATH_NOTIFICATION, BC_CLEAR_DEATH_NOTIFICATION, BC_DEAD_BINDER_DONE,
                BC_TRANSACTION_SG, BC_REPLY_SG, BC_REQUEST_FREEZE_NOTIFICATION,
                BC_CLEAR_FREEZE_NOTIFICATION, BC_FREEZE_NOTIFICATION_DONE}
      then Some (ioc_size cmd) else None)"

definition object_size :: "u32 \<Rightarrow> nat option" where
  "object_size kind =
     (if kind \<in> {BINDER_TYPE_BINDER, BINDER_TYPE_WEAK_BINDER, BINDER_TYPE_HANDLE,
                 BINDER_TYPE_WEAK_HANDLE} then Some FLAT_BINDER_OBJECT_SIZE
      else if kind = BINDER_TYPE_FD then Some FD_OBJECT_SIZE
      else if kind = BINDER_TYPE_PTR then Some BUFFER_OBJECT_SIZE
      else if kind = BINDER_TYPE_FDA then Some FD_ARRAY_OBJECT_SIZE
      else None)"

definition return_names :: "(u32 \<times> string) list" where
  "return_names =
     [(BR_ERROR, ''BR_ERROR''), (BR_OK, ''BR_OK''),
      (BR_TRANSACTION_SEC_CTX, ''BR_TRANSACTION_SEC_CTX''), (BR_TRANSACTION, ''BR_TRANSACTION''),
      (BR_REPLY, ''BR_REPLY''), (BR_ACQUIRE_RESULT, ''BR_ACQUIRE_RESULT''),
      (BR_DEAD_REPLY, ''BR_DEAD_REPLY''), (BR_TRANSACTION_COMPLETE, ''BR_TRANSACTION_COMPLETE''),
      (BR_INCREFS, ''BR_INCREFS''), (BR_ACQUIRE, ''BR_ACQUIRE''), (BR_RELEASE, ''BR_RELEASE''),
      (BR_DECREFS, ''BR_DECREFS''), (BR_ATTEMPT_ACQUIRE, ''BR_ATTEMPT_ACQUIRE''),
      (BR_NOOP, ''BR_NOOP''), (BR_SPAWN_LOOPER, ''BR_SPAWN_LOOPER''),
      (BR_FINISHED, ''BR_FINISHED''), (BR_DEAD_BINDER, ''BR_DEAD_BINDER''),
      (BR_CLEAR_DEATH_NOTIFICATION_DONE, ''BR_CLEAR_DEATH_NOTIFICATION_DONE''),
      (BR_FAILED_REPLY, ''BR_FAILED_REPLY''), (BR_FROZEN_REPLY, ''BR_FROZEN_REPLY''),
      (BR_ONEWAY_SPAM_SUSPECT, ''BR_ONEWAY_SPAM_SUSPECT''),
      (BR_TRANSACTION_PENDING_FROZEN, ''BR_TRANSACTION_PENDING_FROZEN''),
      (BR_FROZEN_BINDER, ''BR_FROZEN_BINDER''),
      (BR_CLEAR_FREEZE_NOTIFICATION_DONE, ''BR_CLEAR_FREEZE_NOTIFICATION_DONE'')]"

definition return_name :: "u32 \<Rightarrow> string" where
  "return_name cmd =
     (case map_of return_names cmd of Some n \<Rightarrow> n | None \<Rightarrow> ''BR_<unknown>'')"

section \<open>Fields\<close>

definition u32_at :: "byte list \<Rightarrow> nat \<Rightarrow> u32 option" where
  "u32_at bytes off = map_option (\<lambda>b. of_nat (le_val b)) (slice off 4 bytes)"

definition i32_at :: "byte list \<Rightarrow> nat \<Rightarrow> i32 option" where
  "i32_at bytes off = map_option (\<lambda>b. of_nat (le_val b)) (slice off 4 bytes)"

definition u64_at :: "byte list \<Rightarrow> nat \<Rightarrow> u64 option" where
  "u64_at bytes off = map_option (\<lambda>b. of_nat (le_val b)) (slice off 8 bytes)"

definition u32_le :: "u32 \<Rightarrow> byte list" where
  "u32_le v = le_put 4 (unat v)"

definition u64_le :: "u64 \<Rightarrow> byte list" where
  "u64_le v = le_put 8 (unat v)"

definition put_u32 :: "byte list \<Rightarrow> nat \<Rightarrow> u32 \<Rightarrow> byte list option" where
  "put_u32 bytes off v = put_slice off (u32_le v) bytes"

definition put_i32 :: "byte list \<Rightarrow> nat \<Rightarrow> i32 \<Rightarrow> byte list option" where
  "put_i32 bytes off v = put_slice off (u32_le v) bytes"

definition put_u64 :: "byte list \<Rightarrow> nat \<Rightarrow> u64 \<Rightarrow> byte list option" where
  "put_u64 bytes off v = put_slice off (u64_le v) bytes"

section \<open>Structures\<close>

record write_read =
  write_size :: u64
  write_consumed :: u64
  write_buffer :: u64
  read_size :: u64
  read_consumed :: u64
  read_buffer :: u64

definition write_read_decode :: "byte list \<Rightarrow> write_read option" where
  "write_read_decode bytes = do {
     a \<leftarrow> u64_at bytes 0;
     b \<leftarrow> u64_at bytes 8;
     c \<leftarrow> u64_at bytes 16;
     d \<leftarrow> u64_at bytes 24;
     e \<leftarrow> u64_at bytes 32;
     f \<leftarrow> u64_at bytes 40;
     Some \<lparr>write_size = a, write_consumed = b, write_buffer = c,
           read_size = d, read_consumed = e, read_buffer = f\<rparr> }"

definition write_read_encode :: "write_read \<Rightarrow> byte list option" where
  "write_read_encode w = do {
     let bytes = replicate WRITE_READ_SIZE 0;
     bytes \<leftarrow> put_u64 bytes 0 (write_size w);
     bytes \<leftarrow> put_u64 bytes 8 (write_consumed w);
     bytes \<leftarrow> put_u64 bytes 16 (write_buffer w);
     bytes \<leftarrow> put_u64 bytes 24 (read_size w);
     bytes \<leftarrow> put_u64 bytes 32 (read_consumed w);
     put_u64 bytes 40 (read_buffer w) }"

record transaction_data =
  td_target :: u64
  td_cookie :: u64
  td_code :: u32
  td_flags :: u32
  td_sender_pid :: i32
  td_sender_euid :: u32
  td_data_size :: u64
  td_offsets_size :: u64
  td_buffer :: u64
  td_offsets :: u64

definition transaction_data_default :: transaction_data where
  "transaction_data_default =
     \<lparr>td_target = 0, td_cookie = 0, td_code = 0, td_flags = 0, td_sender_pid = 0,
      td_sender_euid = 0, td_data_size = 0, td_offsets_size = 0, td_buffer = 0, td_offsets = 0\<rparr>"

definition transaction_data_decode :: "byte list \<Rightarrow> transaction_data option" where
  "transaction_data_decode bytes = do {
     a \<leftarrow> u64_at bytes 0;
     b \<leftarrow> u64_at bytes 8;
     c \<leftarrow> u32_at bytes 16;
     d \<leftarrow> u32_at bytes 20;
     e \<leftarrow> i32_at bytes 24;
     f \<leftarrow> u32_at bytes 28;
     g \<leftarrow> u64_at bytes 32;
     h \<leftarrow> u64_at bytes 40;
     i \<leftarrow> u64_at bytes 48;
     j \<leftarrow> u64_at bytes 56;
     Some \<lparr>td_target = a, td_cookie = b, td_code = c, td_flags = d, td_sender_pid = e,
           td_sender_euid = f, td_data_size = g, td_offsets_size = h, td_buffer = i,
           td_offsets = j\<rparr> }"

definition transaction_data_encode :: "transaction_data \<Rightarrow> byte list option" where
  "transaction_data_encode t = do {
     let bytes = replicate TRANSACTION_DATA_SIZE 0;
     bytes \<leftarrow> put_u64 bytes 0 (td_target t);
     bytes \<leftarrow> put_u64 bytes 8 (td_cookie t);
     bytes \<leftarrow> put_u32 bytes 16 (td_code t);
     bytes \<leftarrow> put_u32 bytes 20 (td_flags t);
     bytes \<leftarrow> put_i32 bytes 24 (td_sender_pid t);
     bytes \<leftarrow> put_u32 bytes 28 (td_sender_euid t);
     bytes \<leftarrow> put_u64 bytes 32 (td_data_size t);
     bytes \<leftarrow> put_u64 bytes 40 (td_offsets_size t);
     bytes \<leftarrow> put_u64 bytes 48 (td_buffer t);
     put_u64 bytes 56 (td_offsets t) }"

definition td_handle :: "transaction_data \<Rightarrow> u32" where
  "td_handle t = ucast (td_target t)"

record flat_binder_object =
  fbo_kind :: u32
  fbo_flags :: u32
  fbo_binder :: u64
  fbo_cookie :: u64

definition flat_binder_object_default :: flat_binder_object where
  "flat_binder_object_default =
     \<lparr>fbo_kind = 0, fbo_flags = 0, fbo_binder = 0, fbo_cookie = 0\<rparr>"

definition flat_binder_object_decode :: "byte list \<Rightarrow> flat_binder_object option" where
  "flat_binder_object_decode bytes = do {
     a \<leftarrow> u32_at bytes 0;
     b \<leftarrow> u32_at bytes 4;
     c \<leftarrow> u64_at bytes 8;
     d \<leftarrow> u64_at bytes 16;
     Some \<lparr>fbo_kind = a, fbo_flags = b, fbo_binder = c, fbo_cookie = d\<rparr> }"

definition flat_binder_object_encode :: "flat_binder_object \<Rightarrow> byte list option" where
  "flat_binder_object_encode f = do {
     let bytes = replicate FLAT_BINDER_OBJECT_SIZE 0;
     bytes \<leftarrow> put_u32 bytes 0 (fbo_kind f);
     bytes \<leftarrow> put_u32 bytes 4 (fbo_flags f);
     bytes \<leftarrow> put_u64 bytes 8 (fbo_binder f);
     put_u64 bytes 16 (fbo_cookie f) }"

definition fbo_handle :: "flat_binder_object \<Rightarrow> u32" where
  "fbo_handle f = ucast (fbo_binder f)"

record buffer_object =
  bo_flags :: u32
  bo_buffer :: u64
  bo_length :: u64
  bo_parent :: u64
  bo_parent_offset :: u64

definition buffer_object_decode :: "byte list \<Rightarrow> buffer_object option" where
  "buffer_object_decode bytes = do {
     a \<leftarrow> u32_at bytes 4;
     b \<leftarrow> u64_at bytes 8;
     c \<leftarrow> u64_at bytes 16;
     d \<leftarrow> u64_at bytes 24;
     e \<leftarrow> u64_at bytes 32;
     Some \<lparr>bo_flags = a, bo_buffer = b, bo_length = c, bo_parent = d, bo_parent_offset = e\<rparr> }"

definition buffer_object_encode :: "buffer_object \<Rightarrow> byte list option" where
  "buffer_object_encode b = do {
     let bytes = replicate BUFFER_OBJECT_SIZE 0;
     bytes \<leftarrow> put_u32 bytes 0 BINDER_TYPE_PTR;
     bytes \<leftarrow> put_u32 bytes 4 (bo_flags b);
     bytes \<leftarrow> put_u64 bytes 8 (bo_buffer b);
     bytes \<leftarrow> put_u64 bytes 16 (bo_length b);
     bytes \<leftarrow> put_u64 bytes 24 (bo_parent b);
     put_u64 bytes 32 (bo_parent_offset b) }"

record fd_array_object =
  fda_num_fds :: u64
  fda_parent :: u64
  fda_parent_offset :: u64

definition fd_array_object_decode :: "byte list \<Rightarrow> fd_array_object option" where
  "fd_array_object_decode bytes = do {
     a \<leftarrow> u64_at bytes 8;
     b \<leftarrow> u64_at bytes 16;
     c \<leftarrow> u64_at bytes 24;
     Some \<lparr>fda_num_fds = a, fda_parent = b, fda_parent_offset = c\<rparr> }"

definition fd_array_object_encode :: "fd_array_object \<Rightarrow> byte list option" where
  "fd_array_object_encode f = do {
     let bytes = replicate FD_ARRAY_OBJECT_SIZE 0;
     bytes \<leftarrow> put_u32 bytes 0 BINDER_TYPE_FDA;
     bytes \<leftarrow> put_u64 bytes 8 (fda_num_fds f);
     bytes \<leftarrow> put_u64 bytes 16 (fda_parent f);
     put_u64 bytes 24 (fda_parent_offset f) }"

section \<open>Layout lemmas\<close>

lemma length_u32_le [simp]: "length (u32_le v) = 4"
  by (simp add: u32_le_def)

lemma length_u64_le [simp]: "length (u64_le v) = 8"
  by (simp add: u64_le_def)

lemma u32_of_le [simp]: "word_of_nat (le_val (u32_le v)) = v"
proof -
  have "unat v < 256 ^ 4" using unsigned_less [of v, where 'a = nat] by simp
  then show ?thesis by (simp add: u32_le_def le_val_le_put)
qed

lemma u64_of_le [simp]: "word_of_nat (le_val (u64_le v)) = v"
proof -
  have "unat v < 256 ^ 8" using unsigned_less [of v, where 'a = nat] by simp
  then show ?thesis by (simp add: u64_le_def le_val_le_put)
qed

lemma put_u32_eq: "off + 4 \<le> length bs \<Longrightarrow> put_u32 bs off v = Some (splice off (u32_le v) bs)"
  and put_i32_eq: "off + 4 \<le> length bs \<Longrightarrow> put_i32 bs off v = Some (splice off (u32_le v) bs)"
  and put_u64_eq: "off + 8 \<le> length bs \<Longrightarrow> put_u64 bs off w = Some (splice off (u64_le w) bs)"
  by (simp_all add: put_u32_def put_i32_def put_u64_def put_slice_def)

lemmas field_defs = u32_at_def i32_at_def u64_at_def
lemmas put_eqs = put_u32_eq put_i32_eq put_u64_eq
lemmas struct_simps = put_eqs field_defs slice_splices sizes_values

section \<open>Codecs\<close>

text \<open>
  What the driver relies on of a structure's encoder and decoder: encoding never panics, yields the
  structure's size, and decoding what was encoded gives the structure back.
\<close>

locale codec =
  fixes enc :: "'a \<Rightarrow> byte list option"
    and dec :: "byte list \<Rightarrow> 'a option"
    and size :: nat
  assumes enc_dec: "\<exists>bytes. enc x = Some bytes \<and> length bytes = size \<and> dec bytes = Some x"
begin

lemma enc_Some: "enc x \<noteq> None"
  using enc_dec [of x] by auto

lemma length_enc: "enc x = Some bytes \<Longrightarrow> length bytes = size"
  using enc_dec [of x] by auto

lemma dec_enc: "enc x = Some bytes \<Longrightarrow> dec bytes = Some x"
  using enc_dec [of x] by auto

lemma enc_inj: "enc x = enc y \<Longrightarrow> x = y"
  using enc_dec [of x] enc_dec [of y] by auto

text \<open>Overwriting a structure inside a larger image reads back as the new structure.\<close>

lemma dec_in_image:
  assumes "enc x = Some bytes" "off + size \<le> length img"
  shows "Option.bind (put_slice off bytes img) (\<lambda>im. Option.bind (slice off size im) dec) = Some x"
  using assms length_enc [OF assms(1)] dec_enc [OF assms(1)]
  by (simp add: put_slice_def slice_splice_same)

end

interpretation write_read_codec: codec write_read_encode write_read_decode WRITE_READ_SIZE
  by unfold_locales (simp add: write_read_encode_def write_read_decode_def struct_simps)

interpretation transaction_data_codec:
  codec transaction_data_encode transaction_data_decode TRANSACTION_DATA_SIZE
  by unfold_locales (simp add: transaction_data_encode_def transaction_data_decode_def struct_simps)

interpretation flat_binder_object_codec:
  codec flat_binder_object_encode flat_binder_object_decode FLAT_BINDER_OBJECT_SIZE
  by unfold_locales
    (simp add: flat_binder_object_encode_def flat_binder_object_decode_def struct_simps)

interpretation buffer_object_codec:
  codec buffer_object_encode buffer_object_decode BUFFER_OBJECT_SIZE
  by unfold_locales (simp add: buffer_object_encode_def buffer_object_decode_def struct_simps)

interpretation fd_array_object_codec:
  codec fd_array_object_encode fd_array_object_decode FD_ARRAY_OBJECT_SIZE
  by unfold_locales (simp add: fd_array_object_encode_def fd_array_object_decode_def struct_simps)

text \<open>Property C38. Each of the five structures of the ioctl protocol is encoded without a panic into
  exactly its ABI size, and decoding the bytes gives the structure back.\<close>

theorem struct_roundtrip:
  "(\<exists>bytes. write_read_encode w = Some bytes \<and> length bytes = 48 \<and>
      write_read_decode bytes = Some w) \<and>
   (\<exists>bytes. transaction_data_encode t = Some bytes \<and> length bytes = 64 \<and>
      transaction_data_decode bytes = Some t) \<and>
   (\<exists>bytes. flat_binder_object_encode f = Some bytes \<and> length bytes = 24 \<and>
      flat_binder_object_decode bytes = Some f) \<and>
   (\<exists>bytes. buffer_object_encode b = Some bytes \<and> length bytes = 40 \<and>
      buffer_object_decode bytes = Some b \<and> u32_at bytes 0 = Some BINDER_TYPE_PTR) \<and>
   (\<exists>bytes. fd_array_object_encode d = Some bytes \<and> length bytes = 32 \<and>
      fd_array_object_decode bytes = Some d \<and> u32_at bytes 0 = Some BINDER_TYPE_FDA)"
proof (intro conjI)
  show "\<exists>bytes. buffer_object_encode b = Some bytes \<and> length bytes = 40 \<and>
      buffer_object_decode bytes = Some b \<and> u32_at bytes 0 = Some BINDER_TYPE_PTR"
    by (simp add: buffer_object_encode_def buffer_object_decode_def struct_simps)
  show "\<exists>bytes. fd_array_object_encode d = Some bytes \<and> length bytes = 32 \<and>
      fd_array_object_decode bytes = Some d \<and> u32_at bytes 0 = Some BINDER_TYPE_FDA"
    by (simp add: fd_array_object_encode_def fd_array_object_decode_def struct_simps)
qed (use write_read_codec.enc_dec transaction_data_codec.enc_dec flat_binder_object_codec.enc_dec
    in \<open>simp_all add: sizes_values\<close>)

section \<open>Command sizes\<close>

lemma command_payload_size_cases:
  assumes "command_payload_size cmd = Some n"
  obtains "cmd \<in> {BC_REGISTER_LOOPER, BC_ENTER_LOOPER, BC_EXIT_LOOPER}" "n = 0"
  | "cmd \<in> {BC_ACQUIRE_RESULT, BC_INCREFS, BC_ACQUIRE, BC_RELEASE, BC_DECREFS}" "n = 4"
  | "cmd \<in> {BC_FREE_BUFFER, BC_ATTEMPT_ACQUIRE, BC_DEAD_BINDER_DONE, BC_FREEZE_NOTIFICATION_DONE}"
    "n = 8"
  | "cmd \<in> {BC_REQUEST_DEATH_NOTIFICATION, BC_CLEAR_DEATH_NOTIFICATION,
      BC_REQUEST_FREEZE_NOTIFICATION, BC_CLEAR_FREEZE_NOTIFICATION}" "n = 12"
  | "cmd \<in> {BC_INCREFS_DONE, BC_ACQUIRE_DONE}" "n = 16"
  | "cmd \<in> {BC_TRANSACTION, BC_REPLY}" "n = 64"
  | "cmd \<in> {BC_TRANSACTION_SG, BC_REPLY_SG}" "n = 72"
  using assms
  by (simp add: command_payload_size_def split: if_splits)
    (elim disjE; simp add: ioc_size_def bc_values)

lemma ioc_size_bound: "ioc_size cmd < 2 ^ 14"
proof -
  have "drop_bit 16 cmd AND 16383 = take_bit 14 (drop_bit 16 cmd)"
    by (simp add: take_bit_eq_mask mask_eq_exp_minus_1)
  then have "ioc_size cmd = take_bit 14 (unat (drop_bit 16 cmd))"
    by (simp add: ioc_size_def unsigned_take_bit_eq)
  then show ?thesis by (simp add: take_bit_eq_mod)
qed

end
