(* ===== verification/Alloc.thy ===== *)
theory Alloc
  imports Uapi
begin

text \<open>
  The per-process receive-buffer allocator (\<^verbatim>\<open>src/crates/aim-binder-driver/src/alloc.rs\<close>):
  best fit over the mapped range, half of it reserved for one-way transactions, and the one-way
  spam heuristic. \<open>free_map\<close> is the \<open>BTreeMap\<close> of free blocks (offset to length) and
  \<open>buffers\<close> that of the allocated ones. The invariant \<open>alloc_inv\<close> says that free blocks and
  buffers tile the mapping exactly, that no two free blocks touch, and that the one-way budget is
  accounted for; it is what makes \<open>allocate\<close> and \<open>free_buf\<close> safe.
\<close>

section \<open>Model\<close>

type_synonym proc_id = nat
type_synonym node_id = nat
type_synonym txn_id = nat
type_synonym death_id = nat
type_synonym tid = i32

datatype buffer_record = BinderRec node_id bool | HandleRec u32 bool

record buffer =
  b_size :: nat
  b_data_size :: nat
  b_offsets_size :: nat
  b_txn :: "txn_id option"
  b_delivery :: "(tid \<times> txn_id) option"
  b_target_node :: "node_id option"
  b_is_async :: bool
  b_allow_user_free :: bool
  b_clear_on_free :: bool
  b_sender_pid :: i32
  b_objects :: "buffer_record list"
  b_fda_fds :: "u32 list"

record allocator =
  vm_start :: u64
  a_size :: nat
  free_map :: "(nat, nat) omap"
  buffers :: "(nat, buffer) omap"
  free_async_space :: nat
  oneway_spam_detected :: bool

record allocation =
  al_offset :: nat
  al_oneway_spam_suspect :: bool

definition MAX_MAPPING :: nat where
  "MAX_MAPPING = 4 * 1024 * 1024"

definition align8 :: "u64 \<Rightarrow> u64 option" where
  "align8 v = map_option (\<lambda>v. v AND NOT 7) (u64_add v 7)"

definition new_allocator :: "u64 \<Rightarrow> nat \<Rightarrow> allocator" where
  "new_allocator start len =
     (let sz = min len MAX_MAPPING in
      \<lparr>vm_start = start, a_size = sz, free_map = [(0, sz)], buffers = [],
       free_async_space = sz div 2, oneway_spam_detected = False\<rparr>)"

definition async_count :: "i32 \<Rightarrow> allocator \<Rightarrow> nat \<times> nat" where
  "async_count pid a =
     (let bs = filter (\<lambda>b. b_is_async b \<and> b_sender_pid b = pid) (map snd (buffers a)) in
      (length bs, sum_list (map b_size bs)))"

definition low_async_space :: "i32 \<Rightarrow> allocator \<Rightarrow> bool \<times> allocator" where
  "low_async_space pid a =
     (if free_async_space a \<ge> a_size a div 10 then (False, a\<lparr>oneway_spam_detected := False\<rparr>)
      else let (count, tot) = async_count pid a in
        if (count + 1 > 50 \<or> tot > a_size a div 4) \<and> \<not> oneway_spam_detected a
        then (True, a\<lparr>oneway_spam_detected := True\<rparr>)
        else (False, a))"

definition alloc_total :: "u64 \<Rightarrow> u64 \<Rightarrow> u64 \<Rightarrow> u64 option" where
  "alloc_total data offs extra = do {
     a \<leftarrow> align8 data;
     b \<leftarrow> align8 offs;
     ab \<leftarrow> u64_add a b;
     c \<leftarrow> align8 extra;
     u64_add ab c }"

text \<open>\<open>min_by_key(|(offset, len)| (len, offset))\<close> over the blocks that are long enough.\<close>

fun best_fit :: "nat \<Rightarrow> (nat, nat) omap \<Rightarrow> (nat \<times> nat) option" where
  "best_fit sz [] = None"
| "best_fit sz ((off, len) # m) =
     (case best_fit sz m of
        None \<Rightarrow> if sz \<le> len then Some (off, len) else None
      | Some (off', len') \<Rightarrow>
          if sz \<le> len \<and> (len < len' \<or> len = len' \<and> off \<le> off') then Some (off, len)
          else Some (off', len'))"

definition new_buffer :: "nat \<Rightarrow> u64 \<Rightarrow> u64 \<Rightarrow> bool \<Rightarrow> i32 \<Rightarrow> buffer" where
  "new_buffer sz data offs is_async pid =
     \<lparr>b_size = sz, b_data_size = unat data, b_offsets_size = unat offs, b_txn = None,
      b_delivery = None, b_target_node = None, b_is_async = is_async, b_allow_user_free = False,
      b_clear_on_free = False, b_sender_pid = pid, b_objects = [], b_fda_fds = []\<rparr>"

definition allocate ::
  "u64 \<Rightarrow> u64 \<Rightarrow> u64 \<Rightarrow> bool \<Rightarrow> i32 \<Rightarrow> allocator \<Rightarrow> (errno + allocation) \<times> allocator" where
  "allocate data offs extra is_async pid a =
     (case alloc_total data offs extra of
        None \<Rightarrow> (Inl EINVAL, a)
      | Some tot \<Rightarrow>
        let sz = max (unat tot) 8 in
        if is_async \<and> free_async_space a < sz then (Inl ENOSPC, a)
        else case best_fit sz (free_map a) of
          None \<Rightarrow> (Inl ENOSPC, a)
        | Some (off, len) \<Rightarrow>
          let fm = mdel off (free_map a);
              fm = (if len > sz then mput (off + sz) (len - sz) fm else fm);
              a = a\<lparr>free_map := fm\<rparr>;
              (suspect, a) =
                (if is_async
                 then low_async_space pid (a\<lparr>free_async_space := free_async_space a - sz\<rparr>)
                 else (False, a));
              a = a\<lparr>buffers := mput off (new_buffer sz data offs is_async pid) (buffers a)\<rparr>
          in (Inr \<lparr>al_offset = off, al_oneway_spam_suspect = suspect\<rparr>, a))"

definition offset_of :: "u64 \<Rightarrow> allocator \<Rightarrow> nat option" where
  "offset_of user_ptr a = do {
     off \<leftarrow> u64_sub user_ptr (vm_start a);
     if mget (buffers a) (unat off) \<noteq> None then Some (unat off) else None }"

definition user_address :: "nat \<Rightarrow> allocator \<Rightarrow> u64 option" where
  "user_address off a = u64_add (vm_start a) (of_nat off)"

text \<open>\<open>range(..offset).next_back()\<close>: the last free block that starts below the offset.\<close>

definition block_before :: "nat \<Rightarrow> (nat, nat) omap \<Rightarrow> (nat \<times> nat) option" where
  "block_before off m =
     (case filter (\<lambda>e. fst e < off) m of [] \<Rightarrow> None | es \<Rightarrow> Some (last es))"

definition free_buf :: "nat \<Rightarrow> allocator \<Rightarrow> buffer option \<times> allocator" where
  "free_buf off a =
     (case mget (buffers a) off of
        None \<Rightarrow> (None, a)
      | Some b \<Rightarrow>
        let a = a\<lparr>buffers := mdel off (buffers a)\<rparr>;
            a = (if b_is_async b then a\<lparr>free_async_space := free_async_space a + b_size b\<rparr> else a);
            fm = free_map a;
            (start, len, fm) =
              (case block_before off fm of
                 Some (prev, prev_len) \<Rightarrow>
                   if prev + prev_len = off then (prev, b_size b + prev_len, mdel prev fm)
                   else (off, b_size b, fm)
               | None \<Rightarrow> (off, b_size b, fm));
            (len, fm) =
              (case mget fm (off + b_size b) of
                 Some next_len \<Rightarrow> (len + next_len, mdel (off + b_size b) fm)
               | None \<Rightarrow> (len, fm))
        in (Some b, a\<lparr>free_map := mput start len fm\<rparr>))"

definition free_bytes :: "allocator \<Rightarrow> nat" where
  "free_bytes a = sum_list (map snd (free_map a))"

section \<open>Invariant\<close>

text \<open>\<open>block a o l\<close>: a free block or a buffer of length \<open>l\<close> at \<open>o\<close>.\<close>

definition block :: "allocator \<Rightarrow> nat \<Rightarrow> nat \<Rightarrow> bool" where
  "block a off len \<longleftrightarrow> mget (free_map a) off = Some len \<or>
     (\<exists>b. mget (buffers a) off = Some b \<and> b_size b = len)"

definition async_used :: "allocator \<Rightarrow> nat" where
  "async_used a = sum_list (map (\<lambda>(_, b). if b_is_async b then b_size b else 0) (buffers a))"

definition used_bytes :: "allocator \<Rightarrow> nat" where
  "used_bytes a = sum_list (map (\<lambda>(_, b). b_size b) (buffers a))"

definition free_ok :: "allocator \<Rightarrow> bool" where
  "free_ok a \<longleftrightarrow> (\<forall>off len. mget (free_map a) off = Some len \<longrightarrow>
     mget (buffers a) off = None \<and> (0 < len \<or> a_size a = 0) \<and> 8 dvd off \<and>
     (mget (free_map a) (off + len) = None \<or> a_size a = 0))"

definition buffers_ok :: "allocator \<Rightarrow> bool" where
  "buffers_ok a \<longleftrightarrow> (\<forall>off b. mget (buffers a) off = Some b \<longrightarrow>
     8 \<le> b_size b \<and> 8 dvd off \<and> 8 dvd b_size b)"

definition bounded :: "allocator \<Rightarrow> bool" where
  "bounded a \<longleftrightarrow> (\<forall>off len. block a off len \<longrightarrow> off + len \<le> a_size a)"

definition disjoint_blocks :: "allocator \<Rightarrow> bool" where
  "disjoint_blocks a \<longleftrightarrow> (\<forall>off len off' len'. block a off len \<longrightarrow> block a off' len' \<longrightarrow>
     off < off' \<longrightarrow> off + len \<le> off')"

definition covered :: "allocator \<Rightarrow> bool" where
  "covered a \<longleftrightarrow> (\<forall>x < a_size a. \<exists>off len. block a off len \<and> off \<le> x \<and> x < off + len)"

definition alloc_inv :: "allocator \<Rightarrow> bool" where
  "alloc_inv a \<longleftrightarrow>
     msorted (free_map a) \<and> msorted (buffers a) \<and> a_size a \<le> MAX_MAPPING \<and>
     free_ok a \<and> buffers_ok a \<and> bounded a \<and> disjoint_blocks a \<and> covered a \<and>
     free_async_space a + async_used a = a_size a div 2 \<and>
     free_bytes a + used_bytes a = a_size a"

section \<open>Blocks\<close>

lemma best_fit_Some:
  "best_fit sz m = Some (off, len) \<Longrightarrow>
     (off, len) \<in> set m \<and> sz \<le> len \<and>
     (\<forall>(off', len') \<in> set m. sz \<le> len' \<longrightarrow> len < len' \<or> len = len' \<and> off \<le> off')"
proof (induction sz m arbitrary: off len rule: best_fit.induct)
  case (1 sz)
  then show ?case by simp
next
  case (2 sz o1 l1 m)
  show ?case
  proof (cases "best_fit sz m")
    case None
    have "\<forall>(off', len') \<in> set m. \<not> sz \<le> len'"
      using None
    proof (induction m)
      case (Cons e m)
      then show ?case by (cases e) (auto split: option.splits prod.splits if_splits)
    qed simp
    with 2 None show ?thesis by (auto split: if_splits)
  next
    case (Some p)
    obtain o2 l2 where p: "p = (o2, l2)" by (cases p)
    from "2.IH" [of o2 l2] Some p
    have "(o2, l2) \<in> set m \<and> sz \<le> l2 \<and>
      (\<forall>(off', len') \<in> set m. sz \<le> len' \<longrightarrow> l2 < len' \<or> l2 = len' \<and> o2 \<le> off')" by simp
    with "2.prems" Some p show ?thesis by (fastforce split: if_splits)
  qed
qed


lemma block_before_Some:
  assumes "msorted m" "block_before off m = Some (p, l)"
  shows "mget m p = Some l \<and> p < off \<and> (\<forall>p' l'. mget m p' = Some l' \<longrightarrow> p' < off \<longrightarrow> p' \<le> p)"
proof -
  let ?es = "filter (\<lambda>e. fst e < off) m"
  from assms(2) have ne: "?es \<noteq> []" and last: "last ?es = (p, l)"
    by (auto simp: block_before_def split: list.splits if_splits)
  from ne last have "(p, l) \<in> set ?es" by (metis last_in_set)
  then have in_m: "(p, l) \<in> set m" "p < off" by auto
  have srt: "sorted_wrt (<) (map fst ?es)"
    using assms(1) by (simp add: msorted_def sorted_wrt_map sorted_wrt_filter)
  have "p' \<le> p" if "mget m p' = Some l'" "p' < off" for p' l'
  proof -
    have mem: "(p', l') \<in> set ?es" using that by (auto dest: mget_in_set)
    obtain ys where ys: "?es = ys @ [(p, l)]"
      using ne last by (metis append_butlast_last_id)
    with srt mem show ?thesis by (auto simp: sorted_wrt_append)
  qed
  with in_m assms(1) show ?thesis by (simp add: msorted_in_set)
qed

lemma block_before_None: "block_before off m = None \<Longrightarrow> mget m p = Some l \<Longrightarrow> off \<le> p"
proof -
  assume "block_before off m = None" and get: "mget m p = Some l"
  then have "filter (\<lambda>e. fst e < off) m = []"
    by (auto simp: block_before_def split: list.splits)
  with mget_in_set [OF get] show "off \<le> p" by (fastforce simp: filter_empty_conv)
qed

section \<open>Sizes\<close>

lemma unat_and_not_7: "unat ((x :: u64) AND NOT 7) = unat x div 8 * 8"
proof -
  have seven: "(7 :: u64) = mask 3" by (simp add: mask_eq_exp_minus_1)
  have lt: "unat x < 2 ^ 64" using unsigned_less [of x, where 'a = nat] by simp
  then have tb: "take_bit 64 (unat x) = unat x" by (simp add: take_bit_eq_mod)
  have "x AND NOT 7 = push_bit 3 (drop_bit 3 x)"
    unfolding seven by (rule bit_word_eqI) (auto simp: bit_simps)
  then have "unat (x AND NOT 7) = take_bit 64 (push_bit 3 (drop_bit 3 (unat x)))"
    by (simp add: unsigned_drop_bit_eq unsigned_push_bit_eq tb)
  also have "\<dots> = (unat x div 8 * 8) mod 2 ^ 64"
    by (simp add: push_bit_eq_mult drop_bit_eq_div take_bit_eq_mod)
  also have "\<dots> = unat x div 8 * 8"
  proof (rule mod_less)
    have "unat x div 8 * 8 \<le> unat x" by simp
    with lt show "unat x div 8 * 8 < 2 ^ 64" by linarith
  qed
  finally show ?thesis .
qed

lemma align8_unat: "align8 v = Some w \<Longrightarrow> unat w = (unat v + 7) div 8 * 8"
proof -
  assume "align8 v = Some w"
  then obtain x where x: "u64_add v 7 = Some x" and w: "w = x AND NOT 7"
    by (auto simp: align8_def)
  have "unat x = unat v + 7" using u64_add_Some [OF x] by simp
  with w show ?thesis using unat_and_not_7 [of x] by simp
qed

lemma align8_None: "align8 v = None \<longleftrightarrow> 2 ^ 64 \<le> unat v + 7"
  by (auto simp: align8_def u64_add_def)

lemma align8_ge: "align8 v = Some w \<Longrightarrow> unat v \<le> unat w"
  by (drule align8_unat) simp

lemma alloc_total_Some:
  assumes "alloc_total data offs extra = Some tot"
  shows "8 dvd unat tot \<and>
    (unat data + 7) div 8 * 8 + (unat offs + 7) div 8 * 8 + (unat extra + 7) div 8 * 8 = unat tot"
proof -
  from assms obtain a b ab c where "align8 data = Some a" "align8 offs = Some b"
    "u64_add a b = Some ab" "align8 extra = Some c" "u64_add ab c = Some tot"
    by (auto simp: alloc_total_def elim!: bind_Some_elim)
  then have "unat tot = (unat data + 7) div 8 * 8 + (unat offs + 7) div 8 * 8
      + (unat extra + 7) div 8 * 8"
    using u64_add_Some [of a b ab] u64_add_Some [of ab c tot] by (simp add: align8_unat)
  then show ?thesis by (simp add: dvd_add)
qed

lemma alloc_size_dvd: "alloc_total data offs extra = Some tot \<Longrightarrow> 8 dvd max (unat tot) 8"
  using alloc_total_Some [of data offs extra tot] by (simp add: max_def)

section \<open>Allocation\<close>

lemma low_async_space_frame [simp]:
  "a_size (snd (low_async_space pid a)) = a_size a"
  "vm_start (snd (low_async_space pid a)) = vm_start a"
  "free_map (snd (low_async_space pid a)) = free_map a"
  "buffers (snd (low_async_space pid a)) = buffers a"
  "free_async_space (snd (low_async_space pid a)) = free_async_space a"
  by (auto simp: low_async_space_def split: prod.splits)

definition taken :: "nat \<Rightarrow> nat \<Rightarrow> nat \<Rightarrow> allocator \<Rightarrow> allocator" where
  "taken off len sz a = a\<lparr>free_map :=
     if len > sz then mput (off + sz) (len - sz) (mdel off (free_map a)) else mdel off (free_map a)\<rparr>"

definition charged :: "bool \<Rightarrow> nat \<Rightarrow> i32 \<Rightarrow> allocator \<Rightarrow> bool \<times> allocator" where
  "charged is_async sz pid a =
     (if is_async then low_async_space pid (a\<lparr>free_async_space := free_async_space a - sz\<rparr>)
      else (False, a))"

text \<open>A successful allocation, written with the two intermediate states.\<close>

lemma allocate_Inr_eq:
  assumes "allocate data offs extra is_async pid a = (Inr al, a')"
  obtains tot sz len where
    "alloc_total data offs extra = Some tot" "sz = max (unat tot) 8"
    "best_fit sz (free_map a) = Some (al_offset al, len)"
    "is_async \<longrightarrow> sz \<le> free_async_space a"
    "al_oneway_spam_suspect al = fst (charged is_async sz pid (taken (al_offset al) len sz a))"
    "a' = (snd (charged is_async sz pid (taken (al_offset al) len sz a)))\<lparr>buffers :=
       mput (al_offset al) (new_buffer sz data offs is_async pid) (buffers a)\<rparr>"
proof -
  obtain tot where tot: "alloc_total data offs extra = Some tot"
    using assms by (auto simp: allocate_def split: option.splits)
  let ?sz = "max (unat tot) 8"
  have enough: "\<not> (is_async \<and> free_async_space a < ?sz)"
    using assms tot by (auto simp: allocate_def Let_def split: if_splits)
  then have async: "is_async \<longrightarrow> ?sz \<le> free_async_space a" by linarith
  obtain off len where fit: "best_fit ?sz (free_map a) = Some (off, len)"
    using assms tot by (auto simp: allocate_def Let_def split: if_splits option.splits)
  let ?c = "charged is_async ?sz pid (taken off len ?sz a)"
  have bm: "buffers (snd ?c) = buffers a" by (simp add: charged_def taken_def)
  have "allocate data offs extra is_async pid a =
    (Inr \<lparr>al_offset = off, al_oneway_spam_suspect = fst ?c\<rparr>,
     (snd ?c)\<lparr>buffers := mput off (new_buffer ?sz data offs is_async pid) (buffers (snd ?c))\<rparr>)"
    unfolding allocate_def tot option.case Let_def fit prod.case if_not_P [OF enough]
    by (simp add: charged_def taken_def case_prod_beta)
  with assms have "al = \<lparr>al_offset = off, al_oneway_spam_suspect = fst ?c\<rparr>"
    and "a' = (snd ?c)\<lparr>buffers := mput off (new_buffer ?sz data offs is_async pid) (buffers a)\<rparr>"
    unfolding bm by simp_all
  with that [OF tot refl, of len] fit async show ?thesis by simp
qed

lemma allocate_Inr:
  assumes "allocate data offs extra is_async pid a = (Inr al, a')"
  obtains tot sz len where
    "alloc_total data offs extra = Some tot" "sz = max (unat tot) 8"
    "best_fit sz (free_map a) = Some (al_offset al, len)"
    "is_async \<longrightarrow> sz \<le> free_async_space a"
    "free_map a' = (if len > sz then mput (al_offset al + sz) (len - sz) (mdel (al_offset al) (free_map a))
                    else mdel (al_offset al) (free_map a))"
    "buffers a' = mput (al_offset al) (new_buffer sz data offs is_async pid) (buffers a)"
    "a_size a' = a_size a" "vm_start a' = vm_start a"
    "free_async_space a' = (if is_async then free_async_space a - sz else free_async_space a)"
  using assms
proof (cases rule: allocate_Inr_eq)
  case (1 tot sz len)
  show ?thesis
    by (rule that [OF 1(1-4)]) (simp_all add: 1(6) charged_def taken_def)
qed

section \<open>Invariant: consequences and the empty allocator\<close>

lemma alloc_inv_msorted: "alloc_inv a \<Longrightarrow> msorted (free_map a)" "alloc_inv a \<Longrightarrow> msorted (buffers a)"
  and alloc_inv_size: "alloc_inv a \<Longrightarrow> a_size a \<le> MAX_MAPPING"
  and alloc_inv_async: "alloc_inv a \<Longrightarrow> free_async_space a + async_used a = a_size a div 2"
  and alloc_inv_bytes: "alloc_inv a \<Longrightarrow> free_bytes a + used_bytes a = a_size a"
  by (simp_all add: alloc_inv_def)

lemma alloc_inv_free:
  assumes "alloc_inv a" "mget (free_map a) off = Some len"
  shows "mget (buffers a) off = None" "0 < len \<or> a_size a = 0" "8 dvd off"
    "mget (free_map a) (off + len) = None \<or> a_size a = 0"
  using assms by (auto simp: alloc_inv_def free_ok_def)

lemma alloc_inv_buffer:
  assumes "alloc_inv a" "mget (buffers a) off = Some b"
  shows "8 \<le> b_size b" "8 dvd off" "8 dvd b_size b"
  using assms by (auto simp: alloc_inv_def buffers_ok_def)

lemma alloc_inv_bound: "alloc_inv a \<Longrightarrow> block a off len \<Longrightarrow> off + len \<le> a_size a"
  by (simp add: alloc_inv_def bounded_def)

lemma alloc_inv_disjoint:
  "alloc_inv a \<Longrightarrow> block a off len \<Longrightarrow> block a off' len' \<Longrightarrow> off < off' \<Longrightarrow> off + len \<le> off'"
  unfolding alloc_inv_def disjoint_blocks_def by blast

lemma alloc_inv_cover:
  "alloc_inv a \<Longrightarrow> x < a_size a \<Longrightarrow> \<exists>off len. block a off len \<and> off \<le> x \<and> x < off + len"
  by (simp add: alloc_inv_def covered_def)

lemma block_free: "mget (free_map a) off = Some len \<Longrightarrow> block a off len"
  by (simp add: block_def)

lemma block_buffer: "mget (buffers a) off = Some b \<Longrightarrow> block a off (b_size b)"
  by (auto simp: block_def)

lemma new_allocator_inv: "alloc_inv (new_allocator start len)"
proof -
  let ?a = "new_allocator start len"
  have blk: "block ?a off l \<longleftrightarrow> off = 0 \<and> l = a_size ?a" for off l
    by (auto simp: block_def new_allocator_def Let_def mget_def)
  have size: "a_size ?a \<le> MAX_MAPPING" by (simp add: new_allocator_def Let_def)
  have "mget (free_map ?a) off = (if off = 0 then Some (a_size ?a) else None)"
    "mget (buffers ?a) off = None" for off
    by (simp_all add: new_allocator_def Let_def mget_def)
  moreover have "msorted (free_map ?a)" "msorted (buffers ?a)"
    "free_async_space ?a = a_size ?a div 2" "async_used ?a = 0" "used_bytes ?a = 0"
    "free_bytes ?a = a_size ?a"
    by (simp_all add: new_allocator_def Let_def msorted_def async_used_def used_bytes_def
        free_bytes_def)
  ultimately show ?thesis
    using size by (simp add: alloc_inv_def free_ok_def buffers_ok_def bounded_def
        disjoint_blocks_def covered_def blk)
qed

section \<open>Allocation keeps the invariant\<close>

lemma alloc_inv_carve:
  assumes inv: "alloc_inv a"
    and free: "mget (free_map a) off = Some len"
    and sz: "8 \<le> sz" "8 dvd sz" "sz \<le> len"
    and fm': "free_map a' = (if len > sz then mput (off + sz) (len - sz) (mdel off (free_map a))
                    else mdel off (free_map a))"
    and bm': "buffers a' = mput off nb (buffers a)" "b_size nb = sz"
    and size': "a_size a' = a_size a"
    and async': "free_async_space a' + (if b_is_async nb then sz else 0) = free_async_space a"
  shows "alloc_inv a'"
proof -
  note disj = alloc_inv_disjoint [OF inv] and bound = alloc_inv_bound [OF inv]
  have blk: "block a off len" using free by (rule block_free)
  have pos: "0 < a_size a" using bound [OF blk] sz by simp
  have nobuf: "mget (buffers a) off = None" using alloc_inv_free(1) [OF inv free] .
  have F: "mget (free_map a') x =
      (if x = off then None else if x = off + sz \<and> sz < len then Some (len - sz)
       else mget (free_map a) x)" for x
    using sz by (auto simp: fm')
  have B: "mget (buffers a') x = (if x = off then Some nb else mget (buffers a) x)" for x
    by (auto simp: bm')
  have rest_none: "\<not> block a (off + sz) l" if "sz < len" for l
    using disj [OF blk, of "off + sz" l] sz that by auto
  have blk': "block a' o' l' \<longleftrightarrow> (o' = off \<and> l' = sz) \<or> (o' = off + sz \<and> l' = len - sz \<and> sz < len)
      \<or> (o' \<noteq> off \<and> block a o' l')" for o' l'
    using rest_none nobuf sz by (auto simp: block_def F B bm'(2) split: if_splits)
  have other: "o' + l' \<le> off \<or> off + len \<le> o'" if "block a o' l'" "o' \<noteq> off" for o' l'
    using disj [OF blk that(1)] disj [OF that(1) blk] that(2) by (cases "o' < off") auto
  have rest0: "mget (free_map a) (off + sz) = None" if "sz < len"
    using rest_none [OF that] by (cases "mget (free_map a) (off + sz)") (auto simp: block_def)
  have fm_sum: "free_bytes a' + sz = free_bytes a"
  proof -
    have del: "len + sum_list (map snd (mdel off (free_map a))) = free_bytes a"
      using sum_list_mdel [OF msorted_distinct [OF alloc_inv_msorted(1) [OF inv]] free, of snd]
      by (simp add: free_bytes_def)
    have put: "sz < len \<Longrightarrow> sum_list (map snd (mput (off + sz) (len - sz) (mdel off (free_map a))))
        = (len - sz) + sum_list (map snd (mdel off (free_map a)))"
      using rest0 by (simp add: sum_list_mput_new)
    from del put sz show ?thesis by (auto simp: free_bytes_def fm')
  qed
  show ?thesis
    unfolding alloc_inv_def free_ok_def buffers_ok_def bounded_def disjoint_blocks_def covered_def
  proof (intro conjI allI impI)
    show "msorted (free_map a')" "msorted (buffers a')"
      using alloc_inv_msorted [OF inv] by (auto simp: fm' bm')
    show "a_size a' \<le> MAX_MAPPING" using alloc_inv_size [OF inv] size' by simp
  next
    fix o' l' assume get: "mget (free_map a') o' = Some l'"
    show "mget (buffers a') o' = None"
    proof (cases "o' = off + sz \<and> sz < len")
      case True
      with rest_none show ?thesis
        by (cases "mget (buffers a) o'") (use sz in \<open>auto simp: B block_def\<close>)
    next
      case False
      with get alloc_inv_free(1) [OF inv, of o' l'] show ?thesis by (auto simp: F B split: if_splits)
    qed
    show "0 < l' \<or> a_size a' = 0"
      using get alloc_inv_free(2) [OF inv, of o' l'] by (auto simp: F size' split: if_splits)
    show "8 dvd o'"
      using get alloc_inv_free(3) [OF inv free] alloc_inv_free(3) [OF inv, of o' l'] sz
      by (auto simp: F split: if_splits)
    show "mget (free_map a') (o' + l') = None \<or> a_size a' = 0"
    proof (cases "o' = off + sz \<and> sz < len")
      case True
      with get sz have eq: "o' + l' = off + len" by (auto simp: F split: if_splits)
      have "mget (free_map a) (off + len) = None"
        using alloc_inv_free(4) [OF inv free] pos by simp
      then show ?thesis unfolding eq using True by (simp add: F)
    next
      case False
      with get have old: "mget (free_map a) o' = Some l'" "o' \<noteq> off" by (auto simp: F split: if_splits)
      then have "mget (free_map a) (o' + l') = None"
        using alloc_inv_free(4) [OF inv] pos by simp
      moreover have "\<not> (o' + l' = off + sz \<and> sz < len)"
        using other [OF block_free [OF old(1)] old(2)] sz by auto
      ultimately show ?thesis by (auto simp: F)
    qed
  next
    fix o' b assume get: "mget (buffers a') o' = Some b"
    show "8 \<le> b_size b" "8 dvd b_size b" "8 dvd o'"
      using get sz bm'(2) alloc_inv_buffer [OF inv, of o' b] alloc_inv_free(3) [OF inv free]
      by (auto simp: B split: if_splits)
  next
    fix o' l' assume "block a' o' l'"
    then show "o' + l' \<le> a_size a'"
      using bound [OF blk] bound [of o' l'] sz by (auto simp: blk' size')
  next
    fix o1 l1 o2 l2 assume "block a' o1 l1" "block a' o2 l2" "o1 < o2"
    then show "o1 + l1 \<le> o2"
      using other [of o1 l1] other [of o2 l2] disj [of o1 l1 o2 l2] sz by (auto simp: blk')
  next
    fix x assume "x < a_size a'"
    then obtain o' l' where b: "block a o' l'" "o' \<le> x" "x < o' + l'"
      using alloc_inv_cover [OF inv, of x] by (auto simp: size')
    show "\<exists>o' l'. block a' o' l' \<and> o' \<le> x \<and> x < o' + l'"
    proof (cases "o' = off")
      case True
      with b(1) nobuf free have "l' = len" by (auto simp: block_def)
      show ?thesis
      proof (cases "x < off + sz")
        case True
        have "block a' off sz" by (simp add: blk')
        with b(2) \<open>o' = off\<close> True show ?thesis by blast
      next
        case False
        with b \<open>o' = off\<close> \<open>l' = len\<close> have "sz < len" "off + sz \<le> x" "x < off + sz + (len - sz)" by auto
        moreover from this have "block a' (off + sz) (len - sz)" by (simp add: blk')
        ultimately show ?thesis by blast
      qed
    next
      case False
      with b show ?thesis by (auto simp: blk')
    qed
  next
    have "async_used a' = (if b_is_async nb then sz else 0) + async_used a"
      using nobuf bm'(2) by (simp add: async_used_def bm'(1) sum_list_mput_new)
    then show "free_async_space a' + async_used a' = a_size a' div 2"
      using alloc_inv_async [OF inv] async' size' by simp
  next
    have "used_bytes a' = sz + used_bytes a"
      using nobuf bm'(2) by (simp add: used_bytes_def bm'(1) sum_list_mput_new)
    then show "free_bytes a' + used_bytes a' = a_size a'"
      using alloc_inv_bytes [OF inv] fm_sum size' by simp
  qed
qed

lemma best_fit_mget:
  "alloc_inv a \<Longrightarrow> best_fit sz (free_map a) = Some (off, len) \<Longrightarrow> mget (free_map a) off = Some len \<and> sz \<le> len"
  using best_fit_Some [of sz "free_map a" off len] alloc_inv_msorted(1) [of a]
  by (simp add: msorted_in_set)

lemma allocate_error: "allocate data offs extra is_async pid a = (Inl e, a') \<Longrightarrow> a' = a"
  by (auto simp: allocate_def Let_def case_prod_beta split: option.splits if_splits)

lemma allocate_alloc_inv:
  assumes inv: "alloc_inv a" and al: "allocate data offs extra is_async pid a = (r, a')"
  shows "alloc_inv a'"
proof (cases r)
  case (Inl e)
  with al inv show ?thesis by (auto dest: allocate_error)
next
  case (Inr al)
  with assms(2) have "allocate data offs extra is_async pid a = (Inr al, a')" by simp
  then obtain tot sz len where a': "alloc_total data offs extra = Some tot" "sz = max (unat tot) 8"
    "best_fit sz (free_map a) = Some (al_offset al, len)"
    "is_async \<longrightarrow> sz \<le> free_async_space a"
    "free_map a' = (if len > sz then mput (al_offset al + sz) (len - sz) (mdel (al_offset al) (free_map a))
                    else mdel (al_offset al) (free_map a))"
    "buffers a' = mput (al_offset al) (new_buffer sz data offs is_async pid) (buffers a)"
    "a_size a' = a_size a"
    "free_async_space a' = (if is_async then free_async_space a - sz else free_async_space a)"
    by (rule allocate_Inr)
  from best_fit_mget [OF inv a'(3)]
  have fit: "mget (free_map a) (al_offset al) = Some len" "sz \<le> len" by simp_all
  show ?thesis
  proof (rule alloc_inv_carve [OF inv fit(1) _ _ fit(2) a'(5,6) _ a'(7)])
    show "8 \<le> sz" "8 dvd sz" using a'(1,2) alloc_size_dvd by auto
    show "b_size (new_buffer sz data offs is_async pid) = sz" by (simp add: new_buffer_def)
    show "free_async_space a' + (if b_is_async (new_buffer sz data offs is_async pid) then sz else 0)
        = free_async_space a"
      using a'(4,8) by (auto simp: new_buffer_def)
  qed
qed

section \<open>Freeing\<close>

text \<open>What \<open>free_buf\<close> leaves: the freed block merged with the free blocks that touch it.\<close>

lemma free_buf_Some:
  assumes inv: "alloc_inv a" and fr: "free_buf off a = (Some b, a')"
  obtains start pl nl where
    "mget (buffers a) off = Some b" "start + pl = off"
    "(pl = 0 \<and> (\<forall>p l. mget (free_map a) p = Some l \<longrightarrow> p + l \<noteq> off)) \<or>
     mget (free_map a) start = Some pl"
    "nl = (case mget (free_map a) (off + b_size b) of None \<Rightarrow> 0 | Some l \<Rightarrow> l)"
    "free_map a' = mput start (b_size b + pl + nl)
       (mdel (off + b_size b) (if pl = 0 then free_map a else mdel start (free_map a)))"
    "buffers a' = mdel off (buffers a)" "a_size a' = a_size a" "vm_start a' = vm_start a"
    "free_async_space a' = free_async_space a + (if b_is_async b then b_size b else 0)"
    "oneway_spam_detected a' = oneway_spam_detected a"
proof -
  from fr have b: "mget (buffers a) off = Some b"
    by (auto simp: free_buf_def Let_def case_prod_beta split: option.splits)
  have sz: "8 \<le> b_size b" using alloc_inv_buffer [OF inv b] by simp
  have pos: "0 < a_size a" using alloc_inv_bound [OF inv block_buffer [OF b]] sz by simp
  let ?fm = "free_map a"
  let ?bb = "block_before off ?fm"
  have delnone: "mdel k m = m" if "mget m k = None" for k and m :: "(nat, nat) omap"
    using that by (force simp: mget_None mdel_def intro!: filter_True)
  have merged: "mdel (off + b_size b) m = (case mget m (off + b_size b) of None \<Rightarrow> m
      | Some _ \<Rightarrow> mdel (off + b_size b) m)" for m :: "(nat, nat) omap"
    by (auto simp: delnone split: option.splits)
  note srt = alloc_inv_msorted(1) [OF inv]
  show ?thesis
  proof (cases "\<exists>p l. ?bb = Some (p, l) \<and> p + l = off")
    case True
    then obtain p l where pl: "?bb = Some (p, l)" "p + l = off" by blast
    with block_before_Some [OF srt pl(1)] have fm: "mget ?fm p = Some l" by simp
    have l0: "0 < l" using alloc_inv_free(2) [OF inv fm] pos by simp
    have ne: "off + b_size b \<noteq> p" using pl(2) sz by simp
    show ?thesis
      by (rule that [OF b pl(2) disjI2 [OF fm] refl])
        (use fr b pl l0 ne in \<open>auto simp: free_buf_def Let_def delnone split: option.splits if_splits\<close>)
  next
    case False
    have noprev: "\<forall>p l. mget ?fm p = Some l \<longrightarrow> p + l \<noteq> off"
    proof (intro allI impI notI)
      fix p l assume p: "mget ?fm p = Some l" and e: "p + l = off"
      have "0 < l" using alloc_inv_free(2) [OF inv p] pos by simp
      with e have lt: "p < off" by simp
      show False
      proof (cases ?bb)
        case None
        with block_before_None [OF None p] lt show False by simp
      next
        case (Some q)
        obtain q0 ql where q: "q = (q0, ql)" by (cases q)
        from block_before_Some [OF srt Some [unfolded q]] p lt
        have qm: "mget ?fm q0 = Some ql" "p \<le> q0" "q0 < off" by auto
        show False
        proof (cases "p = q0")
          case True
          with qm p e False Some q show False by auto
        next
          case False
          with qm have "p + l \<le> q0"
            by (intro alloc_inv_disjoint [OF inv block_free [OF p] block_free [OF qm(1)]]) simp
          with qm e show False by simp
        qed
      qed
    qed
    have bb: "(case ?bb of None \<Rightarrow> (off, b_size b, ?fm)
        | Some (prev, prev_len) \<Rightarrow> if prev + prev_len = off
            then (prev, b_size b + prev_len, mdel prev ?fm) else (off, b_size b, ?fm)) = (off, b_size b, ?fm)"
      using False by (auto split: option.splits)
    show ?thesis
      by (rule that [OF b, of off 0, OF _ _ refl])
        (use fr b bb noprev in \<open>auto simp: free_buf_def Let_def delnone split: option.splits if_splits\<close>)
  qed
qed

lemma free_buf_alloc_inv_Some:
  assumes inv: "alloc_inv a" and fr: "free_buf off a = (Some b, a')"
  shows "alloc_inv a'"
proof -
  obtain start pl nl where
    b: "mget (buffers a) off = Some b" and st: "start + pl = off"
    and prev: "(pl = 0 \<and> (\<forall>p l. mget (free_map a) p = Some l \<longrightarrow> p + l \<noteq> off)) \<or>
      mget (free_map a) start = Some pl"
    and nl: "nl = (case mget (free_map a) (off + b_size b) of None \<Rightarrow> 0 | Some l \<Rightarrow> l)"
    and fm': "free_map a' = mput start (b_size b + pl + nl)
       (mdel (off + b_size b) (if pl = 0 then free_map a else mdel start (free_map a)))"
    and bm': "buffers a' = mdel off (buffers a)" and size': "a_size a' = a_size a"
    and async': "free_async_space a' = free_async_space a + (if b_is_async b then b_size b else 0)"
    using free_buf_Some [OF inv fr] by metis
  let ?fin = "off + b_size b" and ?len = "b_size b + pl + nl"
  note disj = alloc_inv_disjoint [OF inv] and bound = alloc_inv_bound [OF inv]
    and fblk = block_free [of a]
  have sz: "8 \<le> b_size b" "8 dvd off" "8 dvd b_size b" using alloc_inv_buffer [OF inv b] by simp_all
  have blk: "block a off (b_size b)" using b by (rule block_buffer)
  have pos: "0 < a_size a" using bound [OF blk] sz by simp
  have nofree: "mget (free_map a) off = None"
    using alloc_inv_free(1) [OF inv, of off] b by (cases "mget (free_map a) off") auto
  have pl0: "pl = 0 \<longleftrightarrow> mget (free_map a) start = None"
    using prev nofree st alloc_inv_free(2) [OF inv, of start] pos
    by (cases "mget (free_map a) start") auto
  have pblk: "block a start pl" if "pl \<noteq> 0" using prev that fblk by auto
  have nblk: "block a ?fin nl" if "mget (free_map a) ?fin \<noteq> None" using nl that fblk by auto
  have F: "mget (free_map a') x = (if x = start then Some ?len else if x = ?fin then None
      else mget (free_map a) x)" for x
    using sz st by (auto simp: fm')
  have B: "mget (buffers a') x = (if x = off then None else mget (buffers a) x)" for x
    by (auto simp: bm')
  have start_nobuf: "mget (buffers a') start = None"
    using prev st alloc_inv_free(1) [OF inv, of start pl] by (auto simp: B)
  have blk': "block a' o' l' \<longleftrightarrow> (o' = start \<and> l' = ?len) \<or>
      (o' \<noteq> start \<and> o' \<noteq> off \<and> block a o' l' \<and> (o' = ?fin \<longrightarrow> mget (free_map a) ?fin = None))"
    for o' l'
  proof -
    have "mget (buffers a) ?fin = None \<or> mget (free_map a) ?fin = None"
      using alloc_inv_free(1) [OF inv, of ?fin] by (cases "mget (free_map a) ?fin") auto
    then show ?thesis
      using start_nobuf nofree by (auto simp: block_def F B split: if_splits)
  qed
  have other: "o' + l' \<le> start \<or> start + ?len \<le> o'"
    if old: "block a o' l'" "o' \<noteq> start" "o' \<noteq> off" "o' = ?fin \<longrightarrow> mget (free_map a) ?fin = None"
    for o' l'
  proof (cases "o' < off")
    case True
    then have "o' + l' \<le> off" using disj [OF old(1) blk] by simp
    show ?thesis
    proof (cases "pl = 0")
      case True
      with st \<open>o' + l' \<le> off\<close> show ?thesis by simp
    next
      case False
      note p = pblk [OF False]
      show ?thesis
        using disj [OF old(1) p] disj [OF p old(1)] old(2) st True by (cases "o' < start") auto
    qed
  next
    case False
    then have "?fin \<le> o'" using disj [OF blk old(1)] old(3) by simp
    show ?thesis
    proof (cases "mget (free_map a) ?fin")
      case None
      with \<open>?fin \<le> o'\<close> nl st show ?thesis by simp
    next
      case (Some l)
      with old(4) \<open>?fin \<le> o'\<close> have "?fin < o'" by auto
      then have "?fin + nl \<le> o'" using nblk Some disj [OF _ old(1)] by simp
      with st show ?thesis by simp
    qed
  qed
  have end_bound: "start + ?len \<le> a_size a"
    using bound [OF blk] bound [OF nblk] st nl by (cases "mget (free_map a) ?fin") auto
  show ?thesis
    unfolding alloc_inv_def free_ok_def buffers_ok_def bounded_def disjoint_blocks_def covered_def
  proof (intro conjI allI impI)
    show "msorted (free_map a')" "msorted (buffers a')"
      using alloc_inv_msorted [OF inv] by (auto simp: fm' bm')
    show "a_size a' \<le> MAX_MAPPING" using alloc_inv_size [OF inv] size' by simp
  next
    fix o' l' assume get: "mget (free_map a') o' = Some l'"
    show "mget (buffers a') o' = None"
      using get start_nobuf alloc_inv_free(1) [OF inv, of o' l'] by (auto simp: F B split: if_splits)
    show "0 < l' \<or> a_size a' = 0"
      using get sz alloc_inv_free(2) [OF inv, of o' l'] by (auto simp: F size' split: if_splits)
    show "8 dvd o'"
      using get prev st sz alloc_inv_free(3) [OF inv, of start pl] alloc_inv_free(3) [OF inv, of o' l']
      by (auto simp: F split: if_splits)
    show "mget (free_map a') (o' + l') = None \<or> a_size a' = 0"
    proof (cases "o' = start")
      case True
      with get have l': "l' = ?len" by (simp add: F)
      show ?thesis
      proof (cases "mget (free_map a) ?fin")
        case None
        with True l' nl st have "o' + l' = ?fin" by simp
        then show ?thesis using st sz by (simp add: F)
      next
        case (Some l)
        have e: "o' + l' = ?fin + nl" using True l' st by simp
        have "mget (free_map a) (?fin + nl) = None"
          using alloc_inv_free(4) [OF inv, of ?fin nl] Some nl pos by simp
        then show ?thesis unfolding e using st sz by (simp add: F)
      qed
    next
      case False
      with get have old: "mget (free_map a) o' = Some l'" "o' \<noteq> ?fin" by (auto simp: F split: if_splits)
      have none: "mget (free_map a) (o' + l') = None" using alloc_inv_free(4) [OF inv old(1)] pos by simp
      have "o' + l' \<noteq> start"
      proof
        assume e: "o' + l' = start"
        with none have "mget (free_map a) start = None" by simp
        with pl0 st have "start = off" by simp
        with prev nofree old(1) e show False by auto
      qed
      with none show ?thesis by (simp add: F)
    qed
  next
    fix o' b' assume get: "mget (buffers a') o' = Some b'"
    show "8 \<le> b_size b'" "8 dvd b_size b'" "8 dvd o'"
      using get alloc_inv_buffer [OF inv, of o' b'] by (auto simp: B split: if_splits)
  next
    fix o' l' assume "block a' o' l'"
    then show "o' + l' \<le> a_size a'"
      using end_bound bound [of o' l'] by (auto simp: blk' size')
  next
    fix o1 l1 o2 l2 assume "block a' o1 l1" "block a' o2 l2" "o1 < o2"
    then show "o1 + l1 \<le> o2"
      using other [of o1 l1] other [of o2 l2] disj [of o1 l1 o2 l2] sz by (auto simp: blk')
  next
    fix x assume "x < a_size a'"
    then obtain o' l' where old: "block a o' l'" "o' \<le> x" "x < o' + l'"
      using alloc_inv_cover [OF inv, of x] by (auto simp: size')
    have new: "block a' start ?len" by (simp add: blk')
    show "\<exists>o' l'. block a' o' l' \<and> o' \<le> x \<and> x < o' + l'"
    proof (cases "block a' o' l'")
      case True
      with old show ?thesis by blast
    next
      case False
      have "start \<le> o' \<and> o' + l' \<le> start + ?len"
      proof -
        consider "o' = start" "pl \<noteq> 0" | "o' = off" | "o' = ?fin" "mget (free_map a) ?fin \<noteq> None"
          using False old(1) st unfolding blk' by (cases "pl = 0") auto
        then show ?thesis
        proof cases
          case 1
          with prev old(1) alloc_inv_free(1) [OF inv] have "l' = pl" by (auto simp: block_def)
          with 1 st show ?thesis by simp
        next
          case 2
          with old(1) b nofree have "l' = b_size b" by (auto simp: block_def)
          with 2 st show ?thesis by simp
        next
          case 3
          with nl old(1) alloc_inv_free(1) [OF inv, of ?fin] have "l' = nl" by (auto simp: block_def)
          with 3 st show ?thesis by simp
        qed
      qed
      with old new have "block a' start ?len \<and> start \<le> x \<and> x < start + ?len" by simp
      then show ?thesis by blast
    qed
  next
    let ?f = "\<lambda>(_, b). if b_is_async b then b_size b else 0"
    have "?f (off, b) + async_used a' = async_used a"
      unfolding async_used_def bm'
      by (rule sum_list_mdel [OF msorted_distinct [OF alloc_inv_msorted(2) [OF inv]] b])
    then show "free_async_space a' + async_used a' = a_size a' div 2"
      using alloc_inv_async [OF inv] async' size' by auto
  next
    note dist = msorted_distinct [OF alloc_inv_msorted(1) [OF inv]]
    let ?m1 = "if pl = 0 then free_map a else mdel start (free_map a)"
    have m1: "pl + sum_list (map snd ?m1) = free_bytes a"
      using sum_list_mdel [OF dist, of start pl snd] prev pl0 by (auto simp: free_bytes_def)
    have d1: "distinct (mkeys ?m1)" using dist by (auto simp: mkeys_mdel)
    have g1: "mget ?m1 ?fin = mget (free_map a) ?fin" using st sz by auto
    have m2: "nl + sum_list (map snd (mdel ?fin ?m1)) = sum_list (map snd ?m1)"
    proof (cases "mget (free_map a) ?fin")
      case None
      with g1 nl show ?thesis by (simp add: sum_list_mdel_absent)
    next
      case (Some l)
      with g1 nl have "mget ?m1 ?fin = Some nl" by simp
      from sum_list_mdel [OF d1 this, of snd] show ?thesis by simp
    qed
    have "mget (mdel ?fin ?m1) start = None" using pl0 by auto
    then have "free_bytes a' = ?len + sum_list (map snd (mdel ?fin ?m1))"
      by (simp add: free_bytes_def fm' sum_list_mput_new)
    moreover have "b_size b + used_bytes a' = used_bytes a"
      using sum_list_mdel [OF msorted_distinct [OF alloc_inv_msorted(2) [OF inv]] b, of "\<lambda>(_, b). b_size b"]
      by (simp add: used_bytes_def bm')
    ultimately show "free_bytes a' + used_bytes a' = a_size a'"
      using m1 m2 alloc_inv_bytes [OF inv] size' by simp
  qed
qed

lemma free_buf_None: "fst (free_buf off a) = None \<longleftrightarrow> mget (buffers a) off = None"
  by (auto simp: free_buf_def Let_def case_prod_beta split: option.splits)

lemma free_buf_absent: "mget (buffers a) off = None \<Longrightarrow> free_buf off a = (None, a)"
  by (simp add: free_buf_def)

lemma free_buf_fst: "fst (free_buf off a) = mget (buffers a) off"
  by (auto simp: free_buf_def Let_def case_prod_beta split: option.splits)

lemma free_buf_alloc_inv:
  assumes "alloc_inv a"
  shows "alloc_inv (snd (free_buf off a))"
proof (cases "free_buf off a")
  case (Pair r a')
  show ?thesis
  proof (cases r)
    case None
    with Pair have "mget (buffers a) off = None" using free_buf_None [of off a] by simp
    with assms show ?thesis by (simp add: free_buf_absent)
  next
    case (Some b)
    with Pair free_buf_alloc_inv_Some [OF assms, of off b a'] show ?thesis by simp
  qed
qed

lemma alloc_inv_mmod:
  assumes inv: "alloc_inv a"
    and f: "\<And>b. b_size (f b) = b_size b" "\<And>b. b_is_async (f b) = b_is_async b"
  shows "alloc_inv (a\<lparr>buffers := mmod off f (buffers a)\<rparr>)"
proof -
  let ?a = "a\<lparr>buffers := mmod off f (buffers a)\<rparr>"
  have blk: "block ?a = block a"
    by (intro ext) (auto simp: block_def f)
  have sum: "sum_list (map g (mmod off f (buffers a))) = sum_list (map g (buffers a))"
    if "\<And>k b. g (k, f b) = g (k, b)" for g :: "nat \<times> buffer \<Rightarrow> nat"
    using sum_list_mput_same [OF alloc_inv_msorted(2) [OF inv], of off _ g] that
    by (auto simp: mmod_def split: option.splits)
  have sums: "async_used ?a = async_used a" "used_bytes ?a = used_bytes a" "free_bytes ?a = free_bytes a"
    by (simp_all add: async_used_def used_bytes_def free_bytes_def sum f)
  have "free_ok ?a" using inv by (auto simp: alloc_inv_def free_ok_def)
  moreover have "buffers_ok ?a" using inv by (auto simp: alloc_inv_def buffers_ok_def f)
  ultimately show ?thesis
    using inv by (simp add: alloc_inv_def bounded_def disjoint_blocks_def covered_def blk sums)
qed

section \<open>The allocator as a buffer space\<close>

text \<open>
  What the driver relies on of its receive buffers: a request either fails and changes nothing or
  yields a fresh offset, live buffers lie inside the mapping and never overlap, and only giving a
  buffer back removes it.
\<close>

datatype 'r space_op = Grab 'r | Give nat

fun space_run ::
  "('r \<Rightarrow> 'a \<Rightarrow> nat option \<times> 'a) \<Rightarrow> (nat \<Rightarrow> 'a \<Rightarrow> 'a) \<Rightarrow> 'r space_op list \<Rightarrow> 'a \<Rightarrow> 'a" where
  "space_run grab give [] a = a"
| "space_run grab give (Grab r # ops) a = space_run grab give ops (snd (grab r a))"
| "space_run grab give (Give off # ops) a = space_run grab give ops (give off a)"

locale buffer_space =
  fixes inv :: "'a \<Rightarrow> bool"
    and grab :: "'r \<Rightarrow> 'a \<Rightarrow> nat option \<times> 'a"
    and give :: "nat \<Rightarrow> 'a \<Rightarrow> 'a"
    and live :: "'a \<Rightarrow> nat \<Rightarrow> nat option"
    and extent :: "'a \<Rightarrow> nat"
  assumes inv_grab: "inv a \<Longrightarrow> inv (snd (grab r a))"
    and inv_give: "inv a \<Longrightarrow> inv (give off a)"
    and grab_fail: "grab r a = (None, a') \<Longrightarrow> a' = a"
    and grab_live: "inv a \<Longrightarrow> grab r a = (Some off, a') \<Longrightarrow>
      live a off = None \<and> (\<exists>n>0. live a' = (live a)(off \<mapsto> n))"
    and give_live: "live (give off a) = (live a)(off := None)"
    and extent_grab: "extent (snd (grab r a)) = extent a"
    and extent_give: "extent (give off a) = extent a"
    and live_bound: "inv a \<Longrightarrow> live a off = Some n \<Longrightarrow> off + n \<le> extent a"
    and live_disjoint: "inv a \<Longrightarrow> live a off = Some n \<Longrightarrow> live a off' = Some n' \<Longrightarrow>
      off < off' \<Longrightarrow> off + n \<le> off'"
begin

lemma run_inv: "inv a \<Longrightarrow> inv (space_run grab give ops a)"
proof (induction ops arbitrary: a)
  case (Cons x ops)
  then show ?case by (cases x) (auto simp: inv_grab inv_give)
qed simp

lemma run_extent: "extent (space_run grab give ops a) = extent a"
proof (induction ops arbitrary: a)
  case (Cons x ops)
  then show ?case by (cases x) (auto simp: extent_grab extent_give)
qed simp

lemma grab_keeps: "inv a \<Longrightarrow> live a off = Some n \<Longrightarrow> live (snd (grab r a)) off = Some n"
  using grab_live [of a r] grab_fail [of r a] by (cases "grab r a"; cases "fst (grab r a)") auto

lemma run_keeps:
  "inv a \<Longrightarrow> live a off = Some n \<Longrightarrow> Give off \<notin> set ops \<Longrightarrow>
     live (space_run grab give ops a) off = Some n"
proof (induction ops arbitrary: a)
  case (Cons x ops)
  then show ?case by (cases x) (auto simp: inv_grab inv_give grab_keeps give_live)
qed simp

lemma run_live:
  assumes "inv a" "live (space_run grab give ops a) off = Some n"
  shows "off + n \<le> extent a \<and>
    (\<forall>off' n'. live (space_run grab give ops a) off' = Some n' \<longrightarrow> off' \<noteq> off \<longrightarrow>
       off + n \<le> off' \<or> off' + n' \<le> off)"
  using live_bound [OF run_inv [OF assms(1)] assms(2)] run_extent
    live_disjoint [OF run_inv [OF assms(1)]] assms(2) by (metis linorder_neqE_nat)

end

type_synonym alloc_request = "u64 \<times> u64 \<times> u64 \<times> bool \<times> i32"

fun alloc_grab :: "alloc_request \<Rightarrow> allocator \<Rightarrow> nat option \<times> allocator" where
  "alloc_grab (data, offs, extra, is_async, pid) a =
     (case allocate data offs extra is_async pid a of
        (Inl _, a') \<Rightarrow> (None, a') | (Inr al, a') \<Rightarrow> (Some (al_offset al), a'))"

definition alloc_give :: "nat \<Rightarrow> allocator \<Rightarrow> allocator" where
  "alloc_give off a = snd (free_buf off a)"

definition live_size :: "allocator \<Rightarrow> nat \<Rightarrow> nat option" where
  "live_size a off = map_option b_size (mget (buffers a) off)"

lemma alloc_grab_cases:
  assumes "alloc_grab r a = (res, a')"
  obtains (fail) "res = None" "a' = a"
  | (ok) data offs extra is_async pid al where "r = (data, offs, extra, is_async, pid)"
      "res = Some (al_offset al)" "allocate data offs extra is_async pid a = (Inr al, a')"
proof -
  obtain data offs extra is_async pid where r: "r = (data, offs, extra, is_async, pid)"
    by (cases r) auto
  obtain x a'' where al: "allocate data offs extra is_async pid a = (x, a'')" by fastforce
  show ?thesis
  proof (cases x)
    case (Inl e)
    with al have "a'' = a" using allocate_error by blast
    with assms r al Inl show ?thesis by (intro fail) auto
  next
    case (Inr b)
    with assms r al show ?thesis by (intro ok [OF r]) auto
  qed
qed

lemma free_buf_frame:
  "a_size (snd (free_buf off a)) = a_size a" "vm_start (snd (free_buf off a)) = vm_start a"
  "buffers (snd (free_buf off a)) = mdel off (buffers a)"
proof -
  have absent: "mdel off (buffers a) = buffers a" if "mget (buffers a) off = None"
    using that by (auto simp: mdel_def mget_None filter_id_conv)
  show "a_size (snd (free_buf off a)) = a_size a" "vm_start (snd (free_buf off a)) = vm_start a"
    "buffers (snd (free_buf off a)) = mdel off (buffers a)"
    by (auto simp: free_buf_def Let_def case_prod_beta absent split: option.splits)
qed

lemma allocate_live:
  assumes inv: "alloc_inv a" and al: "allocate data offs extra is_async pid a = (Inr al, a')"
  shows "mget (buffers a) (al_offset al) = None"
    "\<exists>n>0. live_size a' = (live_size a)(al_offset al \<mapsto> n)"
proof -
  obtain tot sz len where tot: "alloc_total data offs extra = Some tot" and sz: "sz = max (unat tot) 8"
    and fit: "best_fit sz (free_map a) = Some (al_offset al, len)"
    and async: "is_async \<longrightarrow> sz \<le> free_async_space a"
    and fm: "free_map a' = (if len > sz then mput (al_offset al + sz) (len - sz)
       (mdel (al_offset al) (free_map a)) else mdel (al_offset al) (free_map a))"
    and bm: "buffers a' = mput (al_offset al) (new_buffer sz data offs is_async pid) (buffers a)"
    and size: "a_size a' = a_size a" "vm_start a' = vm_start a"
    and fa: "free_async_space a' = (if is_async then free_async_space a - sz else free_async_space a)"
    by (rule allocate_Inr [OF al])
  from best_fit_mget [OF inv fit] have "mget (free_map a) (al_offset al) = Some len" by simp
  then show "mget (buffers a) (al_offset al) = None" by (rule alloc_inv_free(1) [OF inv])
  have "live_size a' = (live_size a)(al_offset al \<mapsto> sz)"
    by (intro ext) (auto simp: live_size_def bm new_buffer_def)
  moreover have "0 < sz" using sz by simp
  ultimately show "\<exists>n>0. live_size a' = (live_size a)(al_offset al \<mapsto> n)" by blast
qed

lemma alloc_grab_inv:
  assumes "alloc_inv a"
  shows "alloc_inv (snd (alloc_grab r a))"
proof -
  obtain res a' where gr: "alloc_grab r a = (res, a')" by fastforce
  from gr show ?thesis
  proof (cases rule: alloc_grab_cases)
    case fail
    with gr assms show ?thesis by simp
  next
    case ok
    with gr allocate_alloc_inv [OF assms] show ?thesis by simp
  qed
qed

lemma alloc_grab_extent: "a_size (snd (alloc_grab r a)) = a_size a"
proof -
  obtain res a' where gr: "alloc_grab r a = (res, a')" by fastforce
  from gr show ?thesis
  proof (cases rule: alloc_grab_cases)
    case fail
    with gr show ?thesis by simp
  next
    case ok
    from ok(3) gr show ?thesis by (elim allocate_Inr) simp
  qed
qed

interpretation alloc_space: buffer_space alloc_inv alloc_grab alloc_give live_size a_size
proof
  fix a r off a' assume "alloc_inv a" "alloc_grab r a = (Some off, a')"
  then show "live_size a off = None \<and> (\<exists>n>0. live_size a' = (live_size a)(off \<mapsto> n))"
    using allocate_live [OF \<open>alloc_inv a\<close>]
    by (cases rule: alloc_grab_cases [OF \<open>alloc_grab r a = _\<close>]) (auto simp: live_size_def)
next
  fix a r a' assume "alloc_grab r a = (None, a')"
  then show "a' = a" by (cases rule: alloc_grab_cases) auto
next
  fix off a
  show "live_size (alloc_give off a) = (live_size a)(off := None)"
    by (intro ext) (auto simp: live_size_def alloc_give_def free_buf_frame)
next
  fix a off n assume "alloc_inv a" "live_size a off = Some n"
  then show "off + n \<le> a_size a"
    using alloc_inv_bound [of a off n] block_buffer [of a off] by (auto simp: live_size_def)
next
  fix a off n off' n'
  assume "alloc_inv a" "live_size a off = Some n" "live_size a off' = Some n'" "off < off'"
  then show "off + n \<le> off'"
    using alloc_inv_disjoint [of a off n off' n'] block_buffer [of a off] block_buffer [of a off']
    by (auto simp: live_size_def)
qed (auto simp: alloc_grab_inv alloc_grab_extent alloc_give_def free_buf_alloc_inv free_buf_frame)

section \<open>Properties of the allocator\<close>

text \<open>The equations that evaluate the allocator on concrete requests.\<close>

lemmas alloc_eval = allocate_def new_allocator_def MAX_MAPPING_def alloc_total_def align8_def
  u64_add_def new_buffer_def low_async_space_def async_count_def live_size_def mget_def mdel_def
  Let_def

text \<open>Property C8. From a freshly mapped receive buffer, after any sequence of allocations and
  frees, every live buffer lies inside the mapping, no two live buffers overlap, every byte of
  the mapping is accounted for as free or used, and a buffer that is not given back keeps its place
  and size whatever is allocated or freed around it.\<close>

theorem live_buffers_disjoint:
  assumes a: "a = space_run alloc_grab alloc_give ops (new_allocator start len)"
    and live: "live_size a off = Some n"
  shows "off + n \<le> min len MAX_MAPPING \<and>
    (\<forall>off' n'. live_size a off' = Some n' \<longrightarrow> off' \<noteq> off \<longrightarrow> off + n \<le> off' \<or> off' + n' \<le> off) \<and>
    free_bytes a + used_bytes a = min len MAX_MAPPING \<and>
    (\<forall>ops'. Give off \<notin> set ops' \<longrightarrow>
       live_size (space_run alloc_grab alloc_give ops' a) off = Some n)"
proof -
  have inv: "alloc_inv a"
    unfolding a by (rule alloc_space.run_inv [OF new_allocator_inv])
  have size: "a_size a = min len MAX_MAPPING"
    unfolding a alloc_space.run_extent by (simp add: new_allocator_def Let_def)
  show ?thesis
    using alloc_space.run_live [OF inv, of "[]" off n] live alloc_inv_bytes [OF inv] size
      alloc_space.run_keeps [OF inv live] by auto
qed

theorem live_buffers_disjoint_witness:
  "live_size (space_run alloc_grab alloc_give [Grab (16, 0, 0, False, 1), Grab (8, 0, 0, True, 1)]
      (new_allocator 4096 1024)) 16 = Some 8 \<and> 16 + 8 \<le> min 1024 MAX_MAPPING"
proof -
  have live: "live_size (space_run alloc_grab alloc_give
      [Grab (16, 0, 0, False, 1), Grab (8, 0, 0, True, 1)] (new_allocator 4096 1024)) 16 = Some 8"
    by (simp add: alloc_eval)
  with live_buffers_disjoint [OF refl live] show ?thesis by simp
qed


text \<open>Property C35. A successful allocation takes the first of the smallest free blocks that are large
  enough; the buffer starts at a multiple of eight, has room for the data, the offsets and the
  extra area each rounded up to eight bytes, and is charged against the one-way budget.\<close>

theorem allocate_best_fit:
  assumes "alloc_inv a" "allocate data offs extra is_async pid a = (Inr al, a')"
  shows "\<exists>b len. mget (buffers a') (al_offset al) = Some b \<and> 8 dvd al_offset al \<and>
    (unat data + 7) div 8 * 8 + (unat offs + 7) div 8 * 8 + (unat extra + 7) div 8 * 8 \<le> b_size b \<and>
    mget (free_map a) (al_offset al) = Some len \<and> b_size b \<le> len \<and>
    (\<forall>off' len'. mget (free_map a) off' = Some len' \<longrightarrow> b_size b \<le> len' \<longrightarrow>
       len < len' \<or> len = len' \<and> al_offset al \<le> off') \<and>
    free_async_space a' = free_async_space a - (if is_async then b_size b else 0)"
proof -
  obtain tot sz len where tot: "alloc_total data offs extra = Some tot" and sz: "sz = max (unat tot) 8"
    and fit: "best_fit sz (free_map a) = Some (al_offset al, len)"
    and async: "is_async \<longrightarrow> sz \<le> free_async_space a"
    and fm: "free_map a' = (if len > sz then mput (al_offset al + sz) (len - sz)
       (mdel (al_offset al) (free_map a)) else mdel (al_offset al) (free_map a))"
    and bm: "buffers a' = mput (al_offset al) (new_buffer sz data offs is_async pid) (buffers a)"
    and size: "a_size a' = a_size a" "vm_start a' = vm_start a"
    and fa: "free_async_space a' = (if is_async then free_async_space a - sz else free_async_space a)"
    by (rule allocate_Inr [OF assms(2)])
  have get: "mget (free_map a) (al_offset al) = Some len" "sz \<le> len"
    using best_fit_mget [OF assms(1) fit] by simp_all
  have least: "\<forall>off' len'. mget (free_map a) off' = Some len' \<longrightarrow> sz \<le> len' \<longrightarrow>
       len < len' \<or> len = len' \<and> al_offset al \<le> off'"
    using best_fit_Some [OF fit] mget_in_set [of "free_map a"] by blast
  have room:
    "(unat data + 7) div 8 * 8 + (unat offs + 7) div 8 * 8 + (unat extra + 7) div 8 * 8 \<le> sz"
    using alloc_total_Some [OF tot] sz by (simp add: max_def)
  have "mget (buffers a') (al_offset al) = Some (new_buffer sz data offs is_async pid)"
    by (simp add: bm)
  moreover have "8 dvd al_offset al" using alloc_inv_free(3) [OF assms(1) get(1)] .
  ultimately show ?thesis
    using get least room fa by (intro exI [of _ "new_buffer sz data offs is_async pid"] exI [of _ len])
      (simp add: new_buffer_def)
qed

theorem allocate_best_fit_witness:
  "\<exists>b. mget (buffers (snd (allocate 20 8 0 True 7 (new_allocator 0 4096)))) 0 = Some b \<and>
     24 + 8 \<le> b_size b"
proof -
  have al: "allocate 20 8 0 True 7 (new_allocator 0 4096) =
      (Inr \<lparr>al_offset = 0, al_oneway_spam_suspect = False\<rparr>,
       snd (allocate 20 8 0 True 7 (new_allocator 0 4096)))"
    by (simp add: alloc_eval)
  from allocate_best_fit [OF new_allocator_inv al] show ?thesis by auto
qed

lemma free_block_alone:
  assumes inv: "alloc_inv a" and get: "mget (free_map a) off = Some len" and "0 < sz" "sz \<le> len"
  shows "mget (free_map a) (off + sz) = None" "mget (free_map a) st = Some pl \<Longrightarrow> st + pl \<noteq> off"
proof -
  have pos: "0 < a_size a" using alloc_inv_bound [OF inv block_free [OF get]] assms(3,4) by simp
  show "mget (free_map a) (off + sz) = None"
  proof (cases "sz = len")
    case True
    then show ?thesis using alloc_inv_free(4) [OF inv get] pos by simp
  next
    case False
    then show ?thesis
      using alloc_inv_disjoint [OF inv block_free [OF get] block_free, of "off + sz"] assms(3,4)
      by (cases "mget (free_map a) (off + sz)") auto
  qed
  show "mget (free_map a) st = Some pl \<Longrightarrow> st + pl \<noteq> off"
    using alloc_inv_free(4) [OF inv, of st pl] pos get by auto
qed

text \<open>Property C33. Freeing a buffer right after it was allocated restores the allocator: the same
  free blocks, the same buffers and the same one-way budget.\<close>

theorem free_undoes_allocate:
  assumes inv: "alloc_inv a" and al: "allocate data offs extra is_async pid a = (Inr al, a')"
  shows "\<exists>b a''. free_buf (al_offset al) a' = (Some b, a'') \<and> free_map a'' = free_map a \<and>
    buffers a'' = buffers a \<and> free_async_space a'' = free_async_space a \<and> a_size a'' = a_size a"
proof -
  obtain tot sz len where tot: "alloc_total data offs extra = Some tot" and sz: "sz = max (unat tot) 8"
    and fit: "best_fit sz (free_map a) = Some (al_offset al, len)"
    and async: "is_async \<longrightarrow> sz \<le> free_async_space a"
    and fm: "free_map a' = (if len > sz then mput (al_offset al + sz) (len - sz)
       (mdel (al_offset al) (free_map a)) else mdel (al_offset al) (free_map a))"
    and bm: "buffers a' = mput (al_offset al) (new_buffer sz data offs is_async pid) (buffers a)"
    and size: "a_size a' = a_size a" "vm_start a' = vm_start a"
    and fa: "free_async_space a' = (if is_async then free_async_space a - sz else free_async_space a)"
    by (rule allocate_Inr [OF al])
  let ?off = "al_offset al" and ?b = "new_buffer sz data offs is_async pid"
  have get: "mget (free_map a) ?off = Some len" "sz \<le> len" using best_fit_mget [OF inv fit] by simp_all
  have "0 < sz" using sz by simp
  note alone = free_block_alone [OF inv get(1) this get(2)]
  have inv': "alloc_inv a'" using allocate_alloc_inv [OF inv al] .
  obtain a'' where fr: "free_buf ?off a' = (Some ?b, a'')"
    using free_buf_fst [of ?off a'] by (metis prod.collapse bm mget_mput)
  have inv'': "alloc_inv a''" using free_buf_alloc_inv_Some [OF inv' fr] .
  have bsz: "b_size ?b = sz" "b_is_async ?b = is_async" by (simp_all add: new_buffer_def)
  obtain st pl nl where st: "st + pl = ?off"
    and prev: "(pl = 0 \<and> (\<forall>p l. mget (free_map a') p = Some l \<longrightarrow> p + l \<noteq> ?off)) \<or>
      mget (free_map a') st = Some pl"
    and nl: "nl = (case mget (free_map a') (?off + sz) of None \<Rightarrow> 0 | Some l \<Rightarrow> l)"
    and fm'': "free_map a'' = mput st (sz + pl + nl)
       (mdel (?off + sz) (if pl = 0 then free_map a' else mdel st (free_map a')))"
    and bm'': "buffers a'' = mdel ?off (buffers a')" and size'': "a_size a'' = a_size a'"
    and fa'': "free_async_space a'' = free_async_space a' + (if is_async then sz else 0)"
    by (rule free_buf_Some [OF inv' fr, unfolded bsz])
  have F': "mget (free_map a') x = (if x = ?off then None
      else if x = ?off + sz \<and> sz < len then Some (len - sz) else mget (free_map a) x)" for x
    using sz by (auto simp: fm)
  have pl: "pl = 0" and st': "st = ?off"
    using st prev alone(2) [of st pl] sz by (auto simp: F' split: if_splits)
  have len: "sz + nl = len" using nl alone(1) get(2) sz by (auto simp: F' split: if_splits)
  have "free_map a'' = free_map a"
    by (rule msorted_eqI [OF alloc_inv_msorted(1) [OF inv''] alloc_inv_msorted(1) [OF inv]])
      (use pl st' alone(1) get(1) len sz in \<open>auto simp: fm'' F'\<close>)
  moreover have "buffers a'' = buffers a"
    by (rule msorted_eqI [OF alloc_inv_msorted(2) [OF inv''] alloc_inv_msorted(2) [OF inv]])
      (use alloc_inv_free(1) [OF inv get(1)] in \<open>auto simp: bm'' bm\<close>)
  moreover have "free_async_space a'' = free_async_space a" using fa fa'' async by auto
  ultimately show ?thesis using fr size size'' by auto
qed

theorem free_undoes_allocate_witness:
  "\<exists>b a''. free_buf 0 (snd (allocate 20 8 0 True 7 (new_allocator 0 4096))) = (Some b, a'') \<and>
     free_map a'' = [(0, 4096)]"
proof -
  have al: "allocate 20 8 0 True 7 (new_allocator 0 4096) =
      (Inr \<lparr>al_offset = 0, al_oneway_spam_suspect = False\<rparr>,
       snd (allocate 20 8 0 True 7 (new_allocator 0 4096)))"
    by (simp add: alloc_eval)
  have "free_map (new_allocator 0 4096) = [(0, 4096)]" by (simp add: alloc_eval)
  with free_undoes_allocate [OF new_allocator_inv al] show ?thesis by auto
qed








end
