(* ===== verification/Trace.thy ===== *)
theory Trace
  imports Alloc
begin

text \<open>
  Transaction tracing (\<^verbatim>\<open>src/crates/aim-binder-driver/src/trace.rs\<close>). \<open>Instant\<close> and
  \<open>Duration\<close> are natural numbers; the current time is an argument (\<open>now\<close>) of every operation that
  reads the clock, and subtraction saturates as \<open>Instant\<close>'s does. A Rust \<open>String\<close> is the list of
  its Unicode scalar values, \<open>utf8\<close> gives its bytes and \<open>utf16_lossy\<close> is
  \<open>String::from_utf16_lossy\<close>.
\<close>

section \<open>Strings\<close>

type_synonym rstring = "nat list"
type_synonym time = nat

definition rstr :: "string \<Rightarrow> rstring" where
  "rstr cs = map (\<lambda>c. of_char c) cs"

definition utf8_char :: "nat \<Rightarrow> byte list" where
  "utf8_char c =
     (if c < 128 then [of_nat c]
      else if c < 2048 then [of_nat (192 + c div 64), of_nat (128 + c mod 64)]
      else if c < 65536 then
        [of_nat (224 + c div 4096), of_nat (128 + c div 64 mod 64), of_nat (128 + c mod 64)]
      else
        [of_nat (240 + c div 262144), of_nat (128 + c div 4096 mod 64),
         of_nat (128 + c div 64 mod 64), of_nat (128 + c mod 64)])"

definition utf8 :: "rstring \<Rightarrow> byte list" where
  "utf8 s = concat (map utf8_char s)"

fun utf16_lossy :: "nat list \<Rightarrow> rstring" where
  "utf16_lossy [] = []"
| "utf16_lossy [u] = (if u < 55296 \<or> 57344 \<le> u then [u] else [65533])"
| "utf16_lossy (u # v # us) =
     (if u < 55296 \<or> 57344 \<le> u then u # utf16_lossy (v # us)
      else if u < 56320 \<and> 56320 \<le> v \<and> v < 57344
      then (65536 + (u - 55296) * 1024 + (v - 56320)) # utf16_lossy us
      else 65533 # utf16_lossy (v # us))"

section \<open>Records\<close>

record trace_record =
  tc_at :: time
  tc_transaction_id :: nat
  tc_from_parent :: "nat option"
  tc_to_parent :: "nat option"
  tc_device :: rstring
  tc_from_pid :: i32
  tc_from_euid :: u32
  tc_from_tid :: tid
  tc_to_pid :: i32
  tc_descriptor :: rstring
  tc_code :: u32
  tc_oneway :: bool
  tc_waiting :: nat
  tc_loopers :: nat
  tc_delivered :: "time option"
  tc_to_tid :: tid
  tc_latency :: "time option"
  tc_returned :: "time option"
  tc_data :: "byte list option"
  tc_reply :: "byte list option"

definition trace_record_default :: trace_record where
  "trace_record_default =
     \<lparr>tc_at = 0, tc_transaction_id = 0, tc_from_parent = None, tc_to_parent = None, tc_device = [],
      tc_from_pid = 0, tc_from_euid = 0, tc_from_tid = 0, tc_to_pid = 0, tc_descriptor = [],
      tc_code = 0, tc_oneway = False, tc_waiting = 0, tc_loopers = 0, tc_delivered = None,
      tc_to_tid = 0, tc_latency = None, tc_returned = None, tc_data = None, tc_reply = None\<rparr>"

record pending_trace_record =
  ptr_id :: nat
  ptr_returning :: bool
  ptr_age :: time
  ptr_record :: trace_record
  ptr_from_stack :: "nat option"
  ptr_to_stack :: "nat option"
  ptr_from_queued :: nat
  ptr_to_queued :: nat

record pending_trace_snapshot =
  pts_at :: time
  pts_records :: "pending_trace_record list"

record trace =
  tr_start :: "time option"
  tr_pending :: "(txn_id, time \<times> trace_record) omap"
  tr_returning :: "(txn_id, time \<times> trace_record) omap"
  tr_done :: "trace_record list"
  tr_captures :: "(rstring \<times> u32) list"

section \<open>Operations\<close>

definition trace_new :: "time \<Rightarrow> trace" where
  "trace_new now = \<lparr>tr_start = Some now, tr_pending = [], tr_returning = [], tr_done = [],
     tr_captures = []\<rparr>"

definition trace_capture :: "rstring \<Rightarrow> u32 \<Rightarrow> trace \<Rightarrow> trace" where
  "trace_capture descr code t = t\<lparr>tr_captures := tr_captures t @ [(descr, code)]\<rparr>"

definition trace_captures :: "rstring \<Rightarrow> u32 \<Rightarrow> trace \<Rightarrow> bool" where
  "trace_captures descr code t = list_ex (\<lambda>(d, c). d = descr \<and> c = code) (tr_captures t)"

definition trace_sent_at :: "time \<Rightarrow> txn_id \<Rightarrow> trace_record \<Rightarrow> trace \<Rightarrow> trace" where
  "trace_sent_at now txn r t =
     (let r = r\<lparr>tc_at := now - (case tr_start t of Some start \<Rightarrow> start | None \<Rightarrow> now),
                tc_transaction_id := txn\<rparr>
      in if tc_oneway r then t\<lparr>tr_done := tr_done t @ [r]\<rparr>
         else t\<lparr>tr_pending := mput txn (now, r) (tr_pending t)\<rparr>)"

definition trace_delivered :: "time \<Rightarrow> txn_id \<Rightarrow> tid \<Rightarrow> trace \<Rightarrow> trace" where
  "trace_delivered now txn tid t =
     t\<lparr>tr_pending := mmod txn
        (\<lambda>(sent, r). (sent, r\<lparr>tc_delivered := Some (now - sent), tc_to_tid := tid\<rparr>)) (tr_pending t)\<rparr>"

definition trace_captured :: "txn_id \<Rightarrow> trace \<Rightarrow> bool" where
  "trace_captured txn t =
     (case mget (tr_pending t) txn of None \<Rightarrow> False | Some (_, r) \<Rightarrow> tc_data r \<noteq> None)"

definition trace_reply_data :: "txn_id \<Rightarrow> byte list \<Rightarrow> trace \<Rightarrow> trace" where
  "trace_reply_data txn data t =
     t\<lparr>tr_pending := mmod txn (\<lambda>(sent, r). (sent, r\<lparr>tc_reply := Some data\<rparr>)) (tr_pending t)\<rparr>"

definition trace_replied :: "time \<Rightarrow> txn_id \<Rightarrow> txn_id \<Rightarrow> txn_id option \<Rightarrow> trace \<Rightarrow> trace" where
  "trace_replied now txn reply to_parent t =
     (case mget (tr_pending t) txn of
        None \<Rightarrow> t
      | Some (sent, r) \<Rightarrow>
          t\<lparr>tr_pending := mdel txn (tr_pending t),
            tr_returning := mput reply
              (sent, r\<lparr>tc_latency := Some (now - sent), tc_to_parent := to_parent\<rparr>) (tr_returning t)\<rparr>)"

definition trace_returned :: "time \<Rightarrow> txn_id \<Rightarrow> trace \<Rightarrow> trace" where
  "trace_returned now reply t =
     (case mget (tr_returning t) reply of
        None \<Rightarrow> t
      | Some (sent, r) \<Rightarrow>
          t\<lparr>tr_returning := mdel reply (tr_returning t),
            tr_done := tr_done t @ [r\<lparr>tc_returned := Some (now - sent)\<rparr>]\<rparr>)"

text \<open>\<open>pending.remove(&id).or(returning.remove(&id))\<close>: both removals are evaluated.\<close>

definition trace_dropped :: "txn_id \<Rightarrow> trace \<Rightarrow> trace" where
  "trace_dropped txn t =
     (let p = mget (tr_pending t) txn;
          q = mget (tr_returning t) txn;
          t = t\<lparr>tr_pending := mdel txn (tr_pending t), tr_returning := mdel txn (tr_returning t)\<rparr>
      in case (case p of Some e \<Rightarrow> Some e | None \<Rightarrow> q) of
           None \<Rightarrow> t
         | Some (_, r) \<Rightarrow> t\<lparr>tr_done := tr_done t @ [r]\<rparr>)"

definition snapshot_entry :: "time \<Rightarrow> bool \<Rightarrow> txn_id \<times> time \<times> trace_record \<Rightarrow> pending_trace_record" where
  "snapshot_entry now returning e =
     (case e of (txn, sent, r) \<Rightarrow>
        \<lparr>ptr_id = txn, ptr_returning = returning, ptr_age = now - sent, ptr_record = r,
         ptr_from_stack = None, ptr_to_stack = None, ptr_from_queued = 0, ptr_to_queued = 0\<rparr>)"

definition trace_snapshot :: "time \<Rightarrow> trace \<Rightarrow> pending_trace_snapshot" where
  "trace_snapshot now t =
     \<lparr>pts_at = (case tr_start t of None \<Rightarrow> 0 | Some start \<Rightarrow> now - start),
      pts_records = sort_key ptr_id
        (map (snapshot_entry now False) (tr_pending t) @
         map (snapshot_entry now True) (tr_returning t))\<rparr>"

definition trace_take :: "trace \<Rightarrow> trace_record list \<times> trace" where
  "trace_take t = (tr_done t, t\<lparr>tr_done := []\<rparr>)"

section \<open>Interface tokens\<close>

definition HEADERS :: "byte list list" where
  "HEADERS = [[83, 89, 83, 84], [86, 78, 68, 82], [82, 69, 67, 79]]"

fun u16_units :: "byte list \<Rightarrow> nat list" where
  "u16_units (a # b # bs) = le_val [a, b] # u16_units bs"
| "u16_units bs = []"

definition is_ascii_graphic :: "byte \<Rightarrow> bool" where
  "is_ascii_graphic b \<longleftrightarrow> 33 \<le> b \<and> b \<le> 126"

definition aidl_token :: "byte list \<Rightarrow> rstring option" where
  "aidl_token data = do {
     header \<leftarrow> slice 8 4 data;
     _ \<leftarrow> if rev header \<in> set HEADERS then Some () else None;
     len \<leftarrow> i32_at data 12;
     _ \<leftarrow> if 0 < sint len then Some () else None;
     let units = take (unat len) (u16_units (drop 16 data));
     if length units = unat len then Some (utf16_lossy units) else None }"

definition descriptor :: "byte list \<Rightarrow> rstring" where
  "descriptor data =
     (case aidl_token data of
        Some name \<Rightarrow> name
      | None \<Rightarrow>
        let name = takeWhile (\<lambda>b. b \<noteq> 0) data in
        if 64 \<in> set name \<and> list_all is_ascii_graphic name then map unat name else [])"

end
