(* ===== verification/Shadow.thy ===== *)
theory Shadow
  imports Trace
begin

text \<open>
  Shadow copies of transactions to watched nodes (\<^verbatim>\<open>src/crates/aim-binder-driver/src/shadow.rs\<close>).
  A \<open>ShadowSink\<close> is a clonable handle on a bounded channel, so the model names sinks by number and
  keeps the channels in a table of the shadow state: what is queued, the capacity, whether the
  receiver is still there, the counter of dropped copies, and the sink's \<open>identify\<close> function. A
  \<open>File\<close> is an opaque number.
\<close>

section \<open>Model\<close>

type_synonym gfile = nat
type_synonym file_id = "u64 \<times> u64"
type_synonym sink_id = nat

datatype shadow_kind = SkBinder node_id i32 | SkFile "file_id option" | SkOther

record shadow_object =
  so_offset :: nat
  so_kind :: shadow_kind

record shadow_parcel =
  sp_data :: "byte list"
  sp_objects :: "shadow_object list"

datatype shadow_reply = SrReply u32 shadow_parcel | SrOneWay | SrFailed

record shadow_copy =
  sc_seq :: nat
  sc_node :: node_id
  sc_root :: node_id
  sc_follows :: "nat option"
  sc_from_pid :: i32
  sc_from_euid :: u32
  sc_from_tid :: tid
  sc_to_pid :: i32
  sc_sent :: time
  sc_code :: u32
  sc_flags :: u32
  sc_data :: shadow_parcel
  sc_reply :: shadow_reply

record shadow_channel =
  ch_copies :: "shadow_copy list"
  ch_capacity :: nat
  ch_connected :: bool
  ch_identify :: "gfile \<Rightarrow> file_id option"
  ch_dropped :: u64

record watch =
  w_sink :: sink_id
  w_root :: node_id
  w_follows :: "nat option"

record shadow =
  sh_watched :: "(node_id, watch) omap"
  sh_pending :: "(txn_id, sink_id \<times> shadow_copy) omap"
  sh_next_seq :: nat
  sh_sinks :: "(sink_id, shadow_channel) omap"

definition shadow_default :: shadow where
  "shadow_default = \<lparr>sh_watched = [], sh_pending = [], sh_next_seq = 0, sh_sinks = []\<rparr>"

definition channel_send :: "shadow_copy \<Rightarrow> shadow_channel \<Rightarrow> shadow_channel" where
  "channel_send copy ch =
     (if \<not> ch_connected ch then ch
      else if length (ch_copies ch) < ch_capacity ch then ch\<lparr>ch_copies := ch_copies ch @ [copy]\<rparr>
      else ch\<lparr>ch_dropped := ch_dropped ch + 1\<rparr>)"

definition sink_send :: "sink_id \<Rightarrow> shadow_copy \<Rightarrow> shadow \<Rightarrow> shadow" where
  "sink_send sink copy sh = sh\<lparr>sh_sinks := mmod sink (channel_send copy) (sh_sinks sh)\<rparr>"

definition shadow_watch :: "node_id \<Rightarrow> sink_id \<Rightarrow> shadow \<Rightarrow> shadow" where
  "shadow_watch node sink sh =
     sh\<lparr>sh_watched := mput node \<lparr>w_sink = sink, w_root = node, w_follows = None\<rparr> (sh_watched sh)\<rparr>"

definition sink_identify :: "sink_id \<Rightarrow> shadow \<Rightarrow> (gfile \<Rightarrow> file_id option) option" where
  "sink_identify sink sh = map_option ch_identify (mget (sh_sinks sh) sink)"

definition shadow_identify :: "node_id option \<Rightarrow> shadow \<Rightarrow> (gfile \<Rightarrow> file_id option) option" where
  "shadow_identify node sh = do {
     node \<leftarrow> node;
     w \<leftarrow> mget (sh_watched sh) node;
     sink_identify (w_sink w) sh }"

definition shadow_identify_reply :: "txn_id \<Rightarrow> shadow \<Rightarrow> (gfile \<Rightarrow> file_id option) option" where
  "shadow_identify_reply txn sh = do {
     (sink, _) \<leftarrow> mget (sh_pending sh) txn;
     sink_identify sink sh }"

text \<open>\<open>next_seq\<close> counts the copies in a \<open>u64\<close>.\<close>

definition shadow_sent :: "txn_id \<Rightarrow> node_id \<Rightarrow> shadow_copy \<Rightarrow> bool \<Rightarrow> shadow \<Rightarrow> shadow option" where
  "shadow_sent txn node copy oneway sh =
     (case mget (sh_watched sh) node of
        None \<Rightarrow> Some sh
      | Some w \<Rightarrow> do {
          sq \<leftarrow> u64_inc (sh_next_seq sh);
          let sh = sh\<lparr>sh_next_seq := sq\<rparr>;
          let copy = copy\<lparr>sc_seq := sq, sc_node := node, sc_root := w_root w,
                          sc_follows := w_follows w\<rparr>;
          Some (if oneway then sink_send (w_sink w) (copy\<lparr>sc_reply := SrOneWay\<rparr>) sh
                else sh\<lparr>sh_pending := mput txn (w_sink w, copy) (sh_pending sh)\<rparr>) })"

fun watch_all :: "watch \<Rightarrow> node_id list \<Rightarrow> (node_id, watch) omap \<Rightarrow> (node_id, watch) omap" where
  "watch_all w [] m = m"
| "watch_all w (n # ns) m = watch_all w ns (if mget m n = None then mput n w m else m)"

definition shadow_replied :: "txn_id \<Rightarrow> u32 \<Rightarrow> shadow_parcel \<Rightarrow> node_id list \<Rightarrow> shadow \<Rightarrow> shadow" where
  "shadow_replied txn flags parcel own sh =
     (case mget (sh_pending sh) txn of
        None \<Rightarrow> sh
      | Some (sink, copy) \<Rightarrow>
        let sh = sh\<lparr>sh_pending := mdel txn (sh_pending sh),
                    sh_watched := watch_all
                      \<lparr>w_sink = sink, w_root = sc_root copy, w_follows = Some (sc_seq copy)\<rparr>
                      own (sh_watched sh)\<rparr>
        in sink_send sink (copy\<lparr>sc_reply := SrReply flags parcel\<rparr>) sh)"

definition shadow_failed :: "txn_id \<Rightarrow> shadow \<Rightarrow> shadow" where
  "shadow_failed txn sh =
     (case mget (sh_pending sh) txn of
        None \<Rightarrow> sh
      | Some (sink, copy) \<Rightarrow>
          sink_send sink (copy\<lparr>sc_reply := SrFailed\<rparr>) (sh\<lparr>sh_pending := mdel txn (sh_pending sh)\<rparr>))"

definition shadow_node_gone :: "node_id \<Rightarrow> shadow \<Rightarrow> shadow" where
  "shadow_node_gone node sh = sh\<lparr>sh_watched := mdel node (sh_watched sh)\<rparr>"

end
