(* ===== verification/BState.thy ===== *)
theory BState
  imports Shadow
begin

text \<open>
  Driver state and the reference-counting rules
  (\<^verbatim>\<open>src/crates/aim-binder-driver/src/state.rs\<close>, with \<open>Credentials\<close> of \<^verbatim>\<open>host.rs\<close>).

  The structures are records with the source's fields, prefixed by their owner (\<open>t_\<close> thread,
  \<open>p_\<close> process, \<open>n_\<close> node, \<open>r_\<close> reference, \<open>x_\<close> transaction, \<open>d_\<close> death, \<open>s_\<close> state). Ids are
  natural numbers drawn from one counter that is a \<open>u64\<close>; the \<open>u32\<close> reference counts are
  natural numbers whose increments go through \<open>u32_inc\<close>. A condition variable, a \<open>Resume\<close> closure
  and a \<open>Notifier\<close> are named by number; \<open>s_condvars\<close> counts the condition variables made so far
  and \<open>s_notified\<close> lists those notified while the lock was held. \<open>s_clock\<close> is what
  \<open>Instant::now\<close> returns. A receive mapping is its bytes.

  \<open>upd_proc\<close>, \<open>upd_thread\<close>, \<open>upd_node\<close>, \<open>upd_txn\<close> and \<open>upd_death\<close> are \<open>get_mut\<close>: they change the
  entry when it is there and nothing otherwise.
\<close>

section \<open>Hashing of ids\<close>

definition hash_write_u64 :: "u64 \<Rightarrow> u64 \<Rightarrow> u64" where
  "hash_write_u64 h v = (word_rotl 5 h XOR v) * 0x517cc1b727220a95"

definition hash_write_u32 :: "u64 \<Rightarrow> u32 \<Rightarrow> u64" where
  "hash_write_u32 h v = hash_write_u64 h (ucast v)"

definition hash_write_i32 :: "u64 \<Rightarrow> i32 \<Rightarrow> u64" where
  "hash_write_i32 h v = hash_write_u64 h (ucast v)"

primrec hash_write :: "u64 \<Rightarrow> byte list \<Rightarrow> u64" where
  "hash_write h [] = h"
| "hash_write h (b # bs) = hash_write (hash_write_u64 h (ucast b)) bs"

section \<open>Data\<close>

record credentials =
  cr_pid :: i32
  cr_euid :: u32
  cr_security_context :: "rstring option"

definition LOOPER_REGISTERED :: u32 where
  "LOOPER_REGISTERED = 0x01"

definition LOOPER_ENTERED :: u32 where
  "LOOPER_ENTERED = 0x02"

definition LOOPER_EXITED :: u32 where
  "LOOPER_EXITED = 0x04"

definition LOOPER_INVALID :: u32 where
  "LOOPER_INVALID = 0x08"

definition LOOPER_WAITING :: u32 where
  "LOOPER_WAITING = 0x10"

definition LOOPER_POLL :: u32 where
  "LOOPER_POLL = 0x20"

lemmas looper_defs [uapi_consts] = LOOPER_REGISTERED_def LOOPER_ENTERED_def LOOPER_EXITED_def
  LOOPER_INVALID_def LOOPER_WAITING_def LOOPER_POLL_def

datatype error_slot = ReturnSlot | ReplySlot

datatype work =
    WTransaction txn_id
  | WTransactionComplete
  | WOnewaySpamSuspect
  | WReturnError u32 error_slot
  | WNode node_id
  | WDeath death_id

datatype work_list = ProcList proc_id | ThreadList proc_id tid

record extended_error =
  ee_id :: u32
  ee_command :: u32
  ee_param :: i32

definition extended_error_default :: extended_error where
  "extended_error_default = \<lparr>ee_id = 0, ee_command = 0, ee_param = 0\<rparr>"

type_synonym resume = nat
type_synonym notifier = nat
type_synonym condvar = nat

record thread =
  t_looper :: u32
  t_looper_need_return :: bool
  t_todo :: "work list"
  t_process_todo :: bool
  t_stack :: "txn_id option"
  t_forwarded :: "credentials option"
  t_return_error :: "u32 option"
  t_reply_error :: "u32 option"
  t_ee :: extended_error
  t_interrupted :: bool
  t_wait :: condvar
  t_parked :: "resume option"

definition thread_new :: "condvar \<Rightarrow> thread" where
  "thread_new cv =
     \<lparr>t_looper = 0, t_looper_need_return = True, t_todo = [], t_process_todo = False,
      t_stack = None, t_forwarded = None, t_return_error = None, t_reply_error = None,
      t_ee = extended_error_default, t_interrupted = False, t_wait = cv, t_parked = None\<rparr>"

record bref =
  r_node :: node_id
  r_strong :: nat
  r_weak :: nat
  r_death :: "death_id option"

record bproc =
  p_context :: nat
  p_creds :: credentials
  p_threads :: "(tid, thread) omap"
  p_nodes :: "(u64, node_id) omap"
  p_refs :: "(u32, bref) omap"
  p_by_node :: "(node_id, u32) omap"
  p_todo :: "work list"
  p_waiting :: "tid list"
  p_delivered_death :: "death_id list"
  p_alloc :: "allocator option"
  p_receive :: "byte list option"
  p_max_threads :: nat
  p_requested :: nat
  p_started :: nat
  p_spam_detection :: bool
  p_nonblocking :: bool
  p_notifier :: "notifier option"
  p_outstanding :: nat

record node =
  n_proc :: "proc_id option"
  n_context :: nat
  n_ptr :: u64
  n_cookie :: u64
  n_internal_strong :: nat
  n_local_strong :: nat
  n_local_weak :: nat
  n_refs :: "(proc_id, unit) omap"
  n_has_strong :: bool
  n_pending_strong :: bool
  n_has_weak :: bool
  n_pending_weak :: bool
  n_accept_fds :: bool
  n_security_ctx :: bool
  n_has_async :: bool
  n_async_todo :: "txn_id list"
  n_work_queued :: "work_list option"

datatype death_state = Armed | DeadBinder | DeadBinderAndClear | Clear

datatype death_location = Queued work_list | Delivered

record death =
  d_proc :: proc_id
  d_cookie :: u64
  d_state :: death_state
  d_location :: "death_location option"

record fd_fixup =
  ff_offset :: nat
  ff_file :: gfile
  ff_in_array :: bool

record txn =
  x_from :: "(proc_id \<times> tid) option"
  x_from_parent :: "txn_id option"
  x_to_proc :: "proc_id option"
  x_to_thread :: "tid option"
  x_to_parent :: "txn_id option"
  x_code :: u32
  x_flags :: u32
  x_sender_euid :: u32
  x_sender :: credentials
  x_delegated :: bool
  x_target_node :: "node_id option"
  x_buffer :: "nat option"
  x_security_ctx :: u64
  x_fixups :: "fd_fixup list"

definition is_oneway :: "txn \<Rightarrow> bool" where
  "is_oneway x \<longleftrightarrow> x_flags x AND TF_ONE_WAY \<noteq> 0"

record bcontext =
  c_name :: rstring
  c_mgr_node :: "node_id option"
  c_mgr_uid :: "u32 option"

record bstate =
  s_contexts :: "bcontext list"
  s_procs :: "(proc_id, bproc) omap"
  s_nodes :: "(node_id, node) omap"
  s_txns :: "(txn_id, txn) omap"
  s_deaths :: "(death_id, death) omap"
  s_next_id :: nat
  s_wakes :: "condvar list"
  s_resumes :: "resume list"
  s_notifications :: "(notifier \<times> tid option) list"
  s_trace :: "trace option"
  s_shadow :: "shadow option"
  s_condvars :: nat
  s_notified :: "condvar list"
  s_clock :: time

definition state_default :: bstate where
  "state_default =
     \<lparr>s_contexts = [], s_procs = [], s_nodes = [], s_txns = [], s_deaths = [], s_next_id = 0,
      s_wakes = [], s_resumes = [], s_notifications = [], s_trace = None, s_shadow = None,
      s_condvars = 0, s_notified = [], s_clock = 0\<rparr>"

type_synonym 'a result = "errno + 'a"

section \<open>Entry updates\<close>

definition upd_proc :: "proc_id \<Rightarrow> (bproc \<Rightarrow> bproc) \<Rightarrow> bstate \<Rightarrow> bstate" where
  "upd_proc p f s = s\<lparr>s_procs := mmod p f (s_procs s)\<rparr>"

definition upd_thread :: "proc_id \<Rightarrow> tid \<Rightarrow> (thread \<Rightarrow> thread) \<Rightarrow> bstate \<Rightarrow> bstate" where
  "upd_thread p t f = upd_proc p (\<lambda>pr. pr\<lparr>p_threads := mmod t f (p_threads pr)\<rparr>)"

definition upd_node :: "node_id \<Rightarrow> (node \<Rightarrow> node) \<Rightarrow> bstate \<Rightarrow> bstate" where
  "upd_node n f s = s\<lparr>s_nodes := mmod n f (s_nodes s)\<rparr>"

definition upd_txn :: "txn_id \<Rightarrow> (txn \<Rightarrow> txn) \<Rightarrow> bstate \<Rightarrow> bstate" where
  "upd_txn x f s = s\<lparr>s_txns := mmod x f (s_txns s)\<rparr>"

definition upd_death :: "death_id \<Rightarrow> (death \<Rightarrow> death) \<Rightarrow> bstate \<Rightarrow> bstate" where
  "upd_death d f s = s\<lparr>s_deaths := mmod d f (s_deaths s)\<rparr>"

definition upd_shadow :: "(shadow \<Rightarrow> shadow) \<Rightarrow> bstate \<Rightarrow> bstate" where
  "upd_shadow f s = s\<lparr>s_shadow := map_option f (s_shadow s)\<rparr>"

definition upd_trace :: "(trace \<Rightarrow> trace) \<Rightarrow> bstate \<Rightarrow> bstate" where
  "upd_trace f s = s\<lparr>s_trace := map_option f (s_trace s)\<rparr>"

definition thread_of :: "bstate \<Rightarrow> proc_id \<Rightarrow> tid \<Rightarrow> thread option" where
  "thread_of s p t = do { pr \<leftarrow> mget (s_procs s) p; mget (p_threads pr) t }"

definition context_at :: "bstate \<Rightarrow> nat \<Rightarrow> bcontext option" where
  "context_at s c = (if c < length (s_contexts s) then Some (s_contexts s ! c) else None)"

section \<open>Wakes, ids, processes and threads\<close>

record pending_wakes =
  pw_wakes :: "condvar list"
  pw_resumes :: "resume list"
  pw_notifications :: "(notifier \<times> tid option) list"

datatype wake_effect = RunResume resume | NotifyOne condvar | CallNotifier notifier "tid option"

definition wakes_empty :: "pending_wakes \<Rightarrow> bool" where
  "wakes_empty w \<longleftrightarrow> pw_wakes w = [] \<and> pw_resumes w = [] \<and> pw_notifications w = []"

text \<open>\<open>PendingWakes::deliver\<close>, as the effects it has, in order.\<close>

definition deliver_wakes :: "pending_wakes \<Rightarrow> wake_effect list" where
  "deliver_wakes w =
     map RunResume (pw_resumes w) @ map NotifyOne (pw_wakes w) @
     map (\<lambda>(n, t). CallNotifier n t) (pw_notifications w)"

definition take_wakes :: "bstate \<Rightarrow> pending_wakes \<times> bstate" where
  "take_wakes s =
     (\<lparr>pw_wakes = s_wakes s, pw_resumes = s_resumes s, pw_notifications = s_notifications s\<rparr>,
      s\<lparr>s_wakes := [], s_resumes := [], s_notifications := []\<rparr>)"

definition next_id :: "bstate \<Rightarrow> (nat \<times> bstate) option" where
  "next_id s = do {
     i \<leftarrow> u64_inc (s_next_id s);
     Some (i, s\<lparr>s_next_id := i\<rparr>) }"

definition context_index :: "rstring \<Rightarrow> bstate \<Rightarrow> nat \<times> bstate" where
  "context_index name s =
     (case position (\<lambda>c. c_name c = name) (s_contexts s) of
        Some i \<Rightarrow> (i, s)
      | None \<Rightarrow>
          (length (s_contexts s),
           s\<lparr>s_contexts := s_contexts s @ [\<lparr>c_name = name, c_mgr_node = None, c_mgr_uid = None\<rparr>]\<rparr>))"

definition proc_new :: "nat \<Rightarrow> credentials \<Rightarrow> bproc" where
  "proc_new context creds =
     \<lparr>p_context = context, p_creds = creds, p_threads = [], p_nodes = [], p_refs = [],
      p_by_node = [], p_todo = [], p_waiting = [], p_delivered_death = [], p_alloc = None,
      p_receive = None, p_max_threads = 0, p_requested = 0, p_started = 0,
      p_spam_detection = False, p_nonblocking = False, p_notifier = None, p_outstanding = 0\<rparr>"

definition new_proc :: "nat \<Rightarrow> credentials \<Rightarrow> bstate \<Rightarrow> (proc_id \<times> bstate) option" where
  "new_proc context creds s = do {
     (i, s) \<leftarrow> next_id s;
     Some (i, s\<lparr>s_procs := mput i (proc_new context creds) (s_procs s)\<rparr>) }"

definition thread_or_create :: "proc_id \<Rightarrow> tid \<Rightarrow> bstate \<Rightarrow> unit result \<times> bstate" where
  "thread_or_create p t s =
     (case mget (s_procs s) p of
        None \<Rightarrow> (Inl EBADF, s)
      | Some pr \<Rightarrow>
          (Inr (),
           if mget (p_threads pr) t \<noteq> None then s
           else (upd_proc p (\<lambda>pr. pr\<lparr>p_threads := mput t (thread_new (s_condvars s)) (p_threads pr)\<rparr>)
                   (s\<lparr>s_condvars := s_condvars s + 1\<rparr>))))"

definition thread_exists :: "proc_id \<Rightarrow> tid \<Rightarrow> bstate \<Rightarrow> bool" where
  "thread_exists p t s \<longleftrightarrow> thread_of s p t \<noteq> None"

section \<open>Work queues\<close>

definition wake_waiter :: "proc_id \<Rightarrow> tid \<Rightarrow> bstate \<Rightarrow> bstate" where
  "wake_waiter p t s =
     (case thread_of s p t of
        None \<Rightarrow> s
      | Some th \<Rightarrow>
        (case t_parked th of
           Some r \<Rightarrow>
             let s = upd_thread p t (\<lambda>th. th\<lparr>t_parked := None\<rparr>) s;
                 s = upd_proc p (\<lambda>pr. pr\<lparr>p_waiting := filter (\<lambda>x. x \<noteq> t) (p_waiting pr)\<rparr>) s
             in s\<lparr>s_resumes := s_resumes s @ [r]\<rparr>
         | None \<Rightarrow> s\<lparr>s_wakes := s_wakes s @ [t_wait th]\<rparr>))"

definition wake_thread :: "proc_id \<Rightarrow> tid \<Rightarrow> bstate \<Rightarrow> bstate" where
  "wake_thread p t s =
     (let s = wake_waiter p t s in
      case mget (s_procs s) p of
        None \<Rightarrow> s
      | Some pr \<Rightarrow>
        (case (mget (p_threads pr) t, p_notifier pr) of
           (Some th, Some n) \<Rightarrow>
             if t_looper th AND LOOPER_POLL \<noteq> 0
             then s\<lparr>s_notifications := s_notifications s @ [(n, Some t)]\<rparr> else s
         | _ \<Rightarrow> s))"

definition enqueue_thread_work :: "proc_id \<Rightarrow> tid \<Rightarrow> work \<Rightarrow> bstate \<Rightarrow> bstate" where
  "enqueue_thread_work p t w s =
     (if thread_exists p t s
      then wake_thread p t
        (upd_thread p t (\<lambda>th. th\<lparr>t_todo := t_todo th @ [w], t_process_todo := True\<rparr>) s)
      else s)"

definition enqueue_deferred_thread_work :: "proc_id \<Rightarrow> tid \<Rightarrow> work \<Rightarrow> bstate \<Rightarrow> bstate" where
  "enqueue_deferred_thread_work p t w s =
     upd_thread p t (\<lambda>th. th\<lparr>t_todo := t_todo th @ [w]\<rparr>) s"

definition enqueue_proc_work :: "proc_id \<Rightarrow> work \<Rightarrow> bstate \<Rightarrow> bstate" where
  "enqueue_proc_work p w s = upd_proc p (\<lambda>pr. pr\<lparr>p_todo := p_todo pr @ [w]\<rparr>) s"

text \<open>\<open>State::list\<close> with the removal of \<open>remove_work\<close>: the queue a \<open>WorkList\<close> names.\<close>

definition remove_work :: "work_list \<Rightarrow> work \<Rightarrow> bstate \<Rightarrow> bstate" where
  "remove_work l w s =
     (case l of
        ProcList p \<Rightarrow> upd_proc p (\<lambda>pr. pr\<lparr>p_todo := remove_first (\<lambda>x. x = w) (p_todo pr)\<rparr>) s
      | ThreadList p t \<Rightarrow> upd_thread p t (\<lambda>th. th\<lparr>t_todo := remove_first (\<lambda>x. x = w) (t_todo th)\<rparr>) s)"

definition select_thread :: "proc_id \<Rightarrow> bstate \<Rightarrow> tid option \<times> bstate" where
  "select_thread p s =
     (case mget (s_procs s) p of
        None \<Rightarrow> (None, s)
      | Some pr \<Rightarrow>
        (case p_waiting pr of
           [] \<Rightarrow> (None, s)
         | t # ts \<Rightarrow> (Some t, upd_proc p (\<lambda>pr. pr\<lparr>p_waiting := ts\<rparr>) s)))"

definition wakeup_thread :: "proc_id \<Rightarrow> tid option \<Rightarrow> bstate \<Rightarrow> bstate" where
  "wakeup_thread p t s =
     (case t of
        Some t \<Rightarrow> wake_thread p t s
      | None \<Rightarrow>
        (case mget (s_procs s) p of
           None \<Rightarrow> s
         | Some pr \<Rightarrow>
           (case p_notifier pr of
              None \<Rightarrow> s
            | Some n \<Rightarrow> s\<lparr>s_notifications := s_notifications s @ [(n, None)]\<rparr>)))"

definition wakeup_proc :: "proc_id \<Rightarrow> bstate \<Rightarrow> bstate" where
  "wakeup_proc p s = (let (t, s) = select_thread p s in wakeup_thread p t s)"

definition dequeue_node_work :: "node_id \<Rightarrow> bstate \<Rightarrow> bstate" where
  "dequeue_node_work n s =
     (case mget (s_nodes s) n of
        None \<Rightarrow> s
      | Some nd \<Rightarrow>
        (case n_work_queued nd of
           None \<Rightarrow> s
         | Some l \<Rightarrow> remove_work l (WNode n) (upd_node n (\<lambda>nd. nd\<lparr>n_work_queued := None\<rparr>) s)))"

definition dequeue_death_work :: "death_id \<Rightarrow> bstate \<Rightarrow> bstate" where
  "dequeue_death_work d s =
     (case mget (s_deaths s) d of
        None \<Rightarrow> s
      | Some de \<Rightarrow>
        let s = upd_death d (\<lambda>de. de\<lparr>d_location := None\<rparr>) s in
        (case d_location de of
           Some (Queued l) \<Rightarrow> remove_work l (WDeath d) s
         | Some Delivered \<Rightarrow>
             upd_proc (d_proc de)
               (\<lambda>pr. pr\<lparr>p_delivered_death := filter (\<lambda>x. x \<noteq> d) (p_delivered_death pr)\<rparr>) s
         | None \<Rightarrow> s))"

definition is_looper :: "thread \<Rightarrow> bool" where
  "is_looper th \<longleftrightarrow> t_looper th AND (LOOPER_REGISTERED OR LOOPER_ENTERED) \<noteq> 0"

definition queue_death_for_thread_or_proc ::
  "death_id \<Rightarrow> proc_id \<Rightarrow> tid \<Rightarrow> bstate \<Rightarrow> bstate option" where
  "queue_death_for_thread_or_proc d p t s = do {
     de \<leftarrow> mget (s_deaths s) d;
     let on_thread = (case thread_of s p t of None \<Rightarrow> False | Some th \<Rightarrow> is_looper th);
     Some (if on_thread then
             enqueue_thread_work p t (WDeath d)
               (upd_death d (\<lambda>de. de\<lparr>d_location := Some (Queued (ThreadList p t))\<rparr>) s)
           else
             wakeup_proc p (enqueue_proc_work p (WDeath d)
               (upd_death d (\<lambda>de. de\<lparr>d_location := Some (Queued (ProcList p))\<rparr>) s))) }"

section \<open>Nodes\<close>

definition is_context_manager :: "node_id \<Rightarrow> bstate \<Rightarrow> bool option" where
  "is_context_manager n s =
     (case mget (s_nodes s) n of
        None \<Rightarrow> Some False
      | Some nd \<Rightarrow> do { c \<leftarrow> context_at s (n_context nd); Some (c_mgr_node c = Some n) })"

definition node_new :: "proc_id \<Rightarrow> nat \<Rightarrow> u64 \<Rightarrow> u64 \<Rightarrow> u32 \<Rightarrow> node" where
  "node_new p context ptr cookie flags =
     \<lparr>n_proc = Some p, n_context = context, n_ptr = ptr, n_cookie = cookie, n_internal_strong = 0,
      n_local_strong = 0, n_local_weak = 0, n_refs = [], n_has_strong = False,
      n_pending_strong = False, n_has_weak = False, n_pending_weak = False,
      n_accept_fds = (flags AND FLAT_BINDER_FLAG_ACCEPTS_FDS \<noteq> 0),
      n_security_ctx = (flags AND FLAT_BINDER_FLAG_TXN_SECURITY_CTX \<noteq> 0),
      n_has_async = False, n_async_todo = [], n_work_queued = None\<rparr>"

definition new_node :: "proc_id \<Rightarrow> u64 \<Rightarrow> u64 \<Rightarrow> u32 \<Rightarrow> bstate \<Rightarrow> (node_id \<times> bstate) option" where
  "new_node p ptr cookie flags s = do {
     pr \<leftarrow> mget (s_procs s) p;
     case mget (p_nodes pr) ptr of
       Some n \<Rightarrow> Some (n, s)
     | None \<Rightarrow> do {
         (n, s) \<leftarrow> next_id s;
         let s = s\<lparr>s_nodes := mput n (node_new p (p_context pr) ptr cookie flags) (s_nodes s)\<rparr>;
         Some (n, upd_proc p (\<lambda>pr. pr\<lparr>p_nodes := mput ptr n (p_nodes pr)\<rparr>) s) } }"

definition inc_node ::
  "node_id \<Rightarrow> bool \<Rightarrow> bool \<Rightarrow> (proc_id \<times> tid) option \<Rightarrow> bstate \<Rightarrow> (unit result \<times> bstate) option" where
  "inc_node n strong internal target s = do {
     is_mgr \<leftarrow> is_context_manager n s;
     case mget (s_nodes s) n of
       None \<Rightarrow> Some (Inl EINVAL, s)
     | Some nd \<Rightarrow>
       if strong then
         if internal \<and> target = None \<and> n_internal_strong nd = 0 \<and>
            \<not> (n_proc nd \<noteq> None \<and> is_mgr \<and> n_has_strong nd)
         then Some (Inl EINVAL, s)
         else do {
           s \<leftarrow> if internal
             then do { c \<leftarrow> u32_inc (n_internal_strong nd);
                       Some (upd_node n (\<lambda>nd. nd\<lparr>n_internal_strong := c\<rparr>) s) }
             else do { c \<leftarrow> u32_inc (n_local_strong nd);
                       Some (upd_node n (\<lambda>nd. nd\<lparr>n_local_strong := c\<rparr>) s) };
           Some (Inr (),
             case target of
               Some (p, t) \<Rightarrow>
                 if \<not> n_has_strong nd then
                   enqueue_deferred_thread_work p t (WNode n)
                     (upd_node n (\<lambda>nd. nd\<lparr>n_work_queued := Some (ThreadList p t)\<rparr>)
                       (dequeue_node_work n s))
                 else s
             | None \<Rightarrow> s) }
       else do {
         s \<leftarrow> if \<not> internal
           then do { c \<leftarrow> u32_inc (n_local_weak nd);
                     Some (upd_node n (\<lambda>nd. nd\<lparr>n_local_weak := c\<rparr>) s) }
           else Some s;
         Some (Inr (),
           case target of
             Some (p, t) \<Rightarrow>
               if \<not> n_has_weak nd \<and> n_work_queued nd = None then
                 enqueue_deferred_thread_work p t (WNode n)
                   (upd_node n (\<lambda>nd. nd\<lparr>n_work_queued := Some (ThreadList p t)\<rparr>) s)
               else s
           | None \<Rightarrow> s) } }"

definition remove_node :: "node_id \<Rightarrow> bstate \<Rightarrow> bstate" where
  "remove_node n s = upd_shadow (shadow_node_gone n) (s\<lparr>s_nodes := mdel n (s_nodes s)\<rparr>)"

text \<open>The counter updates of \<open>dec_node\<close>, and whether references of that kind remain.\<close>

definition dec_counts :: "bool \<Rightarrow> bool \<Rightarrow> node \<Rightarrow> node \<times> bool" where
  "dec_counts strong internal nd =
     (if strong then
        let nd = (if internal then nd\<lparr>n_internal_strong := n_internal_strong nd - 1\<rparr>
                  else nd\<lparr>n_local_strong := n_local_strong nd - 1\<rparr>)
        in (nd, n_local_strong nd \<noteq> 0 \<or> n_internal_strong nd \<noteq> 0)
      else
        let nd = (if internal then nd else nd\<lparr>n_local_weak := n_local_weak nd - 1\<rparr>)
        in (nd, n_local_weak nd \<noteq> 0 \<or> n_refs nd \<noteq> []))"

definition dec_node :: "node_id \<Rightarrow> bool \<Rightarrow> bool \<Rightarrow> bstate \<Rightarrow> bstate" where
  "dec_node n strong internal s =
     (case mget (s_nodes s) n of
        None \<Rightarrow> s
      | Some nd \<Rightarrow>
        let (nd, referenced) = dec_counts strong internal nd;
            s = upd_node n (\<lambda>_. nd) s
        in if referenced then s
           else if n_proc nd \<noteq> None \<and> (n_has_strong nd \<or> n_has_weak nd) then
             (case n_work_queued nd of
                Some _ \<Rightarrow> s
              | None \<Rightarrow>
                let p = the (n_proc nd) in
                wakeup_proc p (enqueue_proc_work p (WNode n)
                  (upd_node n (\<lambda>nd. nd\<lparr>n_work_queued := Some (ProcList p)\<rparr>) s)))
           else if n_refs nd = [] \<and> n_local_strong nd = 0 \<and> n_local_weak nd = 0 then
             remove_node n
               (case n_proc nd of
                  Some p \<Rightarrow> upd_proc p (\<lambda>pr. pr\<lparr>p_nodes := mdel (n_ptr nd) (p_nodes pr)\<rparr>)
                              (dequeue_node_work n s)
                | None \<Rightarrow> s)
           else s)"

section \<open>References\<close>

definition ref_of :: "bstate \<Rightarrow> proc_id \<Rightarrow> u32 \<Rightarrow> bref option" where
  "ref_of s p desc = do { pr \<leftarrow> mget (s_procs s) p; mget (p_refs pr) desc }"

definition upd_ref :: "proc_id \<Rightarrow> u32 \<Rightarrow> (bref \<Rightarrow> bref) \<Rightarrow> bstate \<Rightarrow> bstate" where
  "upd_ref p desc f = upd_proc p (\<lambda>pr. pr\<lparr>p_refs := mmod desc f (p_refs pr)\<rparr>)"

definition get_ref :: "proc_id \<Rightarrow> u32 \<Rightarrow> bool \<Rightarrow> bstate \<Rightarrow> bref option" where
  "get_ref p desc need_strong s = do {
     r \<leftarrow> ref_of s p desc;
     if \<not> need_strong \<or> r_strong r \<noteq> 0 then Some r else None }"

definition cleanup_ref :: "proc_id \<Rightarrow> u32 \<Rightarrow> bstate \<Rightarrow> bstate" where
  "cleanup_ref p desc s =
     (case ref_of s p desc of
        None \<Rightarrow> s
      | Some r \<Rightarrow>
        let s = upd_proc p (\<lambda>pr. pr\<lparr>p_refs := mdel desc (p_refs pr),
                                   p_by_node := mdel (r_node r) (p_by_node pr)\<rparr>) s;
            s = (if r_strong r \<noteq> 0 then dec_node (r_node r) True True s else s);
            s = upd_node (r_node r) (\<lambda>nd. nd\<lparr>n_refs := mdel p (n_refs nd)\<rparr>) s;
            s = dec_node (r_node r) False True s
        in case r_death r of
             None \<Rightarrow> s
           | Some d \<Rightarrow> let s = dequeue_death_work d s in s\<lparr>s_deaths := mdel d (s_deaths s)\<rparr>)"

definition inc_ref ::
  "proc_id \<Rightarrow> u32 \<Rightarrow> bool \<Rightarrow> (proc_id \<times> tid) option \<Rightarrow> bstate \<Rightarrow> (unit result \<times> bstate) option" where
  "inc_ref p desc strong target s = do {
     r \<leftarrow> ref_of s p desc;
     (res, s) \<leftarrow> (if (if strong then r_strong r else r_weak r) = 0
                  then inc_node (r_node r) strong True target s else Some (Inr (), s));
     case res of
       Inl e \<Rightarrow> Some (Inl e, s)
     | Inr _ \<Rightarrow> do {
         r \<leftarrow> ref_of s p desc;
         if strong
         then do { c \<leftarrow> u32_inc (r_strong r); Some (Inr (), upd_ref p desc (\<lambda>r. r\<lparr>r_strong := c\<rparr>) s) }
         else do { c \<leftarrow> u32_inc (r_weak r); Some (Inr (), upd_ref p desc (\<lambda>r. r\<lparr>r_weak := c\<rparr>) s) } } }"

text \<open>The search for the lowest descriptor not in use, from \<open>first\<close>, over the used descriptors in
  ascending order.\<close>

fun lowest_free :: "u32 \<Rightarrow> u32 list \<Rightarrow> u32 option" where
  "lowest_free desc [] = Some desc"
| "lowest_free desc (used # us) =
     (if used > desc then Some desc
      else if unat used + 1 < 2 ^ 32 then lowest_free (used + 1) us else None)"

definition inc_ref_or_undo ::
  "proc_id \<Rightarrow> u32 \<Rightarrow> bool \<Rightarrow> bool \<Rightarrow> (proc_id \<times> tid) option \<Rightarrow> bstate \<Rightarrow> (u32 result \<times> bstate) option" where
  "inc_ref_or_undo p desc created strong target s = do {
     (res, s) \<leftarrow> inc_ref p desc strong target s;
     Some (case res of
             Inl e \<Rightarrow> (Inl e, if created then cleanup_ref p desc s else s)
           | Inr _ \<Rightarrow> (Inr desc, s)) }"

definition inc_ref_for_node ::
  "proc_id \<Rightarrow> node_id \<Rightarrow> bool \<Rightarrow> (proc_id \<times> tid) option \<Rightarrow> bstate \<Rightarrow> (u32 result \<times> bstate) option" where
  "inc_ref_for_node p n strong target s =
     (case mget (s_procs s) p of
        None \<Rightarrow> Some (Inl ESRCH, s)
      | Some pr \<Rightarrow>
        (case mget (p_by_node pr) n of
           Some desc \<Rightarrow> inc_ref_or_undo p desc False strong target s
         | None \<Rightarrow> do {
             mgr \<leftarrow> is_context_manager n s;
             let first = (if mgr then 0 else 1);
             desc \<leftarrow> lowest_free first (filter (\<lambda>d. first \<le> d) (mkeys (p_refs pr)));
             let s = upd_proc p (\<lambda>pr. pr\<lparr>
               p_refs := mput desc \<lparr>r_node = n, r_strong = 0, r_weak = 0, r_death = None\<rparr> (p_refs pr),
               p_by_node := mput n desc (p_by_node pr)\<rparr>) s;
             if mget (s_nodes s) n = None then Some (Inl EINVAL, s)
             else inc_ref_or_undo p desc True strong target
               (upd_node n (\<lambda>nd. nd\<lparr>n_refs := mput p () (n_refs nd)\<rparr>) s) }))"

definition dec_ref :: "proc_id \<Rightarrow> u32 \<Rightarrow> bool \<Rightarrow> bstate \<Rightarrow> (unit result \<times> bstate) option" where
  "dec_ref p desc strong s =
     (case ref_of s p desc of
        None \<Rightarrow> Some (Inl EINVAL, s)
      | Some r \<Rightarrow>
        if (if strong then r_strong r else r_weak r) = 0 then Some (Inr (), s)
        else do {
          let s = (if strong
            then let s = upd_ref p desc (\<lambda>r. r\<lparr>r_strong := r_strong r - 1\<rparr>) s in
              if r_strong r - 1 = 0 then dec_node (r_node r) True True s else s
            else upd_ref p desc (\<lambda>r. r\<lparr>r_weak := r_weak r - 1\<rparr>) s);
          r \<leftarrow> ref_of s p desc;
          Some (Inr (), if r_strong r = 0 \<and> r_weak r = 0 then cleanup_ref p desc s else s) })"

definition update_ref_for_handle ::
  "proc_id \<Rightarrow> u32 \<Rightarrow> bool \<Rightarrow> bool \<Rightarrow> bstate \<Rightarrow> (unit result \<times> bstate) option" where
  "update_ref_for_handle p desc increment strong s =
     (if get_ref p desc strong s = None then Some (Inl EINVAL, s)
      else if increment then inc_ref p desc strong None s
      else dec_ref p desc strong s)"

section \<open>What the operations leave alone\<close>

text \<open>
  Contracts on a predicate \<open>I\<close> of the state. \<open>queue_closed\<close>: work queues and wakes may change without
  affecting it, as long as no process is asked to report a node it was not asked to report before.
  \<open>mark_ops\<close>: death notifications and the marks on a node may change. \<open>ref_ops\<close>: the
  reference-counting operations keep it as well. A predicate that does not look at nodes at all is
  \<open>node_closed\<close>, one that does not look at handles either \<open>ref_closed\<close>; these have all that for free. What such a predicate says is kept
  by every operation built from those steps: the invariants and the frame facts of the later
  theories are interpretations.
\<close>

definition still_thread :: "thread \<Rightarrow> thread" where
  "still_thread th = th\<lparr>t_todo := [], t_process_todo := False, t_parked := None\<rparr>"

definition still_proc :: "bproc \<Rightarrow> bproc" where
  "still_proc pr = pr\<lparr>p_todo := [], p_waiting := []\<rparr>"

definition node_works :: "work list \<Rightarrow> node_id set" where
  "node_works ws = {n. WNode n \<in> set ws}"

lemma node_works_simps [simp]:
  "node_works [] = {}" "node_works (ws @ vs) = node_works ws \<union> node_works vs"
  "node_works (WTransaction x # ws) = node_works ws" "node_works (WTransactionComplete # ws) = node_works ws"
  "node_works (WOnewaySpamSuspect # ws) = node_works ws"
  "node_works (WReturnError cmd slot # ws) = node_works ws" "node_works (WDeath d # ws) = node_works ws"
  "node_works (WNode n # ws) = insert n (node_works ws)"
  by (auto simp: node_works_def)

lemma node_works_remove_first: "node_works (remove_first f ws) \<subseteq> node_works ws"
  using set_remove_first [of f ws] by (auto simp: node_works_def)

lemma node_works_remove_last: "node_works (remove_last f ws) \<subseteq> node_works ws"
  using set_remove_first [of f "rev ws"] by (auto simp: node_works_def remove_last_def)

lemma node_works_tl: "node_works (tl ws) \<subseteq> node_works ws"
  by (cases ws) (auto simp: node_works_def)

locale queue_closed =
  fixes I :: "bstate \<Rightarrow> bool"
  assumes thread_queue:
      "I s \<Longrightarrow> (\<And>th. still_thread (f th) = still_thread th) \<Longrightarrow>
        (\<And>th. node_works (t_todo (f th)) \<subseteq> node_works (t_todo th)) \<Longrightarrow> I (upd_thread p t f s)"
    and proc_queue:
      "I s \<Longrightarrow> (\<And>pr. still_proc (h pr) = still_proc pr) \<Longrightarrow>
        (\<And>pr. node_works (p_todo (h pr)) \<subseteq> node_works (p_todo pr)) \<Longrightarrow> I (upd_proc p h s)"
    and wakes: "I s \<Longrightarrow> I (s\<lparr>s_wakes := ws\<rparr>)"
    and resumes: "I s \<Longrightarrow> I (s\<lparr>s_resumes := rs\<rparr>)"
    and notifications: "I s \<Longrightarrow> I (s\<lparr>s_notifications := ns\<rparr>)"
begin

lemma wake_waiter: "I s \<Longrightarrow> I (wake_waiter p t s)"
  by (auto simp: wake_waiter_def Let_def still_thread_def still_proc_def
      intro!: wakes resumes proc_queue thread_queue split: option.split)

lemma wake_thread: "I s \<Longrightarrow> I (wake_thread p t s)"
  by (auto simp: wake_thread_def Let_def intro!: notifications intro: wake_waiter split: option.split)

lemma enqueue_thread_work: "I s \<Longrightarrow> node_works [w] = {} \<Longrightarrow> I (enqueue_thread_work p t w s)"
  by (auto simp: enqueue_thread_work_def still_thread_def intro!: wake_thread thread_queue)

lemma enqueue_deferred: "I s \<Longrightarrow> node_works [w] = {} \<Longrightarrow> I (enqueue_deferred_thread_work p t w s)"
  by (auto simp: enqueue_deferred_thread_work_def still_thread_def intro!: thread_queue)

lemma enqueue_proc_work: "I s \<Longrightarrow> node_works [w] = {} \<Longrightarrow> I (enqueue_proc_work p w s)"
  by (auto simp: enqueue_proc_work_def still_proc_def intro!: proc_queue)

lemma remove_work: "I s \<Longrightarrow> I (remove_work l w s)"
  by (auto simp: remove_work_def still_proc_def still_thread_def
      intro!: proc_queue thread_queue dest: node_works_remove_first [THEN subsetD]
      split: work_list.split)

lemma select_thread: "I s \<Longrightarrow> I (snd (select_thread p s))"
  by (auto simp: select_thread_def still_proc_def intro!: proc_queue split: option.split list.split)

lemma wakeup_thread: "I s \<Longrightarrow> I (wakeup_thread p tt s)"
  by (auto simp: wakeup_thread_def intro!: notifications wake_thread split: option.split)

lemma wakeup_proc: "I s \<Longrightarrow> I (wakeup_proc p s)"
  by (simp add: wakeup_proc_def case_prod_beta wakeup_thread select_thread)

lemma take_wakes: "I s \<Longrightarrow> I (snd (take_wakes s))"
  using wakes [of s "[]"] resumes [of "s\<lparr>s_wakes := []\<rparr>" "[]"]
    notifications [of "s\<lparr>s_wakes := [], s_resumes := []\<rparr>" "[]"]
  by (simp add: take_wakes_def)

end

text \<open>The fields of a node that its owner and its holders are found by.\<close>

definition same_links :: "node \<Rightarrow> node \<Rightarrow> bool" where
  "same_links nd nd' \<longleftrightarrow> n_proc nd' = n_proc nd \<and> n_ptr nd' = n_ptr nd \<and> n_refs nd' = n_refs nd \<and>
     n_internal_strong nd' = n_internal_strong nd"

locale mark_ops = queue_closed +
  assumes shadow: "I s \<Longrightarrow> I (s\<lparr>s_shadow := sh\<rparr>)"
    and deaths: "I s \<Longrightarrow> I (s\<lparr>s_deaths := ds\<rparr>)"
    and delivered: "I s \<Longrightarrow> I (upd_proc p (\<lambda>pr. pr\<lparr>p_delivered_death := kd (p_delivered_death pr)\<rparr>) s)"
    and node_marks: "I s \<Longrightarrow> (\<And>nd. same_links nd (g nd)) \<Longrightarrow> I (upd_node n g s)"
begin

lemma upd_shadow: "I s \<Longrightarrow> I (upd_shadow f s)"
  by (simp add: upd_shadow_def shadow)

lemma upd_death: "I s \<Longrightarrow> I (upd_death d f s)"
  by (simp add: upd_death_def deaths)

lemma dequeue_death_work: "I s \<Longrightarrow> I (dequeue_death_work d s)"
  by (auto simp: dequeue_death_work_def Let_def intro!: upd_death remove_work delivered
      split: option.split death_location.split)

lemma queue_death:
  "queue_death_for_thread_or_proc d p t s = Some s' \<Longrightarrow> I s \<Longrightarrow> I s'"
  by (auto simp: queue_death_for_thread_or_proc_def Let_def upd_death enqueue_thread_work
      wakeup_proc enqueue_proc_work elim!: bind_Some_elim split: option.splits if_splits)

end

locale ref_ops = mark_ops +
  assumes ref_death: "I s \<Longrightarrow> I (upd_ref p desc (\<lambda>r. r\<lparr>r_death := dd\<rparr>) s)"
    and dec_node: "I s \<Longrightarrow> I (dec_node n strong False s)"
    and inc_node: "inc_node n strong False None s = Some (ru, s') \<Longrightarrow> I s \<Longrightarrow> I s'"
    and inc_ref_for_node:
      "inc_ref_for_node p n strong None s = Some (rd, s') \<Longrightarrow> mget (s_nodes s) n \<noteq> None \<Longrightarrow> I s \<Longrightarrow> I s'"
    and inc_ref: "inc_ref p desc strong None s = Some (ru, s') \<Longrightarrow> I s \<Longrightarrow> I s'"
    and dec_ref: "dec_ref p desc strong s = Some (ru, s') \<Longrightarrow> I s \<Longrightarrow> I s'"
    and cleanup_ref: "I s \<Longrightarrow> I (cleanup_ref p desc s)"
begin

lemma update_ref_for_handle:
  "update_ref_for_handle p desc increment strong s = Some (ru, s') \<Longrightarrow> I s \<Longrightarrow> I s'"
  by (auto simp: update_ref_for_handle_def dest: inc_ref dec_ref split: if_splits)

end

locale node_closed =
  fixes I :: "bstate \<Rightarrow> bool"
  assumes any_thread_queue: "I s \<Longrightarrow> (\<And>th. still_thread (f th) = still_thread th) \<Longrightarrow> I (upd_thread p t f s)"
    and any_proc_queue: "I s \<Longrightarrow> (\<And>pr. still_proc (h pr) = still_proc pr) \<Longrightarrow> I (upd_proc p h s)"
    and any_wakes: "I s \<Longrightarrow> I (s\<lparr>s_wakes := ws\<rparr>)"
    and any_resumes: "I s \<Longrightarrow> I (s\<lparr>s_resumes := rs\<rparr>)"
    and any_notifications: "I s \<Longrightarrow> I (s\<lparr>s_notifications := ns\<rparr>)"
    and nodes: "I s \<Longrightarrow> I (s\<lparr>s_nodes := nds\<rparr>)"
    and any_shadow: "I s \<Longrightarrow> I (s\<lparr>s_shadow := sh\<rparr>)"
    and disown: "I s \<Longrightarrow> I (upd_proc p (\<lambda>pr. pr\<lparr>p_nodes := mdel ptr (p_nodes pr)\<rparr>) s)"
    and any_deaths: "I s \<Longrightarrow> I (s\<lparr>s_deaths := ds\<rparr>)"
    and any_delivered: "I s \<Longrightarrow> I (upd_proc p (\<lambda>pr. pr\<lparr>p_delivered_death := kd (p_delivered_death pr)\<rparr>) s)"
begin

lemma node: "I s \<Longrightarrow> I (upd_node n g s)"
  by (simp add: upd_node_def nodes)

end

sublocale node_closed < mark_ops
  by unfold_locales (auto intro: any_thread_queue any_proc_queue any_wakes any_resumes any_notifications
      any_shadow any_deaths any_delivered node)

context node_closed
begin

lemma enqueue_any:
  "I s \<Longrightarrow> I (enqueue_deferred_thread_work p t w s)" "I s \<Longrightarrow> I (enqueue_proc_work p w s)"
  by (auto simp: enqueue_deferred_thread_work_def enqueue_proc_work_def still_thread_def still_proc_def
      intro!: any_thread_queue any_proc_queue)

lemma dequeue_node_work: "I s \<Longrightarrow> I (dequeue_node_work n s)"
  by (auto simp: dequeue_node_work_def intro!: remove_work node split: option.split)

lemma remove_node: "I s \<Longrightarrow> I (remove_node n s)"
  by (simp add: remove_node_def upd_shadow nodes)

lemma any_dec_node: "I s \<Longrightarrow> I (dec_node n strong internal s)"
  by (auto simp: dec_node_def Let_def case_prod_beta intro!: node wakeup_proc enqueue_any
      remove_node disown dequeue_node_work split: option.split)

lemma any_inc_node: "inc_node n strong internal target s = Some (res, s') \<Longrightarrow> I s \<Longrightarrow> I s'"
  by (auto simp: inc_node_def node enqueue_any dequeue_node_work elim!: bind_Some_elim
      split: option.splits if_splits)

end

locale ref_closed = node_closed +
  assumes refs: "I s \<Longrightarrow> I (upd_proc p (\<lambda>pr. pr\<lparr>p_refs := kr (p_refs pr), p_by_node := kb (p_by_node pr)\<rparr>) s)"
begin

lemma upd_ref: "I s \<Longrightarrow> I (upd_ref p desc f s)"
  using refs [where kr = "mmod desc f" and kb = "\<lambda>x. x" and p = p and s = s] by (simp add: upd_ref_def)

lemma any_cleanup_ref: "I s \<Longrightarrow> I (cleanup_ref p desc s)"
  by (auto simp: cleanup_ref_def Let_def intro!: deaths dequeue_death_work any_dec_node node refs
      split: option.split)

lemma any_inc_ref: "inc_ref p desc strong target s = Some (res, s') \<Longrightarrow> I s \<Longrightarrow> I s'"
  by (auto simp: inc_ref_def elim!: bind_Some_elim dest: any_inc_node intro!: upd_ref
      split: if_splits sum.splits prod.splits)

lemma inc_ref_or_undo:
  "inc_ref_or_undo p desc created strong target s = Some (res, s') \<Longrightarrow> I s \<Longrightarrow> I s'"
  by (auto simp: inc_ref_or_undo_def elim!: bind_Some_elim dest: any_inc_ref intro!: any_cleanup_ref
      split: if_splits sum.splits prod.splits)

lemma any_inc_ref_for_node:
  "inc_ref_for_node p n strong target s = Some (res, s') \<Longrightarrow> I s \<Longrightarrow> I s'"
  by (auto simp: inc_ref_for_node_def Let_def elim!: bind_Some_elim
      dest: inc_ref_or_undo intro!: refs node split: option.splits if_splits)

lemma any_dec_ref: "dec_ref p desc strong s = Some (res, s') \<Longrightarrow> I s \<Longrightarrow> I s'"
  by (auto simp: dec_ref_def Let_def elim!: bind_Some_elim intro!: any_cleanup_ref any_dec_node upd_ref
      split: option.splits if_splits)

end

sublocale ref_closed < ref_ops
  by unfold_locales
    (auto intro: upd_ref any_dec_node any_inc_node any_inc_ref_for_node any_inc_ref any_dec_ref
      any_cleanup_ref)

end
