(* ===== verification/Host.thy ===== *)
theory Host
  imports BState
begin

text \<open>
  What the driver needs from its host (\<^verbatim>\<open>src/crates/aim-binder-driver/src/host.rs\<close>).

  The \<open>GuestProcess\<close> trait is implemented outside the driver, so it is a parameter: a record of
  functions over an abstract guest state \<open>'g\<close> that every call threads through. \<open>copy_from_user\<close>
  fills a slice whose length the caller fixes; \<open>read_user\<close> makes that explicit. The driver never
  looks at a slice whose copy failed, so a failed copy yields no bytes.

  \<open>HeapReceiveMemory\<close> is its bytes: writing or clearing a range outside it fails the source's
  \<open>assert!\<close>.
\<close>

record 'g guest =
  g_copy_from_user :: "u64 \<Rightarrow> nat \<Rightarrow> 'g \<Rightarrow> byte list result \<times> 'g"
  g_copy_to_user :: "u64 \<Rightarrow> byte list \<Rightarrow> 'g \<Rightarrow> unit result \<times> 'g"
  g_get_file :: "u32 \<Rightarrow> 'g \<Rightarrow> gfile result \<times> 'g"
  g_install_file :: "gfile \<Rightarrow> 'g \<Rightarrow> u32 result \<times> 'g"
  g_can_install :: "nat \<Rightarrow> 'g \<Rightarrow> bool \<times> 'g"
  g_delivered :: "u64 \<Rightarrow> txn_id \<Rightarrow> 'g \<Rightarrow> 'g"
  g_close_fd :: "u32 \<Rightarrow> 'g \<Rightarrow> 'g"

definition read_user :: "'g guest \<Rightarrow> u64 \<Rightarrow> nat \<Rightarrow> 'g \<Rightarrow> byte list result \<times> 'g" where
  "read_user G addr n g =
     (case g_copy_from_user G addr n g of
        (Inl e, g) \<Rightarrow> (Inl e, g)
      | (Inr bytes, g) \<Rightarrow> (Inr (take n (bytes @ replicate n 0)), g))"

lemma read_user_length: "read_user G addr n g = (Inr bytes, g') \<Longrightarrow> length bytes = n"
  by (auto simp: read_user_def split: prod.splits sum.splits)

definition memory_new :: "nat \<Rightarrow> byte list" where
  "memory_new len = replicate len 0"

definition memory_write :: "nat \<Rightarrow> byte list \<Rightarrow> byte list \<Rightarrow> byte list option" where
  "memory_write off data mem = do {
     e \<leftarrow> usize_add off (length data);
     if e \<le> length mem then Some (splice off data mem) else None }"

definition memory_clear :: "nat \<Rightarrow> nat \<Rightarrow> byte list \<Rightarrow> byte list option" where
  "memory_clear off len mem = do {
     e \<leftarrow> usize_add off len;
     if e \<le> length mem then Some (splice off (replicate len 0) mem) else None }"

definition write_memory :: "proc_id \<Rightarrow> nat \<Rightarrow> byte list \<Rightarrow> bstate \<Rightarrow> bstate option" where
  "write_memory p off data s = do {
     pr \<leftarrow> mget (s_procs s) p;
     mem \<leftarrow> p_receive pr;
     mem \<leftarrow> memory_write off data mem;
     Some (upd_proc p (\<lambda>pr. pr\<lparr>p_receive := Some mem\<rparr>) s) }"

end
