(* ===== verification/Transaction.thy ===== *)
theory Transaction
  imports Host
begin

text \<open>
  \<open>binder_transaction\<close> and what it relies on (\<^verbatim>\<open>src/crates/aim-binder-driver/src/transaction.rs\<close>):
  target resolution, the single copy into the target's receive buffer with every object translated,
  delivery to a thread or queue, failed replies and the release of buffers.

  An operation that may panic returns an \<open>option\<close>; one that may fail returns the failure (\<open>Inl\<close>)
  together with the state it leaves. The guest (a parameter \<open>G\<close> with its state \<open>g\<close>) is threaded
  through. \<open>transaction_inner\<close> and \<open>copy_transaction\<close> are split into the steps their source has:
  \<open>reply_target\<close> / \<open>call_target\<close>, \<open>begin_transaction\<close>, \<open>copy_*_object\<close> under \<open>copy_objects\<close>, and
  \<open>finish_reply\<close> / \<open>finish_call\<close> / \<open>finish_oneway\<close>.
\<close>

section \<open>Buffers and transaction records\<close>

definition TOKEN_BYTES :: nat where
  "TOKEN_BYTES = 512"

definition CAPTURE_BYTES :: nat where
  "CAPTURE_BYTES = 1048576"

record failure =
  fl_cmd :: u32
  fl_param :: i32

definition fail :: "u32 \<Rightarrow> errno \<Rightarrow> failure" where
  "fail cmd param = \<lparr>fl_cmd = cmd, fl_param = - param\<rparr>"

definition alloc_of :: "bstate \<Rightarrow> proc_id \<Rightarrow> allocator option" where
  "alloc_of s p = do { pr \<leftarrow> mget (s_procs s) p; p_alloc pr }"

definition buffer_of :: "bstate \<Rightarrow> proc_id \<Rightarrow> nat \<Rightarrow> buffer option" where
  "buffer_of s p off = do { a \<leftarrow> alloc_of s p; mget (buffers a) off }"

definition upd_buffer :: "proc_id \<Rightarrow> nat \<Rightarrow> (buffer \<Rightarrow> buffer) \<Rightarrow> bstate \<Rightarrow> bstate" where
  "upd_buffer p off f = upd_proc p (\<lambda>pr. pr\<lparr>p_alloc :=
     map_option (\<lambda>a. a\<lparr>buffers := mmod off f (buffers a)\<rparr>) (p_alloc pr)\<rparr>)"

definition record_object :: "proc_id \<Rightarrow> nat \<Rightarrow> buffer_record \<Rightarrow> bstate \<Rightarrow> bstate" where
  "record_object p off r = upd_buffer p off (\<lambda>b. b\<lparr>b_objects := b_objects b @ [r]\<rparr>)"

definition release_target_node :: "node_id option \<Rightarrow> bstate \<Rightarrow> bstate" where
  "release_target_node n s = (case n of None \<Rightarrow> s | Some n \<Rightarrow> dec_node n True False s)"

definition is_complete :: "work \<Rightarrow> bool" where
  "is_complete w \<longleftrightarrow> w = WTransactionComplete \<or> w = WOnewaySpamSuspect"

definition remove_last_complete :: "proc_id \<Rightarrow> tid \<Rightarrow> bstate \<Rightarrow> bstate" where
  "remove_last_complete p t = upd_thread p t (\<lambda>th. th\<lparr>t_todo := remove_last is_complete (t_todo th)\<rparr>)"

definition pop_transaction :: "proc_id \<Rightarrow> tid \<Rightarrow> txn_id \<Rightarrow> bstate \<Rightarrow> bstate" where
  "pop_transaction p t x s =
     (let parent = do { tx \<leftarrow> mget (s_txns s) x; x_from_parent tx };
          s = upd_thread p t
                (\<lambda>th. if t_stack th = Some x then th\<lparr>t_stack := parent\<rparr> else th) s
      in upd_txn x (\<lambda>tx. tx\<lparr>x_from := None\<rparr>) s)"

definition free_transaction :: "txn_id \<Rightarrow> bstate \<Rightarrow> bstate" where
  "free_transaction x s =
     (case mget (s_txns s) x of
        None \<Rightarrow> s
      | Some tx \<Rightarrow>
        let s = s\<lparr>s_txns := mdel x (s_txns s)\<rparr>;
            s = upd_trace (trace_dropped x) s;
            s = upd_shadow (shadow_failed x) s
        in case x_to_proc tx of
             None \<Rightarrow> s
           | Some p \<Rightarrow>
             let s = upd_proc p (\<lambda>pr. pr\<lparr>p_outstanding := p_outstanding pr - 1\<rparr>) s
             in case x_buffer tx of
                  None \<Rightarrow> s
                | Some off \<Rightarrow> upd_buffer p off (\<lambda>b. b\<lparr>b_txn := None, b_delivery := None\<rparr>) s)"

lemma s_txns_upd [simp]:
  "s_txns (upd_proc p f s) = s_txns s" "s_txns (upd_thread p t h s) = s_txns s"
  "s_txns (upd_node n k s) = s_txns s" "s_txns (upd_death d l s) = s_txns s"
  "s_txns (upd_shadow m s) = s_txns s" "s_txns (upd_trace q s) = s_txns s"
  "s_txns (upd_buffer p off b s) = s_txns s" "s_txns (upd_ref p desc r s) = s_txns s"
  by (simp_all add: upd_proc_def upd_thread_def upd_node_def upd_death_def upd_shadow_def
      upd_trace_def upd_buffer_def upd_ref_def)

lemma s_txns_free_transaction: "s_txns (free_transaction x s) = mdel x (s_txns s)"
proof -
  have "mdel x (s_txns s) = s_txns s" if "mget (s_txns s) x = None"
    using that by (auto simp: mdel_def mget_None filter_id_conv)
  then show ?thesis
    by (auto simp: free_transaction_def Let_def split: option.splits)
qed

text \<open>
  The nearest live caller in the chain gets the failure; every transaction on the way is freed.  The
  caller's thread is found again after the pop, which does not remove it.
\<close>

definition live_caller :: "bstate \<Rightarrow> txn \<Rightarrow> (proc_id \<times> tid) option" where
  "live_caller s tx =
     (case x_from tx of
        Some (p, t) \<Rightarrow> if thread_exists p t s then Some (p, t) else None
      | None \<Rightarrow> None)"

definition fail_caller :: "proc_id \<Rightarrow> tid \<Rightarrow> txn_id \<Rightarrow> u32 \<Rightarrow> bstate \<Rightarrow> bstate" where
  "fail_caller p t x cmd s =
     (let s = pop_transaction p t x s
      in case thread_of s p t of
           None \<Rightarrow> s
         | Some th \<Rightarrow>
           if t_reply_error th = None
           then enqueue_thread_work p t (WReturnError cmd ReplySlot)
                  (upd_thread p t (\<lambda>th. th\<lparr>t_reply_error := Some cmd\<rparr>) s)
           else s)"

function send_failed_reply :: "txn_id \<Rightarrow> u32 \<Rightarrow> bstate \<Rightarrow> bstate" where
  "send_failed_reply x cmd s =
     (case mget (s_txns s) x of
        None \<Rightarrow> s
      | Some tx \<Rightarrow>
        (case live_caller s tx of
           Some (p, t) \<Rightarrow> free_transaction x (fail_caller p t x cmd s)
         | None \<Rightarrow>
             (case x_from_parent tx of
                Some y \<Rightarrow> send_failed_reply y cmd (free_transaction x s)
              | None \<Rightarrow> free_transaction x s)))"
  by pat_completeness auto

termination
  by (relation "measure (\<lambda>(x, cmd, s). length (s_txns s))")
    (auto simp: s_txns_free_transaction intro!: length_mdel_less)

lemma send_failed_reply_induct [case_names gone live root caller]:
  assumes gone: "\<And>x s. mget (s_txns s) x = None \<Longrightarrow> P x s s"
    and live: "\<And>x s tx p t. mget (s_txns s) x = Some tx \<Longrightarrow> live_caller s tx = Some (p, t) \<Longrightarrow>
      P x s (free_transaction x (fail_caller p t x cmd s))"
    and root: "\<And>x s tx. mget (s_txns s) x = Some tx \<Longrightarrow> live_caller s tx = None \<Longrightarrow>
      x_from_parent tx = None \<Longrightarrow> P x s (free_transaction x s)"
    and caller: "\<And>x s tx y s'. mget (s_txns s) x = Some tx \<Longrightarrow> live_caller s tx = None \<Longrightarrow>
      x_from_parent tx = Some y \<Longrightarrow> P y (free_transaction x s) s' \<Longrightarrow> P x s s'"
  shows "P x s (send_failed_reply x cmd s)"
proof (induction "length (s_txns s)" arbitrary: x s rule: less_induct)
  case less
  show ?case
  proof (cases "mget (s_txns s) x")
    case None
    then show ?thesis using gone by simp
  next
    case (Some tx)
    show ?thesis
    proof (cases "live_caller s tx")
      case None
      show ?thesis
      proof (cases "x_from_parent tx")
        case None
        then show ?thesis using Some \<open>live_caller s tx = None\<close> root by simp
      next
        case (Some y)
        have "length (s_txns (free_transaction x s)) < length (s_txns s)"
          using \<open>mget (s_txns s) x = Some tx\<close> by (auto simp: s_txns_free_transaction intro!: length_mdel_less)
        then show ?thesis using Some \<open>mget (s_txns s) x = Some tx\<close> \<open>live_caller s tx = None\<close>
          less caller by simp
      qed
    next
      case (Some pt)
      then show ?thesis using \<open>mget (s_txns s) x = Some tx\<close> live by (cases pt) simp
    qed
  qed
qed

declare send_failed_reply.simps [simp del]

definition cleanup_transaction :: "txn_id \<Rightarrow> u32 \<Rightarrow> bstate \<Rightarrow> bstate" where
  "cleanup_transaction x cmd s =
     (case mget (s_txns s) x of
        None \<Rightarrow> s
      | Some tx \<Rightarrow>
        if x_target_node tx \<noteq> None \<and> \<not> is_oneway tx then send_failed_reply x cmd s
        else free_transaction x s)"

section \<open>Freeing a buffer\<close>

fun release_objects :: "proc_id \<Rightarrow> buffer_record list \<Rightarrow> bstate \<Rightarrow> bstate option" where
  "release_objects p [] s = Some s"
| "release_objects p (BinderRec n strong # rs) s = release_objects p rs (dec_node n strong False s)"
| "release_objects p (HandleRec desc strong # rs) s = do {
     (_, s) \<leftarrow> dec_ref p desc strong s;
     release_objects p rs s }"

text \<open>Once the buffer of a one-way transaction is freed, the node's next one starts.\<close>

definition next_async :: "proc_id \<Rightarrow> buffer \<Rightarrow> bstate \<Rightarrow> bstate" where
  "next_async p b s =
     (case (if b_is_async b then b_target_node b else None) of
        None \<Rightarrow> s
      | Some n \<Rightarrow>
        (case mget (s_nodes s) n of
           None \<Rightarrow> s
         | Some nd \<Rightarrow>
           (case n_async_todo nd of
              [] \<Rightarrow> upd_node n (\<lambda>nd. nd\<lparr>n_has_async := False\<rparr>) s
            | x # xs \<Rightarrow>
                wakeup_proc p (enqueue_proc_work p (WTransaction x)
                  (upd_node n (\<lambda>nd. nd\<lparr>n_async_todo := xs\<rparr>) s)))))"

definition clear_freed :: "proc_id \<Rightarrow> nat \<Rightarrow> buffer \<Rightarrow> bstate \<Rightarrow> bstate option" where
  "clear_freed p off b s =
     (case do { pr \<leftarrow> mget (s_procs s) p; p_receive pr } of
        Some mem \<Rightarrow>
          if b_clear_on_free b
          then do { mem \<leftarrow> memory_clear off (b_size b) mem;
                    Some (upd_proc p (\<lambda>pr. pr\<lparr>p_receive := Some mem\<rparr>) s) }
          else Some s
      | None \<Rightarrow> Some s)"

definition free_buffer ::
  "proc_id \<Rightarrow> nat \<Rightarrow> bool \<Rightarrow> 'g guest option \<Rightarrow> bstate \<Rightarrow> 'g \<Rightarrow> (bstate \<times> 'g) option" where
  "free_buffer p off is_failure G s g =
     (case alloc_of s p of
        None \<Rightarrow> Some (s, g)
      | Some a \<Rightarrow>
        (case free_buf off a of
           (None, _) \<Rightarrow> Some (s, g)
         | (Some b, a) \<Rightarrow> do {
             let s = upd_proc p (\<lambda>pr. pr\<lparr>p_alloc := Some a\<rparr>) s;
             s \<leftarrow> clear_freed p off b s;
             let s = (case b_txn b of None \<Rightarrow> s | Some x \<Rightarrow> upd_txn x (\<lambda>tx. tx\<lparr>x_buffer := None\<rparr>) s);
             let s = next_async p b s;
             let s = release_target_node (b_target_node b) s;
             s \<leftarrow> release_objects p (b_objects b) s;
             let g = (case G of
               Some G \<Rightarrow> if is_failure then g else fold (g_close_fd G) (b_fda_fds b) g
             | None \<Rightarrow> g);
             Some (s, g) }))"

text \<open>\<open>free_buffer\<close> without a guest.\<close>

definition free_buffer_failed :: "proc_id \<Rightarrow> nat \<Rightarrow> bstate \<Rightarrow> bstate option" where
  "free_buffer_failed p off s =
     map_option fst (free_buffer p off True (None :: unit guest option) s ())"

definition abort_transaction :: "proc_id \<Rightarrow> txn_id \<Rightarrow> nat \<Rightarrow> bstate \<Rightarrow> bstate option" where
  "abort_transaction target x off s =
     (let s = upd_txn x (\<lambda>tx. tx\<lparr>x_buffer := None\<rparr>) s;
          s = upd_shadow (shadow_failed x) s;
          s = s\<lparr>s_txns := mdel x (s_txns s)\<rparr>
      in free_buffer_failed target off s)"

section \<open>Delivery to a thread, the process or the node\<close>

definition proc_transaction ::
  "txn_id \<Rightarrow> proc_id \<Rightarrow> tid option \<Rightarrow> bstate \<Rightarrow> ((u32 + unit) \<times> bstate) option" where
  "proc_transaction x p thread s = do {
     tx \<leftarrow> mget (s_txns s) x;
     n \<leftarrow> x_target_node tx;
     (pending_async, s) \<leftarrow>
       (if is_oneway tx
        then do { nd \<leftarrow> mget (s_nodes s) n;
                  Some (if n_has_async nd then (True, s)
                        else (False, upd_node n (\<lambda>nd. nd\<lparr>n_has_async := True\<rparr>) s)) }
        else Some (False, s));
     if mget (s_procs s) p = None \<or>
        (case thread of None \<Rightarrow> False | Some t \<Rightarrow> \<not> thread_exists p t s)
     then Some (Inl BR_DEAD_REPLY, s)
     else do {
       let (thread, s) = (if thread = None \<and> \<not> pending_async then select_thread p s else (thread, s));
       s \<leftarrow> (case thread of
               Some t \<Rightarrow> Some (enqueue_thread_work p t (WTransaction x) s)
             | None \<Rightarrow>
               if \<not> pending_async
               then Some (wakeup_thread p None (enqueue_proc_work p (WTransaction x) s))
               else do {
                 _ \<leftarrow> mget (s_nodes s) n;
                 Some (upd_node n (\<lambda>nd. nd\<lparr>n_async_todo := n_async_todo nd @ [x]\<rparr>) s) });
       pr \<leftarrow> mget (s_procs s) p;
       c \<leftarrow> u32_inc (p_outstanding pr);
       Some (Inr (), upd_proc p (\<lambda>pr. pr\<lparr>p_outstanding := c\<rparr>) s) } }"

section \<open>Target resolution\<close>

definition sender_of :: "proc_id \<Rightarrow> tid \<Rightarrow> bool \<Rightarrow> bstate \<Rightarrow> (bool \<times> credentials) option" where
  "sender_of p t reply s =
     (case (if reply then None else do { th \<leftarrow> thread_of s p t; t_forwarded th }) of
        Some c \<Rightarrow> Some (True, c)
      | None \<Rightarrow> do { pr \<leftarrow> mget (s_procs s) p; Some (False, p_creds pr) })"

text \<open>The result, what \<open>in_reply_to_out\<close> holds, and the state.\<close>

definition reply_target ::
  "proc_id \<Rightarrow> tid \<Rightarrow> bstate \<Rightarrow> ((failure + proc_id \<times> tid) \<times> txn_id option \<times> bstate) option" where
  "reply_target p t s =
     (case do { th \<leftarrow> thread_of s p t; t_stack th } of
        None \<Rightarrow> Some (Inl (fail BR_FAILED_REPLY EPROTO), None, s)
      | Some x \<Rightarrow> do {
          tx \<leftarrow> mget (s_txns s) x;
          if x_to_thread tx \<noteq> Some t \<or> x_to_proc tx \<noteq> Some p
          then Some (Inl (fail BR_FAILED_REPLY EPROTO), None, s)
          else
            let s = upd_thread p t (\<lambda>th. th\<lparr>t_stack := x_to_parent tx\<rparr>) s in
            case x_from tx of
              None \<Rightarrow> Some (Inl (fail BR_DEAD_REPLY 0), Some x, s)
            | Some (fp, ft) \<Rightarrow>
              (case thread_of s fp ft of
                 None \<Rightarrow> Some (Inl (fail BR_DEAD_REPLY 0), Some x, s)
               | Some fth \<Rightarrow>
                   if t_stack fth \<noteq> Some x then Some (Inl (fail BR_FAILED_REPLY EPROTO), None, s)
                   else Some (Inr (fp, ft), Some x, s)) })"

text \<open>The thread of the target process that waits on this thread's call chain.\<close>

partial_function (option) chain_thread :: "proc_id \<Rightarrow> txn_id \<Rightarrow> bstate \<Rightarrow> tid option option" where
  "chain_thread target x s = do {
     tx \<leftarrow> mget (s_txns s) x;
     case (case x_from tx of
             Some (fp, ft) \<Rightarrow> if fp = target then Some ft else None
           | None \<Rightarrow> None) of
       Some ft \<Rightarrow> Some (Some ft)
     | None \<Rightarrow> (case x_from_parent tx of None \<Rightarrow> Some None | Some y \<Rightarrow> chain_thread target y s) }"

definition call_node :: "proc_id \<Rightarrow> u32 \<Rightarrow> bstate \<Rightarrow> (failure + node_id) option" where
  "call_node p handle s =
     (if handle \<noteq> 0 then
        Some (case get_ref p handle True s of
                None \<Rightarrow> Inl (fail BR_FAILED_REPLY EINVAL)
              | Some r \<Rightarrow> Inr (r_node r))
      else do {
        pr \<leftarrow> mget (s_procs s) p;
        c \<leftarrow> context_at s (p_context pr);
        Some (case c_mgr_node c of
                None \<Rightarrow> Inl (fail BR_DEAD_REPLY EINVAL)
              | Some n \<Rightarrow> Inr n) })"

fun front_is_transaction :: "work list \<Rightarrow> bool" where
  "front_is_transaction (WTransaction _ # _) = True"
| "front_is_transaction _ = False"

definition call_target ::
  "proc_id \<Rightarrow> tid \<Rightarrow> u32 \<Rightarrow> bool \<Rightarrow> bstate \<Rightarrow>
   ((failure + proc_id \<times> tid option \<times> node_id) \<times> bstate) option" where
  "call_target p t handle oneway s = do {
     found \<leftarrow> call_node p handle s;
     case found of
       Inl f \<Rightarrow> Some (Inl f, s)
     | Inr n \<Rightarrow> do {
         nd \<leftarrow> mget (s_nodes s) n;
         case n_proc nd of
           None \<Rightarrow> Some (Inl (fail BR_DEAD_REPLY EINVAL), s)
         | Some owner \<Rightarrow> do {
             (res, s) \<leftarrow> inc_node n True False None s;
             case res of
               Inl e \<Rightarrow> Some (Inl (fail BR_FAILED_REPLY e), s)
             | Inr _ \<Rightarrow>
               if owner = p then Some (Inl (fail BR_FAILED_REPLY EINVAL), dec_node n True False s)
               else do {
                 th \<leftarrow> thread_of s p t;
                 if \<not> oneway \<and> front_is_transaction (t_todo th)
                 then Some (Inl (fail BR_FAILED_REPLY EPROTO), dec_node n True False s)
                 else
                   (case (if oneway then None else t_stack th) of
                      None \<Rightarrow> Some (Inr (owner, None, n), s)
                    | Some head \<Rightarrow> do {
                        tx \<leftarrow> mget (s_txns s) head;
                        if x_to_thread tx \<noteq> Some t
                        then Some (Inl (fail BR_FAILED_REPLY EPROTO), dec_node n True False s)
                        else do {
                          tt \<leftarrow> chain_thread owner head s;
                          Some (Inr (owner, tt, n), s) } }) } } } }"

section \<open>Allocating the buffer and the transaction record\<close>

definition secctx_of :: "node_id option \<Rightarrow> credentials \<Rightarrow> bstate \<Rightarrow> byte list option option" where
  "secctx_of target_node sender s =
     (case target_node of
        None \<Rightarrow> Some None
      | Some n \<Rightarrow> do {
          nd \<leftarrow> mget (s_nodes s) n;
          Some (if n_security_ctx nd
                then map_option (\<lambda>c. utf8 c @ [0]) (cr_security_context sender) else None) })"

definition secctx_space :: "byte list option \<Rightarrow> u64 option" where
  "secctx_space secctx =
     (case secctx of None \<Rightarrow> Some 0 | Some c \<Rightarrow> align8 (of_nat (length c)))"

definition txn_new ::
  "proc_id \<Rightarrow> tid \<Rightarrow> transaction_data \<Rightarrow> bool \<Rightarrow> bool \<Rightarrow> bool \<Rightarrow> credentials \<Rightarrow>
   proc_id \<Rightarrow> tid option \<Rightarrow> node_id option \<Rightarrow> nat \<Rightarrow> txn" where
  "txn_new p t tr reply oneway delegated sender target_proc target_thread target_node off =
     \<lparr>x_from = (if \<not> reply \<and> \<not> oneway then Some (p, t) else None), x_from_parent = None,
      x_to_proc = Some target_proc, x_to_thread = target_thread, x_to_parent = None,
      x_code = td_code tr, x_flags = td_flags tr, x_sender_euid = cr_euid sender,
      x_sender = sender, x_delegated = delegated, x_target_node = target_node,
      x_buffer = Some off, x_security_ctx = 0, x_fixups = []\<rparr>"

definition allocate_target ::
  "transaction_data \<Rightarrow> u64 \<Rightarrow> bool \<Rightarrow> i32 \<Rightarrow> proc_id \<Rightarrow> bstate \<Rightarrow> allocation result \<times> bstate" where
  "allocate_target tr extra oneway pid target_proc s =
     (case alloc_of s target_proc of
        None \<Rightarrow> (Inl ESRCH, s)
      | Some a \<Rightarrow>
        let (res, a) = allocate (td_data_size tr) (td_offsets_size tr) extra oneway pid a
        in (res, upd_proc target_proc (\<lambda>pr. pr\<lparr>p_alloc := Some a\<rparr>) s))"

text \<open>From the security context to the buffer and the transaction it belongs to: the context's
  bytes, the transaction, the buffer's offset, and whether the sender is suspected of spamming.\<close>

definition begin_transaction ::
  "proc_id \<Rightarrow> tid \<Rightarrow> transaction_data \<Rightarrow> bool \<Rightarrow> bool \<Rightarrow> bool \<Rightarrow> credentials \<Rightarrow> u64 \<Rightarrow>
   proc_id \<Rightarrow> tid option \<Rightarrow> node_id option \<Rightarrow> bstate \<Rightarrow>
   ((failure + byte list option \<times> txn_id \<times> nat \<times> bool) \<times> bstate) option" where
  "begin_transaction p t tr reply oneway delegated sender extra target_proc target_thread
     target_node s = do {
     secctx \<leftarrow> secctx_of target_node sender s;
     space \<leftarrow> secctx_space secctx;
     case u64_add extra space of
       None \<Rightarrow> Some (Inl (fail BR_FAILED_REPLY EINVAL), release_target_node target_node s)
     | Some extra_total \<Rightarrow>
       (case allocate_target tr extra_total oneway (cr_pid sender) target_proc s of
          (Inl e, s) \<Rightarrow>
            Some (Inl (fail (if e = ESRCH then BR_DEAD_REPLY else BR_FAILED_REPLY) e),
                  release_target_node target_node s)
        | (Inr al, s) \<Rightarrow> do {
            let off = al_offset al;
            (x, s) \<leftarrow> next_id s;
            let s = s\<lparr>s_txns := mput x (txn_new p t tr reply oneway delegated sender target_proc
                       target_thread target_node off) (s_txns s)\<rparr>;
            _ \<leftarrow> buffer_of s target_proc off;
            let s = upd_buffer target_proc off (\<lambda>b. b\<lparr>b_txn := Some x, b_target_node := target_node,
                       b_clear_on_free := (td_flags tr AND TF_CLEAR_BUF \<noteq> 0)\<rparr>) s;
            Some (Inr (secctx, x, off, al_oneway_spam_suspect al), s) }) }"

section \<open>Copying and translating the data\<close>

record placed_ptr =
  pl_object_offset :: nat
  pl_target_offset :: nat
  pl_length :: nat
  pl_parent :: "nat option"
  pl_parent_offset :: nat

partial_function (option) validate_walk ::
  "placed_ptr list \<Rightarrow> nat \<Rightarrow> nat \<Rightarrow> nat \<Rightarrow> nat \<Rightarrow> bool option" where
  "validate_walk placed parent fixup_offset cursor lo =
     (if cursor = parent then Some (lo \<le> fixup_offset)
      else if cursor < length placed then
        (case pl_parent (placed ! cursor) of
           Some p \<Rightarrow> validate_walk placed parent fixup_offset p (pl_parent_offset (placed ! cursor) + 8)
         | None \<Rightarrow> Some False)
      else None)"

definition validate_fixup ::
  "placed_ptr list \<Rightarrow> nat \<Rightarrow> nat \<Rightarrow> nat option \<Rightarrow> nat \<Rightarrow> bool option" where
  "validate_fixup placed parent fixup_offset last_obj last_min =
     (case last_obj of
        None \<Rightarrow> Some False
      | Some cursor \<Rightarrow> validate_walk placed parent fixup_offset cursor last_min)"

text \<open>What stays fixed during the copy, and the local variables of its loop.\<close>

record copy_args =
  ca_proc :: proc_id
  ca_tid :: tid
  ca_target :: proc_id
  ca_buffer :: nat
  ca_data_size :: nat
  ca_off_start :: nat
  ca_sg_end :: nat
  ca_vm_start :: u64
  ca_accept_fds :: bool
  ca_identify :: "(gfile \<Rightarrow> file_id option) option"

record copy_state =
  cs_image :: "byte list"
  cs_off_min :: nat
  cs_sg_cursor :: nat
  cs_placed :: "placed_ptr list"
  cs_last_obj :: "nat option"
  cs_last_min :: nat
  cs_fixups :: "fd_fixup list"

type_synonym 'g copied = "((failure + copy_state \<times> shadow_kind \<times> node_id list) \<times> bstate \<times> 'g) option"

definition shadow_binder :: "node_id \<Rightarrow> bstate \<Rightarrow> shadow_kind option" where
  "shadow_binder n s = do {
     nd \<leftarrow> mget (s_nodes s) n;
     Some (SkBinder n
       (case do { p \<leftarrow> n_proc nd; mget (s_procs s) p } of None \<Rightarrow> 0 | Some pr \<Rightarrow> cr_pid (p_creds pr))) }"

definition shadow_binder_if :: "copy_args \<Rightarrow> node_id \<Rightarrow> bstate \<Rightarrow> shadow_kind option" where
  "shadow_binder_if A n s = (if ca_identify A = None then Some SkOther else shadow_binder n s)"

definition put_flat ::
  "nat \<Rightarrow> flat_binder_object \<Rightarrow> copy_state \<Rightarrow> copy_state option" where
  "put_flat off fp C = do {
     bytes \<leftarrow> flat_binder_object_encode fp;
     img \<leftarrow> put_slice off bytes (cs_image C);
     Some (C\<lparr>cs_image := img\<rparr>) }"

definition fail_inval :: failure where
  "fail_inval = fail BR_FAILED_REPLY EINVAL"

definition copy_binder_object ::
  "copy_args \<Rightarrow> u32 \<Rightarrow> nat \<Rightarrow> byte list \<Rightarrow> copy_state \<Rightarrow> bstate \<Rightarrow> 'g \<Rightarrow> 'g copied" where
  "copy_binder_object A kind off object C s g = do {
     fp \<leftarrow> flat_binder_object_decode object;
     let strong = (kind = BINDER_TYPE_BINDER);
     (n, s) \<leftarrow> new_node (ca_proc A) (fbo_binder fp) (fbo_cookie fp) (fbo_flags fp) s;
     nd \<leftarrow> mget (s_nodes s) n;
     if n_cookie nd \<noteq> fbo_cookie fp then Some (Inl fail_inval, s, g)
     else do {
       sk \<leftarrow> shadow_binder_if A n s;
       (res, s) \<leftarrow> inc_ref_for_node (ca_target A) n strong (Some (ca_proc A, ca_tid A)) s;
       case res of
         Inl e \<Rightarrow> Some (Inl (fail BR_FAILED_REPLY e), s, g)
       | Inr desc \<Rightarrow> do {
           let s = record_object (ca_target A) (ca_buffer A) (HandleRec desc strong) s;
           C \<leftarrow> put_flat off (fp\<lparr>fbo_kind := (if strong then BINDER_TYPE_HANDLE else BINDER_TYPE_WEAK_HANDLE),
                                fbo_binder := ucast desc, fbo_cookie := 0\<rparr>) C;
           Some (Inr (C, sk, [n]), s, g) } } }"

definition copy_handle_object ::
  "copy_args \<Rightarrow> u32 \<Rightarrow> nat \<Rightarrow> byte list \<Rightarrow> copy_state \<Rightarrow> bstate \<Rightarrow> 'g \<Rightarrow> 'g copied" where
  "copy_handle_object A kind off object C s g = do {
     fp \<leftarrow> flat_binder_object_decode object;
     let strong = (kind = BINDER_TYPE_HANDLE);
     case get_ref (ca_proc A) (fbo_handle fp) strong s of
       None \<Rightarrow> Some (Inl fail_inval, s, g)
     | Some r \<Rightarrow> do {
         let n = r_node r;
         sk \<leftarrow> shadow_binder_if A n s;
         nd \<leftarrow> mget (s_nodes s) n;
         if n_proc nd = Some (ca_target A) then do {
           (res, s) \<leftarrow> inc_node n strong False None s;
           case res of
             Inl e \<Rightarrow> Some (Inl (fail BR_FAILED_REPLY e), s, g)
           | Inr _ \<Rightarrow> do {
               let s = record_object (ca_target A) (ca_buffer A) (BinderRec n strong) s;
               C \<leftarrow> put_flat off (fp\<lparr>fbo_kind := (if strong then BINDER_TYPE_BINDER else BINDER_TYPE_WEAK_BINDER),
                                    fbo_binder := n_ptr nd, fbo_cookie := n_cookie nd\<rparr>) C;
               Some (Inr (C, sk, []), s, g) } }
         else do {
           (res, s) \<leftarrow> inc_ref_for_node (ca_target A) n strong None s;
           case res of
             Inl e \<Rightarrow> Some (Inl (fail BR_FAILED_REPLY e), s, g)
           | Inr desc \<Rightarrow> do {
               let s = record_object (ca_target A) (ca_buffer A) (HandleRec desc strong) s;
               C \<leftarrow> put_flat off (fp\<lparr>fbo_binder := ucast desc, fbo_cookie := 0\<rparr>) C;
               Some (Inr (C, sk, []), s, g) } } } }"

definition copy_fd_object ::
  "'g guest \<Rightarrow> copy_args \<Rightarrow> nat \<Rightarrow> byte list \<Rightarrow> copy_state \<Rightarrow> bstate \<Rightarrow> 'g \<Rightarrow> 'g copied" where
  "copy_fd_object G A off object C s g =
     (if \<not> ca_accept_fds A then Some (Inl (fail BR_FAILED_REPLY EPERM), s, g)
      else do {
        fd \<leftarrow> u32_at object 8;
        case g_get_file G fd g of
          (Inl _, g) \<Rightarrow> Some (Inl (fail BR_FAILED_REPLY EBADF), s, g)
        | (Inr f, g) \<Rightarrow> do {
            let sk = (case ca_identify A of None \<Rightarrow> SkOther | Some ident \<Rightarrow> SkFile (ident f));
            img \<leftarrow> put_slice (off + 8) (replicate 8 0) (cs_image C);
            Some (Inr (C\<lparr>cs_image := img,
                         cs_fixups := cs_fixups C @ [\<lparr>ff_offset = off + 8, ff_file = f, ff_in_array = False\<rparr>]\<rparr>,
                       sk, []), s, g) } })"

text \<open>\<open>placed.iter().position(..)\<close>: the placed buffer whose object the parent index names.\<close>

definition find_parent :: "copy_args \<Rightarrow> nat \<Rightarrow> u64 \<Rightarrow> copy_state \<Rightarrow> nat option option" where
  "find_parent A index parent C =
     (if unat parent < index \<and> cs_placed C \<noteq> [] then do {
        at \<leftarrow> u64_at (cs_image C) (ca_off_start A + unat parent * 8);
        Some (position (\<lambda>p. unat at = pl_object_offset p) (cs_placed C)) }
      else Some None)"

fun collect_fds ::
  "'g guest \<Rightarrow> byte list \<Rightarrow> nat \<Rightarrow> nat \<Rightarrow> 'g \<Rightarrow> ((failure + fd_fixup list) \<times> 'g) option" where
  "collect_fds G img base 0 g = Some (Inr [], g)"
| "collect_fds G img base (Suc n) g = do {
     fd \<leftarrow> u32_at img base;
     case g_get_file G fd g of
       (Inl _, g) \<Rightarrow> Some (Inl (fail BR_FAILED_REPLY EBADF), g)
     | (Inr f, g) \<Rightarrow> do {
         (rest, g) \<leftarrow> collect_fds G img (base + 4) n g;
         Some (map_sum (\<lambda>x. x) (\<lambda>fs. \<lparr>ff_offset = base, ff_file = f, ff_in_array = True\<rparr> # fs) rest, g) } }"

definition copy_fda_object ::
  "'g guest \<Rightarrow> copy_args \<Rightarrow> nat \<Rightarrow> byte list \<Rightarrow> copy_state \<Rightarrow> bstate \<Rightarrow> 'g \<Rightarrow> 'g copied" where
  "copy_fda_object G A index object C s g = do {
     fda \<leftarrow> fd_array_object_decode object;
     parent \<leftarrow> find_parent A index (fda_parent fda) C;
     case parent of
       None \<Rightarrow> Some (Inl fail_inval, s, g)
     | Some parent \<Rightarrow> do {
         let po = unat (fda_parent_offset fda);
         ok \<leftarrow> validate_fixup (cs_placed C) parent po (cs_last_obj C) (cs_last_min C);
         let fd_bytes = unat (fda_num_fds fda) * 4;
         let pp = cs_placed C ! parent;
         if \<not> ok \<or> 2 ^ 64 \<le> fd_bytes \<or> pl_length pp < fd_bytes \<or> pl_length pp - fd_bytes < po \<or>
            (pl_target_offset pp + po) mod 4 \<noteq> 0
         then Some (Inl fail_inval, s, g)
         else if fda_num_fds fda \<noteq> 0 \<and> \<not> ca_accept_fds A
         then Some (Inl (fail BR_FAILED_REPLY EPERM), s, g)
         else do {
           (fds, g) \<leftarrow> collect_fds G (cs_image C) (pl_target_offset pp + po) (unat (fda_num_fds fda)) g;
           case fds of
             Inl f \<Rightarrow> Some (Inl f, s, g)
           | Inr fds \<Rightarrow>
               Some (Inr (C\<lparr>cs_fixups := cs_fixups C @ fds, cs_last_obj := Some parent,
                            cs_last_min := po + fd_bytes\<rparr>, SkOther, []), s, g) } } }"

text \<open>The parent of a buffer object: \<open>None\<close> when it has none, and the image with the parent's
  embedded pointer set to the copy.\<close>

definition fixup_parent ::
  "copy_args \<Rightarrow> nat \<Rightarrow> buffer_object \<Rightarrow> copy_state \<Rightarrow> (failure + nat option \<times> byte list) option" where
  "fixup_parent A index bp C =
     (if bo_flags bp AND BINDER_BUFFER_FLAG_HAS_PARENT = 0 then Some (Inr (None, cs_image C))
      else do {
        p \<leftarrow> find_parent A index (bo_parent bp) C;
        case p of
          None \<Rightarrow> Some (Inl fail_inval)
        | Some p \<Rightarrow> do {
            let po = unat (bo_parent_offset bp);
            ok \<leftarrow> validate_fixup (cs_placed C) p po (cs_last_obj C) (cs_last_min C);
            let pp = cs_placed C ! p;
            if \<not> ok \<or> pl_length pp < 8 \<or> pl_length pp - 8 < po then Some (Inl fail_inval)
            else do {
              img \<leftarrow> put_u64 (cs_image C) (pl_target_offset pp + po) (bo_buffer bp);
              Some (Inr (Some p, img)) } } })"

definition copy_ptr_object ::
  "'g guest \<Rightarrow> copy_args \<Rightarrow> nat \<Rightarrow> nat \<Rightarrow> byte list \<Rightarrow> copy_state \<Rightarrow> bstate \<Rightarrow> 'g \<Rightarrow> 'g copied" where
  "copy_ptr_object G A index off object C s g = do {
     bp \<leftarrow> buffer_object_decode object;
     let len = unat (bo_length bp);
     room \<leftarrow> usize_sub (ca_sg_end A) (cs_sg_cursor C);
     if room < len then Some (Inl fail_inval, s, g)
     else do {
       let (read, g) = (if len \<noteq> 0 then read_user G (bo_buffer bp) len g else (Inr [], g));
       case read of
         Inl _ \<Rightarrow> Some (Inl (fail BR_FAILED_REPLY EFAULT), s, g)
       | Inr bytes \<Rightarrow> do {
           img \<leftarrow> (if len \<noteq> 0 then put_slice (cs_sg_cursor C) bytes (cs_image C) else Some (cs_image C));
           addr \<leftarrow> u64_add (ca_vm_start A) (of_nat (cs_sg_cursor C));
           let bp = bp\<lparr>bo_buffer := addr\<rparr>;
           aligned \<leftarrow> align8 (bo_length bp);
           let target_offset = cs_sg_cursor C;
           let C = C\<lparr>cs_image := img, cs_sg_cursor := cs_sg_cursor C + unat aligned\<rparr>;
           fix \<leftarrow> fixup_parent A index bp C;
           case fix of
             Inl f \<Rightarrow> Some (Inl f, s, g)
           | Inr (parent, img) \<Rightarrow> do {
               obj \<leftarrow> buffer_object_encode bp;
               img \<leftarrow> put_slice off obj img;
               let placed = cs_placed C @ [\<lparr>pl_object_offset = off, pl_target_offset = target_offset,
                 pl_length = len, pl_parent = parent, pl_parent_offset = unat (bo_parent_offset bp)\<rparr>];
               Some (Inr (C\<lparr>cs_image := img, cs_placed := placed,
                            cs_last_obj := Some (length placed - 1), cs_last_min := 0\<rparr>, SkOther, []),
                     s, g) } } } }"

definition copy_object ::
  "'g guest \<Rightarrow> copy_args \<Rightarrow> u32 \<Rightarrow> nat \<Rightarrow> nat \<Rightarrow> byte list \<Rightarrow> copy_state \<Rightarrow> bstate \<Rightarrow> 'g \<Rightarrow> 'g copied" where
  "copy_object G A kind index off object C s g =
     (if kind = BINDER_TYPE_BINDER \<or> kind = BINDER_TYPE_WEAK_BINDER
      then copy_binder_object A kind off object C s g
      else if kind = BINDER_TYPE_HANDLE \<or> kind = BINDER_TYPE_WEAK_HANDLE
      then copy_handle_object A kind off object C s g
      else if kind = BINDER_TYPE_FD then copy_fd_object G A off object C s g
      else if kind = BINDER_TYPE_FDA then copy_fda_object G A index object C s g
      else if kind = BINDER_TYPE_PTR then copy_ptr_object G A index off object C s g
      else None)"

definition object_kind :: "copy_args \<Rightarrow> nat \<Rightarrow> copy_state \<Rightarrow> u32 option" where
  "object_kind A off C =
     (if off mod 4 = 0 then do {
        e \<leftarrow> usize_add off 4;
        if e \<le> ca_data_size A then u32_at (cs_image C) off else Some 0 }
      else Some 0)"

definition push_shadow ::
  "nat \<Rightarrow> shadow_kind \<Rightarrow> node_id list \<Rightarrow> (shadow_parcel \<times> node_id list) option \<Rightarrow>
   (shadow_parcel \<times> node_id list) option" where
  "push_shadow off sk own sh =
     map_option (\<lambda>(parcel, own'). (parcel\<lparr>sp_objects := sp_objects parcel @ [\<lparr>so_offset = off, so_kind = sk\<rparr>]\<rparr>,
                                  own' @ own)) sh"

type_synonym 'g copied_all =
  "((failure + copy_state \<times> (shadow_parcel \<times> node_id list) option) \<times> bstate \<times> 'g) option"

text \<open>The loop over the offsets: \<open>index\<close> is the current one and the count is what remains.\<close>

fun copy_objects ::
  "'g guest \<Rightarrow> copy_args \<Rightarrow> nat \<Rightarrow> nat \<Rightarrow> copy_state \<Rightarrow> (shadow_parcel \<times> node_id list) option \<Rightarrow>
   bstate \<Rightarrow> 'g \<Rightarrow> 'g copied_all" where
  "copy_objects G A index 0 C sh s g = Some (Inr (C, sh), s, g)"
| "copy_objects G A index (Suc n) C sh s g = do {
     at \<leftarrow> u64_at (cs_image C) (ca_off_start A + index * 8);
     let off = unat at;
     kind \<leftarrow> object_kind A off C;
     case object_size kind of
       None \<Rightarrow> Some (Inl fail_inval, s, g)
     | Some sz \<Rightarrow>
       if off < cs_off_min C then Some (Inl fail_inval, s, g)
       else do {
         e \<leftarrow> usize_add off sz;
         if ca_data_size A < e then Some (Inl fail_inval, s, g)
         else do {
           object \<leftarrow> slice off sz (cs_image C);
           (res, s, g) \<leftarrow> copy_object G A kind index off object (C\<lparr>cs_off_min := e\<rparr>) s g;
           case res of
             Inl f \<Rightarrow> Some (Inl f, s, g)
           | Inr (C, sk, own) \<Rightarrow>
               copy_objects G A (index + 1) n C (push_shadow off sk own sh) s g } } }"

definition accepts_fds :: "txn_id \<Rightarrow> txn_id option \<Rightarrow> bstate \<Rightarrow> bool option" where
  "accepts_fds x in_reply_to s =
     (case in_reply_to of
        Some orig \<Rightarrow> do { tx \<leftarrow> mget (s_txns s) orig; Some (x_flags tx AND TF_ACCEPT_FDS \<noteq> 0) }
      | None \<Rightarrow> do {
          tx \<leftarrow> mget (s_txns s) x;
          case x_target_node tx of
            None \<Rightarrow> Some False
          | Some n \<Rightarrow> do { nd \<leftarrow> mget (s_nodes s) n; Some (n_accept_fds nd) } })"

text \<open>Reading the data and the offsets of the transaction into the zeroed image.\<close>

definition read_into ::
  "'g guest \<Rightarrow> u64 \<Rightarrow> nat \<Rightarrow> nat \<Rightarrow> byte list \<Rightarrow> 'g \<Rightarrow> ((failure + byte list) \<times> 'g) option" where
  "read_into G addr at n img g =
     (if n = 0 then Some (Inr img, g)
      else if length img < at + n then None
      else case read_user G addr n g of
        (Inl _, g) \<Rightarrow> Some (Inl (fail BR_FAILED_REPLY EFAULT), g)
      | (Inr bytes, g) \<Rightarrow> Some (Inr (splice at bytes img), g))"

text \<open>The security context goes to the end of the buffer.\<close>

definition place_secctx ::
  "byte list option \<Rightarrow> u64 \<Rightarrow> txn_id \<Rightarrow> byte list \<Rightarrow> bstate \<Rightarrow> (byte list \<times> bstate) option" where
  "place_secctx secctx vm x img s =
     (case secctx of
        None \<Rightarrow> Some (img, s)
      | Some ctx \<Rightarrow> do {
          space \<leftarrow> align8 (of_nat (length ctx));
          at \<leftarrow> usize_sub (length img) (unat space);
          img \<leftarrow> put_slice at ctx img;
          addr \<leftarrow> u64_add vm (of_nat at);
          _ \<leftarrow> mget (s_txns s) x;
          Some (img, upd_txn x (\<lambda>tx. tx\<lparr>x_security_ctx := addr\<rparr>) s) })"

definition copy_transaction ::
  "'g guest \<Rightarrow> proc_id \<Rightarrow> tid \<Rightarrow> proc_id \<Rightarrow> txn_id \<Rightarrow> nat \<Rightarrow> transaction_data \<Rightarrow> u64 \<Rightarrow> byte list option \<Rightarrow>
   txn_id option \<Rightarrow> (gfile \<Rightarrow> file_id option) option \<Rightarrow> bstate \<Rightarrow> 'g \<Rightarrow>
   ((failure + (shadow_parcel \<times> node_id list) option) \<times> bstate \<times> 'g) option" where
  "copy_transaction G p t target x boff tr extra secctx in_reply_to identify s g =
     (let data_size = unat (td_data_size tr); offsets_size = unat (td_offsets_size tr) in
      if offsets_size mod 8 \<noteq> 0 \<or> unat extra mod 8 \<noteq> 0 then Some (Inl fail_inval, s, g)
      else do {
        a \<leftarrow> alloc_of s target;
        b \<leftarrow> mget (buffers a) boff;
        vm \<leftarrow> user_address boff a;
        off_start \<leftarrow> align8 (of_nat data_size);
        off_end \<leftarrow> u64_add off_start (of_nat offsets_size);
        sg_start \<leftarrow> align8 off_end;
        sg_end \<leftarrow> usize_add (unat sg_start) (unat extra);
        (r, g) \<leftarrow> read_into G (td_buffer tr) 0 data_size (replicate (b_size b) 0) g;
        case r of
          Inl f \<Rightarrow> Some (Inl f, s, g)
        | Inr img \<Rightarrow> do {
            (r, g) \<leftarrow> read_into G (td_offsets tr) (unat off_start) offsets_size img g;
            case r of
              Inl f \<Rightarrow> Some (Inl f, s, g)
            | Inr img \<Rightarrow> do {
                let sh = map_option (\<lambda>_. (\<lparr>sp_data = take data_size img, sp_objects = []\<rparr>, [])) identify;
                (img, s) \<leftarrow> place_secctx secctx vm x img s;
                fds \<leftarrow> accepts_fds x in_reply_to s;
                let A = \<lparr>ca_proc = p, ca_tid = t, ca_target = target, ca_buffer = boff,
                  ca_data_size = data_size, ca_off_start = unat off_start, ca_sg_end = sg_end,
                  ca_vm_start = vm, ca_accept_fds = fds, ca_identify = identify\<rparr>;
                let C = \<lparr>cs_image = img, cs_off_min = 0, cs_sg_cursor = unat sg_start, cs_placed = [],
                  cs_last_obj = None, cs_last_min = 0, cs_fixups = []\<rparr>;
                (res, s, g) \<leftarrow> copy_objects G A 0 (offsets_size div 8) C sh s g;
                case res of
                  Inl f \<Rightarrow> Some (Inl f, s, g)
                | Inr (C, sh) \<Rightarrow> do {
                    s \<leftarrow> write_memory target boff (cs_image C) s;
                    _ \<leftarrow> mget (s_txns s) x;
                    Some (Inr sh, upd_txn x (\<lambda>tx. tx\<lparr>x_fixups := cs_fixups C\<rparr>) s, g) } } } })"

section \<open>Tracing and shadowing a sent transaction\<close>

definition available_for_proc_work :: "proc_id \<Rightarrow> tid \<Rightarrow> bstate \<Rightarrow> bool" where
  "available_for_proc_work p t s =
     (case thread_of s p t of None \<Rightarrow> False | Some th \<Rightarrow> t_stack th = None \<and> t_todo th = [])"

text \<open>Reading at most \<open>limit\<close> bytes of the data; nothing when the copy fails.\<close>

definition peek_data :: "'g guest \<Rightarrow> transaction_data \<Rightarrow> nat \<Rightarrow> 'g \<Rightarrow> byte list \<times> 'g" where
  "peek_data G tr limit g =
     (case read_user G (td_buffer tr) (min (unat (td_data_size tr)) limit) g of
        (Inl _, g) \<Rightarrow> ([], g) | (Inr bytes, g) \<Rightarrow> (bytes, g))"

definition trace_sent ::
  "'g guest \<Rightarrow> proc_id \<Rightarrow> tid \<Rightarrow> proc_id \<Rightarrow> txn_id \<Rightarrow> transaction_data \<Rightarrow> bstate \<Rightarrow> 'g \<Rightarrow>
   (bstate \<times> 'g) option" where
  "trace_sent G p t target x tr s g = do {
     let (head, g) = peek_data G tr TOKEN_BYTES g;
     let descr = descriptor head;
     trace \<leftarrow> s_trace s;
     let (data, g) = (if trace_captures descr (td_code tr) trace
       then (let (d, g) = peek_data G tr CAPTURE_BYTES g in (Some d, g)) else (None, g));
     from \<leftarrow> mget (s_procs s) p;
     to \<leftarrow> mget (s_procs s) target;
     ctx \<leftarrow> context_at s (p_context from);
     let r = trace_record_default\<lparr>
       tc_device := c_name ctx,
       tc_from_pid := cr_pid (p_creds from),
       tc_from_euid := cr_euid (p_creds from),
       tc_from_tid := t,
       tc_from_parent := do { th \<leftarrow> mget (p_threads from) t; t_stack th },
       tc_to_pid := cr_pid (p_creds to),
       tc_descriptor := descr,
       tc_code := td_code tr,
       tc_data := data,
       tc_oneway := (td_flags tr AND TF_ONE_WAY \<noteq> 0),
       tc_waiting := length (p_waiting to) + length (filter (\<lambda>(u, th).
         t_looper th AND LOOPER_POLL \<noteq> 0 \<and> available_for_proc_work target u s) (p_threads to)),
       tc_loopers := length (filter (\<lambda>(u, th). is_looper th) (p_threads to))\<rparr>;
     Some (upd_trace (trace_sent_at (s_clock s) x r) s, g) }"

definition shadow_call ::
  "tid \<Rightarrow> proc_id \<Rightarrow> txn_id \<Rightarrow> node_id option \<Rightarrow> transaction_data \<Rightarrow> shadow_parcel \<Rightarrow> bool \<Rightarrow> bstate \<Rightarrow>
   bstate option" where
  "shadow_call t target x target_node tr parcel oneway s = do {
     tx \<leftarrow> mget (s_txns s) x;
     to \<leftarrow> mget (s_procs s) target;
     let copy = \<lparr>sc_seq = 0, sc_node = 0, sc_root = 0, sc_follows = None,
       sc_from_pid = cr_pid (x_sender tx), sc_from_euid = cr_euid (x_sender tx), sc_from_tid = t,
       sc_to_pid = cr_pid (p_creds to), sc_sent = s_clock s, sc_code = td_code tr,
       sc_flags = td_flags tr, sc_data = parcel, sc_reply = SrFailed\<rparr>;
     n \<leftarrow> target_node;
     sh \<leftarrow> s_shadow s;
     sh \<leftarrow> shadow_sent x n copy oneway sh;
     Some (s\<lparr>s_shadow := Some sh\<rparr>) }"

section \<open>Queueing the transaction\<close>

type_synonym 'g outcome = "((failure + unit) \<times> bstate \<times> 'g) option"

text \<open>The reply's part of the trace: its data when the call is captured, and its time.\<close>

definition trace_reply ::
  "'g guest \<Rightarrow> transaction_data \<Rightarrow> txn_id \<Rightarrow> txn_id \<Rightarrow> bstate \<Rightarrow> 'g \<Rightarrow> (bstate \<times> 'g) option" where
  "trace_reply G tr orig x s g =
     (case s_trace s of
        None \<Rightarrow> Some (s, g)
      | Some trace \<Rightarrow> do {
          let (s, g) = (if trace_captured orig trace
            then (case read_user G (td_buffer tr) (min (unat (td_data_size tr)) CAPTURE_BYTES) g of
                    (Inr bytes, g) \<Rightarrow> (upd_trace (trace_reply_data orig bytes) s, g)
                  | (Inl _, g) \<Rightarrow> (s, g))
            else (s, g));
          tx \<leftarrow> mget (s_txns s) orig;
          Some (upd_trace (trace_replied (s_clock s) orig x (x_to_parent tx)) s, g) })"

definition finish_reply ::
  "'g guest \<Rightarrow> proc_id \<Rightarrow> tid \<Rightarrow> transaction_data \<Rightarrow> proc_id \<Rightarrow> tid \<Rightarrow> txn_id \<Rightarrow> txn_id \<Rightarrow> nat \<Rightarrow> work \<Rightarrow>
   (shadow_parcel \<times> node_id list) option \<Rightarrow> bstate \<Rightarrow> 'g \<Rightarrow> 'g outcome" where
  "finish_reply G p t tr target target_tid orig x off complete reply_copy s g =
     (let s = enqueue_thread_work p t complete s in
      if \<not> thread_exists target target_tid s then do {
        let s = remove_last_complete p t s;
        s \<leftarrow> abort_transaction target x off s;
        Some (Inl (fail BR_DEAD_REPLY 0), s, g) }
      else do {
        let s = pop_transaction target target_tid orig s;
        let s = enqueue_thread_work target target_tid (WTransaction x) s;
        pr \<leftarrow> mget (s_procs s) target;
        c \<leftarrow> u32_inc (p_outstanding pr);
        let s = upd_proc target (\<lambda>pr. pr\<lparr>p_outstanding := c\<rparr>) s;
        (s, g) \<leftarrow> trace_reply G tr orig x s g;
        s \<leftarrow> (case reply_copy of
                None \<Rightarrow> Some s
              | Some (parcel, own) \<Rightarrow> do {
                  _ \<leftarrow> s_shadow s;
                  Some (upd_shadow (shadow_replied orig (td_flags tr) parcel own) s) });
        Some (Inr (), free_transaction orig s, g) })"

definition finish_call ::
  "proc_id \<Rightarrow> tid \<Rightarrow> proc_id \<Rightarrow> tid option \<Rightarrow> txn_id \<Rightarrow> nat \<Rightarrow> work \<Rightarrow> bstate \<Rightarrow>
   ((failure + unit) \<times> bstate) option" where
  "finish_call p t target target_thread x off complete s = do {
     let s = enqueue_deferred_thread_work p t complete s;
     th \<leftarrow> thread_of s p t;
     _ \<leftarrow> mget (s_txns s) x;
     let s = upd_txn x (\<lambda>tx. tx\<lparr>x_from_parent := t_stack th\<rparr>) s;
     let s = upd_thread p t (\<lambda>th. th\<lparr>t_stack := Some x\<rparr>) s;
     (res, s) \<leftarrow> proc_transaction x target target_thread s;
     case res of
       Inl cmd \<Rightarrow> do {
         let s = pop_transaction p t x s;
         let s = remove_last_complete p t s;
         s \<leftarrow> abort_transaction target x off s;
         Some (Inl (fail cmd 0), s) }
     | Inr _ \<Rightarrow> Some (Inr (), s) }"

definition finish_oneway ::
  "proc_id \<Rightarrow> tid \<Rightarrow> proc_id \<Rightarrow> txn_id \<Rightarrow> nat \<Rightarrow> work \<Rightarrow> bstate \<Rightarrow> ((failure + unit) \<times> bstate) option" where
  "finish_oneway p t target x off complete s = do {
     (res, s) \<leftarrow> proc_transaction x target None s;
     let s = enqueue_thread_work p t complete s;
     case res of
       Inl cmd \<Rightarrow> do {
         let s = remove_last_complete p t s;
         s \<leftarrow> abort_transaction target x off s;
         Some (Inl (fail cmd 0), s) }
     | Inr _ \<Rightarrow> Some (Inr (), s) }"

section \<open>The transaction\<close>

text \<open>From the resolved target on: the buffer, the copy, tracing, shadowing and queueing.\<close>

definition transaction_to ::
  "'g guest \<Rightarrow> proc_id \<Rightarrow> tid \<Rightarrow> transaction_data \<Rightarrow> bool \<Rightarrow> bool \<Rightarrow> bool \<Rightarrow> credentials \<Rightarrow> u64 \<Rightarrow>
   proc_id \<Rightarrow> tid option \<Rightarrow> node_id option \<Rightarrow> txn_id option \<Rightarrow> bstate \<Rightarrow> 'g \<Rightarrow> 'g outcome" where
  "transaction_to G p t tr reply oneway delegated sender extra target target_thread target_node
     in_reply_to s g = do {
     (begun, s) \<leftarrow> begin_transaction p t tr reply oneway delegated sender extra target target_thread
                     target_node s;
     case begun of
       Inl f \<Rightarrow> Some (Inl f, s, g)
     | Inr (secctx, x, off, suspect) \<Rightarrow> do {
         let identify = do {
           sh \<leftarrow> s_shadow s;
           case in_reply_to of
             Some orig \<Rightarrow> shadow_identify_reply orig sh
           | None \<Rightarrow> shadow_identify target_node sh };
         (copied, s, g) \<leftarrow> copy_transaction G p t target x off tr extra secctx in_reply_to identify s g;
         case copied of
           Inl f \<Rightarrow> do {
             s \<leftarrow> abort_transaction target x off s;
             Some (Inl f, s, g) }
         | Inr shadowed \<Rightarrow> do {
             (s, g) \<leftarrow> (if s_trace s \<noteq> None \<and> \<not> reply then trace_sent G p t target x tr s g
                        else Some (s, g));
             s \<leftarrow> (case shadowed of
                     Some (parcel, own) \<Rightarrow>
                       if reply then Some s else shadow_call t target x target_node tr parcel oneway s
                   | None \<Rightarrow> Some s);
             let complete = (if suspect then WOnewaySpamSuspect else WTransactionComplete);
             if reply then do {
               orig \<leftarrow> in_reply_to;
               target_tid \<leftarrow> target_thread;
               finish_reply G p t tr target target_tid orig x off complete shadowed s g }
             else if \<not> oneway then do {
               (res, s) \<leftarrow> finish_call p t target target_thread x off complete s;
               Some (res, s, g) }
             else do {
               (res, s) \<leftarrow> finish_oneway p t target x off complete s;
               Some (res, s, g) } } } }"

definition transaction_inner ::
  "'g guest \<Rightarrow> proc_id \<Rightarrow> tid \<Rightarrow> transaction_data \<Rightarrow> bool \<Rightarrow> u64 \<Rightarrow> bstate \<Rightarrow> 'g \<Rightarrow>
   ((failure + unit) \<times> txn_id option \<times> bstate \<times> 'g) option" where
  "transaction_inner G p t tr reply extra s g = do {
     let oneway = (\<not> reply \<and> td_flags tr AND TF_ONE_WAY \<noteq> 0);
     (delegated, sender) \<leftarrow> sender_of p t reply s;
     if reply then do {
       (target, in_reply_to, s) \<leftarrow> reply_target p t s;
       case target of
         Inl f \<Rightarrow> Some (Inl f, in_reply_to, s, g)
       | Inr (fp, ft) \<Rightarrow> do {
           (res, s, g) \<leftarrow> transaction_to G p t tr reply oneway delegated sender extra fp (Some ft) None
                            in_reply_to s g;
           Some (res, in_reply_to, s, g) } }
     else do {
       (target, s) \<leftarrow> call_target p t (td_handle tr) oneway s;
       case target of
         Inl f \<Rightarrow> Some (Inl f, None, s, g)
       | Inr (owner, tt, n) \<Rightarrow> do {
           (res, s, g) \<leftarrow> transaction_to G p t tr reply oneway delegated sender extra owner tt (Some n)
                            None s g;
           Some (res, None, s, g) } } }"

definition set_ee :: "u32 \<Rightarrow> u32 \<Rightarrow> i32 \<Rightarrow> thread \<Rightarrow> thread" where
  "set_ee i cmd param th = th\<lparr>t_ee := \<lparr>ee_id = i, ee_command = cmd, ee_param = param\<rparr>\<rparr>"

definition transaction ::
  "'g guest \<Rightarrow> proc_id \<Rightarrow> tid \<Rightarrow> transaction_data \<Rightarrow> bool \<Rightarrow> u64 \<Rightarrow> bstate \<Rightarrow> 'g \<Rightarrow> (bstate \<times> 'g) option" where
  "transaction G p t tr reply extra s g = do {
     (debug_id, s) \<leftarrow> next_id s;
     let s = upd_thread p t (set_ee (of_nat debug_id) BR_OK 0) s;
     (res, in_reply_to, s, g) \<leftarrow> transaction_inner G p t tr reply extra s g;
     case res of
       Inr _ \<Rightarrow> Some (s, g)
     | Inl f \<Rightarrow>
       (case in_reply_to of
          Some orig \<Rightarrow>
            let s = upd_thread p t (\<lambda>th. th\<lparr>t_return_error := Some BR_TRANSACTION_COMPLETE\<rparr>) s;
                s = enqueue_thread_work p t (WReturnError BR_TRANSACTION_COMPLETE ReturnSlot) s
            in Some (send_failed_reply orig (fl_cmd f) s, g)
        | None \<Rightarrow>
            let s = upd_thread p t (\<lambda>th. (set_ee (of_nat debug_id) (fl_cmd f) (fl_param f) th)
                      \<lparr>t_return_error := Some (fl_cmd f)\<rparr>) s
            in Some (enqueue_thread_work p t (WReturnError (fl_cmd f) ReturnSlot) s, g)) }"

section \<open>What a transaction leaves alone\<close>

text \<open>
  \<open>reply_ops\<close>: transactions may be changed and freed, buffers marked and threads changed.
  \<open>free_ops\<close>: buffers may be freed and the receive memory written. \<open>copy_ops\<close>: nodes may be created
  and offered, which is what copying the objects of a transaction takes. \<open>txn_ops\<close>: ids may be drawn,
  buffers allocated and transactions created as well; such a predicate is kept by \<open>transaction\<close>.
\<close>

locale reply_ops = mark_ops +
  assumes txn_upd: "I s \<Longrightarrow> I (upd_txn x tf s)"
    and txn_del: "I s \<Longrightarrow> I (s\<lparr>s_txns := mdel x (s_txns s)\<rparr>)"
    and trace: "I s \<Longrightarrow> I (s\<lparr>s_trace := tc\<rparr>)"
    and thread: "I s \<Longrightarrow> (\<And>th. node_works (t_todo (ht th)) \<subseteq> node_works (t_todo th)) \<Longrightarrow>
      I (upd_thread p t ht s)"
    and outstanding: "I s \<Longrightarrow> I (upd_proc p (\<lambda>pr. pr\<lparr>p_outstanding := ko (p_outstanding pr)\<rparr>) s)"
    and buffer_mark: "I s \<Longrightarrow> (\<And>b. b_size (m b) = b_size b) \<Longrightarrow>
      (\<And>b. b_is_async (m b) = b_is_async b) \<Longrightarrow> I (upd_buffer p off m s)"
begin

lemma upd_trace: "I s \<Longrightarrow> I (upd_trace f s)"
  by (simp add: upd_trace_def trace)

lemma record_object: "I s \<Longrightarrow> I (record_object p off r s)"
  by (simp add: record_object_def buffer_mark)

lemma remove_last_complete: "I s \<Longrightarrow> I (remove_last_complete p t s)"
  by (auto simp: remove_last_complete_def intro!: thread dest: node_works_remove_last [THEN subsetD])

lemma pop_transaction: "I s \<Longrightarrow> I (pop_transaction p t x s)"
  by (simp add: pop_transaction_def Let_def txn_upd thread)

lemma free_transaction: "I s \<Longrightarrow> I (free_transaction x s)"
  by (auto simp: free_transaction_def Let_def intro!: buffer_mark outstanding upd_shadow upd_trace txn_del
      split: option.split)

lemma fail_caller: "I s \<Longrightarrow> I (fail_caller p t x cmd s)"
  by (auto simp: fail_caller_def Let_def intro!: enqueue_thread_work thread pop_transaction
      split: option.split)

lemma send_failed_reply: "I s \<Longrightarrow> I (send_failed_reply x cmd s)"
  by (rule send_failed_reply_induct [where P = "\<lambda>x s s'. I s \<longrightarrow> I s'", THEN mp])
    (auto intro!: free_transaction fail_caller)

lemma cleanup_transaction: "I s \<Longrightarrow> I (cleanup_transaction x cmd s)"
  by (auto simp: cleanup_transaction_def intro!: send_failed_reply free_transaction split: option.split)

end

locale free_ops = reply_ops + ref_ops +
  assumes free: "I s \<Longrightarrow> alloc_of s p = Some a \<Longrightarrow>
      I (upd_proc p (\<lambda>pr. pr\<lparr>p_alloc := Some (snd (free_buf off a))\<rparr>) s)"
    and memory: "I s \<Longrightarrow> mget (s_procs s) p = Some pr \<Longrightarrow> p_receive pr = Some mem \<Longrightarrow>
      length mem' = length mem \<Longrightarrow> I (upd_proc p (\<lambda>pr. pr\<lparr>p_receive := Some mem'\<rparr>) s)"
begin

lemma release_target_node: "I s \<Longrightarrow> I (release_target_node n s)"
  by (simp add: release_target_node_def dec_node split: option.split)

lemma release_objects: "release_objects p rs s = Some s' \<Longrightarrow> I s \<Longrightarrow> I s'"
proof (induction rs arbitrary: s)
  case (Cons r rs)
  then show ?case by (cases r) (auto elim!: bind_Some_elim intro: dec_node dec_ref)
qed simp

lemma next_async: "I s \<Longrightarrow> I (next_async p b s)"
  by (auto simp: next_async_def same_links_def intro!: node_marks wakeup_proc enqueue_proc_work split: option.split list.split)

lemma proc_transaction: "proc_transaction x p tt s = Some (res, s') \<Longrightarrow> I s \<Longrightarrow> I s'"
  by (auto simp: proc_transaction_def Let_def case_prod_beta same_links_def elim!: bind_Some_elim
      intro!: outstanding enqueue_thread_work wakeup_thread enqueue_proc_work node_marks select_thread
      split: if_splits option.splits)

lemma write_memory: "write_memory p off data s = Some s' \<Longrightarrow> I s \<Longrightarrow> I s'"
  by (auto simp: write_memory_def memory_write_def intro!: memory elim!: bind_Some_elim split: if_splits)

lemma clear_freed: "clear_freed p off b s = Some s' \<Longrightarrow> I s \<Longrightarrow> I s'"
  by (auto simp: clear_freed_def memory_clear_def intro!: memory elim!: bind_Some_elim
      split: option.splits if_splits)

lemma free_buffer: "free_buffer p off is_failure G s g = Some (s', g') \<Longrightarrow> I s \<Longrightarrow> I s'"
proof -
  assume fb: "free_buffer p off is_failure G s g = Some (s', g')" and I: "I s"
  show ?thesis
  proof (cases "alloc_of s p")
    case None
    with fb I show ?thesis by (simp add: free_buffer_def)
  next
    case (Some a)
    show ?thesis
    proof (cases "fst (free_buf off a)")
      case None
      with fb I Some show ?thesis by (cases "free_buf off a") (simp add: free_buffer_def)
    next
      case (Some b)
      obtain a' where fr: "free_buf off a = (Some b, a')" using Some by (cases "free_buf off a") auto
      have I1: "I (upd_proc p (\<lambda>pr. pr\<lparr>p_alloc := Some a'\<rparr>) s)"
        using free [OF I \<open>alloc_of s p = Some a\<close>, of off] fr by simp
      obtain s1 where s1: "clear_freed p off b (upd_proc p (\<lambda>pr. pr\<lparr>p_alloc := Some a'\<rparr>) s) = Some s1"
        and rel: "release_objects p (b_objects b) (release_target_node (b_target_node b) (next_async p b
          (case b_txn b of None \<Rightarrow> s1 | Some x \<Rightarrow> upd_txn x (\<lambda>tx. tx\<lparr>x_buffer := None\<rparr>) s1))) = Some s'"
        using fb \<open>alloc_of s p = Some a\<close> fr
        by (auto simp: free_buffer_def Let_def elim!: bind_Some_elim)
      have "I s1" by (rule clear_freed [OF s1 I1])
      then have "I (case b_txn b of None \<Rightarrow> s1 | Some x \<Rightarrow> upd_txn x (\<lambda>tx. tx\<lparr>x_buffer := None\<rparr>) s1)"
        by (simp add: txn_upd split: option.split)
      then show ?thesis by (intro release_objects [OF rel] release_target_node next_async)
    qed
  qed
qed

lemma free_buffer_failed: "free_buffer_failed p off s = Some s' \<Longrightarrow> I s \<Longrightarrow> I s'"
  by (auto simp: free_buffer_failed_def intro: free_buffer)

lemma abort_transaction: "abort_transaction target x off s = Some s' \<Longrightarrow> I s \<Longrightarrow> I s'"
  unfolding abort_transaction_def Let_def
  by (erule free_buffer_failed) (intro txn_del upd_shadow txn_upd)

end
locale copy_ops = free_ops +
  assumes new_node: "new_node p ptr cookie flags s = Some (n, s') \<Longrightarrow> I s \<Longrightarrow> I s'"
    and offer: "new_node q ptr cookie flags s = Some (n, s1) \<Longrightarrow>
      inc_ref_for_node p n strong (Some (q, t)) s1 = Some (rd, s') \<Longrightarrow> I s \<Longrightarrow> I s'"
begin

lemma reply_target: "reply_target p t s = Some (res, r, s') \<Longrightarrow> I s \<Longrightarrow> I s'"
  by (auto simp: reply_target_def Let_def thread elim!: bind_Some_elim
      split: option.splits if_splits prod.splits)

lemma call_target: "call_target p t handle oneway s = Some (res, s') \<Longrightarrow> I s \<Longrightarrow> I s'"
  by (auto simp: call_target_def elim!: bind_Some_elim dest!: inc_node intro!: dec_node
      split: option.splits if_splits sum.splits)

lemma copy_binder_object: "copy_binder_object A kind off object C s g = Some (res, s', g') \<Longrightarrow> I s \<Longrightarrow> I s'"
  by (auto simp: copy_binder_object_def Let_def elim!: bind_Some_elim
      intro!: record_object split: if_splits sum.splits)
    ((erule (2) offer | erule (1) new_node)+)

lemma copy_handle_object: "copy_handle_object A kind off object C s g = Some (res, s', g') \<Longrightarrow> I s \<Longrightarrow> I s'"
  by (auto simp: copy_handle_object_def Let_def elim!: bind_Some_elim
      dest!: inc_node inc_ref_for_node intro!: record_object split: if_splits sum.splits option.splits)

lemma copy_object: "copy_object G A kind index off object C s g = Some (res, s', g') \<Longrightarrow> I s \<Longrightarrow> I s'"
  by (auto simp: copy_object_def copy_fd_object_def copy_fda_object_def copy_ptr_object_def Let_def
      elim!: bind_Some_elim dest!: copy_binder_object copy_handle_object
      split: if_splits sum.splits option.splits prod.splits)

lemma copy_objects: "copy_objects G A index n C sh s g = Some (res, s', g') \<Longrightarrow> I s \<Longrightarrow> I s'"
proof (induction n arbitrary: index C sh s g)
  case (Suc n)
  from Suc.prems show ?case
    by (auto simp: Let_def elim!: bind_Some_elim dest!: Suc.IH copy_object split: option.splits if_splits sum.splits)
qed simp

lemma place_secctx: "place_secctx secctx vm x img s = Some (img', s') \<Longrightarrow> I s \<Longrightarrow> I s'"
  by (auto simp: place_secctx_def elim!: bind_Some_elim intro!: txn_upd split: option.splits)

lemma copy_transaction:
  assumes "copy_transaction G p t target x boff tr extra secctx irt identify s g = Some (res, s', g')" "I s"
  shows "I s'"
  using assms
  by (auto simp: copy_transaction_def Let_def elim!: bind_Some_elim
      dest!: copy_objects place_secctx write_memory intro!: txn_upd split: if_splits sum.splits)

lemma trace_sent: "trace_sent G p t target x tr s g = Some (s', g') \<Longrightarrow> I s \<Longrightarrow> I s'"
  by (auto simp: trace_sent_def Let_def case_prod_beta elim!: bind_Some_elim intro!: upd_trace)

lemma shadow_call: "shadow_call t target x tn tr parcel oneway s = Some s' \<Longrightarrow> I s \<Longrightarrow> I s'"
  by (auto simp: shadow_call_def Let_def elim!: bind_Some_elim intro!: shadow)

lemma trace_reply: "trace_reply G tr orig x s g = Some (s', g') \<Longrightarrow> I s \<Longrightarrow> I s'"
  by (auto simp: trace_reply_def Let_def elim!: bind_Some_elim intro!: upd_trace
      split: option.splits if_splits prod.splits sum.splits)

lemma finish_reply:
  "finish_reply G p t tr target tt orig x off complete rc s g = Some (res, s', g') \<Longrightarrow> I s \<Longrightarrow>
    node_works [complete] = {} \<Longrightarrow> I s'"
  by (auto simp: finish_reply_def Let_def elim!: bind_Some_elim dest!: abort_transaction trace_reply
      intro!: free_transaction upd_shadow remove_last_complete enqueue_thread_work outstanding
        pop_transaction
      split: option.splits if_splits)

lemma finish_call:
  "finish_call p t target tt x off complete s = Some (res, s') \<Longrightarrow> I s \<Longrightarrow>
    node_works [complete] = {} \<Longrightarrow> I s'"
  by (auto simp: finish_call_def Let_def elim!: bind_Some_elim dest!: abort_transaction proc_transaction
      intro!: txn_upd thread enqueue_deferred remove_last_complete pop_transaction
      split: sum.splits)

lemma finish_oneway:
  "finish_oneway p t target x off complete s = Some (res, s') \<Longrightarrow> I s \<Longrightarrow>
    node_works [complete] = {} \<Longrightarrow> I s'"
  by (auto simp: finish_oneway_def Let_def elim!: bind_Some_elim dest!: abort_transaction proc_transaction
      intro!: enqueue_thread_work remove_last_complete split: sum.splits)

end

locale txn_ops = copy_ops +
  assumes alloc: "I s \<Longrightarrow> alloc_of s p = Some a \<Longrightarrow>
      I (upd_proc p (\<lambda>pr. pr\<lparr>p_alloc := Some (snd (allocate data offs extra is_async pid a))\<rparr>) s)"
    and next_id: "next_id s = Some (i, s') \<Longrightarrow> I s \<Longrightarrow> I s'"
    and txn_add: "next_id s = Some (x, s') \<Longrightarrow> I s \<Longrightarrow> I (s'\<lparr>s_txns := mput x tx (s_txns s')\<rparr>)"
begin

lemma allocate_target: "I s \<Longrightarrow> I (snd (allocate_target tr extra oneway pid target s))"
  using alloc by (auto simp: allocate_target_def Let_def case_prod_beta split: option.split)

lemma begin_transaction:
  assumes run: "begin_transaction p t tr reply oneway delegated sender extra target tt tn s = Some (res, s')"
    and I: "I s"
  shows "I s'"
proof -
  have "I s1" if "allocate_target tr e oneway pid target s = (r, s1)" for e pid r s1
    using allocate_target [OF I, of tr e oneway pid target] that by simp
  with run I show ?thesis
    by (auto simp: begin_transaction_def Let_def elim!: bind_Some_elim
        dest!: txn_add intro!: release_target_node buffer_mark
        split: option.splits prod.splits sum.splits)
qed

lemma transaction_to:
  assumes "transaction_to G p t tr reply oneway delegated sender extra target tt tn irt s g = Some (res, s', g')"
    and "I s"
  shows "I s'"
  using assms
  by (auto simp: transaction_to_def Let_def elim!: bind_Some_elim
      dest!: begin_transaction copy_transaction abort_transaction trace_sent shadow_call
        finish_reply finish_call finish_oneway
      split: sum.splits if_splits option.splits)

lemma transaction_inner:
  "transaction_inner G p t tr reply extra s g = Some (res, irt, s', g') \<Longrightarrow> I s \<Longrightarrow> I s'"
  by (auto simp: transaction_inner_def Let_def elim!: bind_Some_elim
      dest!: reply_target call_target transaction_to split: sum.splits if_splits)

lemma transaction: "transaction G p t tr reply extra s g = Some (s', g') \<Longrightarrow> I s \<Longrightarrow> I s'"
  by (auto simp: transaction_def Let_def set_ee_def elim!: bind_Some_elim dest!: next_id transaction_inner
      intro!: thread send_failed_reply enqueue_thread_work split: sum.splits option.splits)

end

text \<open>Predicates that look at neither nodes, handles, queues, transactions nor threads.\<close>

locale state_closed = ref_closed +
  assumes txns: "I s \<Longrightarrow> I (s\<lparr>s_txns := xs\<rparr>)"
    and any_trace: "I s \<Longrightarrow> I (s\<lparr>s_trace := tc\<rparr>)"
    and any_thread: "I s \<Longrightarrow> I (upd_thread p t ht s)"
    and any_outstanding: "I s \<Longrightarrow> I (upd_proc p (\<lambda>pr. pr\<lparr>p_outstanding := ko (p_outstanding pr)\<rparr>) s)"
    and any_buffer_mark: "I s \<Longrightarrow> (\<And>b. b_size (m b) = b_size b) \<Longrightarrow>
      (\<And>b. b_is_async (m b) = b_is_async b) \<Longrightarrow> I (upd_buffer p off m s)"
    and any_free: "I s \<Longrightarrow> alloc_of s p = Some a \<Longrightarrow>
      I (upd_proc p (\<lambda>pr. pr\<lparr>p_alloc := Some (snd (free_buf off a))\<rparr>) s)"
    and any_memory: "I s \<Longrightarrow> mget (s_procs s) p = Some pr \<Longrightarrow> p_receive pr = Some mem \<Longrightarrow>
      length mem' = length mem \<Longrightarrow> I (upd_proc p (\<lambda>pr. pr\<lparr>p_receive := Some mem'\<rparr>) s)"
    and any_alloc: "I s \<Longrightarrow> alloc_of s p = Some a \<Longrightarrow>
      I (upd_proc p (\<lambda>pr. pr\<lparr>p_alloc := Some (snd (allocate data offs extra is_async pid a))\<rparr>) s)"
    and ids: "I s \<Longrightarrow> I (s\<lparr>s_next_id := i\<rparr>)"
    and owned: "I s \<Longrightarrow> I (upd_proc p (\<lambda>pr. pr\<lparr>p_nodes := kn (p_nodes pr)\<rparr>) s)"
begin

lemma draw_id: "next_id s = Some (i, s') \<Longrightarrow> I s \<Longrightarrow> I s'"
  by (auto simp: next_id_def intro!: ids elim!: bind_Some_elim)

lemma any_new_node: "new_node p ptr cookie flags s = Some (n, s') \<Longrightarrow> I s \<Longrightarrow> I s'"
  by (auto simp: new_node_def Let_def elim!: bind_Some_elim dest!: draw_id intro!: nodes owned
      split: option.splits)

end

sublocale state_closed < txn_ops
proof
  show "I s \<Longrightarrow> I (upd_txn x tf s)" for s x tf
    by (simp add: upd_txn_def txns)
  show "new_node q ptr cookie flags s = Some (n, s1) \<Longrightarrow>
      inc_ref_for_node p n strong (Some (q, t)) s1 = Some (rd, s') \<Longrightarrow> I s \<Longrightarrow> I s'"
    for q ptr cookie flags s n s1 p strong t rd s'
    by (blast intro: any_new_node any_inc_ref_for_node)
  show "next_id s = Some (x, s') \<Longrightarrow> I s \<Longrightarrow> I (s'\<lparr>s_txns := mput x tx (s_txns s')\<rparr>)" for s x s' tx
    by (blast intro: txns draw_id)
qed (auto intro: txns any_trace any_thread any_outstanding any_buffer_mark any_free any_memory any_alloc
    draw_id any_new_node)

end
