(* ===== verification/ThreadRead.thy ===== *)
theory ThreadRead
  imports Transaction
begin

text \<open>
  \<open>binder_thread_read\<close>: queued work becomes BR returns
  (\<^verbatim>\<open>src/crates/aim-binder-driver/src/read.rs\<close>). \<open>out\<close> is the byte vector the pass appends to.
  \<open>read_pass\<close> loops until a queue is empty, the room is used up or a work item ends the read. It
  terminates: an item that does not end it either only leaves its queue, or is a transaction that
  can no longer be delivered and is freed; only then does other work get queued.
\<close>

section \<open>Model\<close>

datatype pass = Retry | PassDone

definition has_work :: "proc_id \<Rightarrow> tid \<Rightarrow> bool \<Rightarrow> bstate \<Rightarrow> bool" where
  "has_work p t do_proc_work s =
     (case mget (s_procs s) p of
        None \<Rightarrow> True
      | Some pr \<Rightarrow>
        (case mget (p_threads pr) t of
           None \<Rightarrow> True
         | Some th \<Rightarrow>
             t_process_todo th \<or> t_looper_need_return th \<or> (do_proc_work \<and> p_todo pr \<noteq> [])))"

text \<open>The reference state a node has and the one its owner was told; the report brings the second in
  line with the first.\<close>

definition node_strong :: "node \<Rightarrow> bool" where
  "node_strong nd \<longleftrightarrow> n_internal_strong nd \<noteq> 0 \<or> n_local_strong nd \<noteq> 0"

definition node_weak :: "node \<Rightarrow> bool" where
  "node_weak nd \<longleftrightarrow> n_refs nd \<noteq> [] \<or> n_local_weak nd \<noteq> 0 \<or> node_strong nd"

definition node_report :: "u32 \<Rightarrow> node \<Rightarrow> byte list" where
  "node_report cmd nd = u32_le cmd @ u64_le (n_ptr nd) @ u64_le (n_cookie nd)"

definition node_work :: "proc_id \<Rightarrow> node_id \<Rightarrow> byte list \<Rightarrow> bstate \<Rightarrow> (byte list \<times> bstate) option" where
  "node_work p n out s =
     (case mget (s_nodes s) n of
        None \<Rightarrow> Some (out, s)
      | Some nd \<Rightarrow> do {
          let strong = node_strong nd;
          let weak = node_weak nd;
          nd1 \<leftarrow> (if weak \<and> \<not> n_has_weak nd
                   then do { c \<leftarrow> u32_inc (n_local_weak nd);
                             Some (nd\<lparr>n_has_weak := True, n_pending_weak := True, n_local_weak := c\<rparr>) }
                   else Some nd);
          nd2 \<leftarrow> (if strong \<and> \<not> n_has_strong nd
                   then do { c \<leftarrow> u32_inc (n_local_strong nd);
                             Some (nd1\<lparr>n_has_strong := True, n_pending_strong := True, n_local_strong := c\<rparr>) }
                   else Some nd1);
          let nd3 = (if \<not> strong \<and> n_has_strong nd then nd2\<lparr>n_has_strong := False\<rparr> else nd2);
          let nd4 = (if \<not> weak \<and> n_has_weak nd then nd3\<lparr>n_has_weak := False\<rparr> else nd3);
          let s = upd_node n (\<lambda>_. nd4\<lparr>n_work_queued := None\<rparr>) s;
          let s = (if \<not> weak \<and> \<not> strong
            then remove_node n (upd_proc p (\<lambda>pr. pr\<lparr>p_nodes := mdel (n_ptr nd) (p_nodes pr)\<rparr>) s)
            else s);
          Some (out @
            (if weak \<and> \<not> n_has_weak nd then node_report BR_INCREFS nd else []) @
            (if strong \<and> \<not> n_has_strong nd then node_report BR_ACQUIRE nd else []) @
            (if \<not> strong \<and> n_has_strong nd then node_report BR_RELEASE nd else []) @
            (if \<not> weak \<and> n_has_weak nd then node_report BR_DECREFS nd else []), s) })"

text \<open>\<open>binder_apply_fd_fixups\<close>: the fds installed so far (with whether they came in an array), and
  whether an installation failed.\<close>

fun install_fixups ::
  "'g guest \<Rightarrow> proc_id \<Rightarrow> nat \<Rightarrow> fd_fixup list \<Rightarrow> (u32 \<times> bool) list \<Rightarrow> bstate \<Rightarrow> 'g \<Rightarrow>
   ((u32 \<times> bool) list \<times> bool \<times> bstate \<times> 'g) option" where
  "install_fixups G p off [] done s g = Some (done, False, s, g)"
| "install_fixups G p off (f # fs) done s g =
     (case g_install_file G (ff_file f) g of
        (Inr fd, g) \<Rightarrow> do {
          s \<leftarrow> write_memory p (off + ff_offset f) (u32_le fd) s;
          install_fixups G p off fs (done @ [(fd, ff_in_array f)]) s g }
      | (Inl _, g) \<Rightarrow> Some (done, True, s, g))"

definition delivered_header :: "txn \<Rightarrow> bstate \<Rightarrow> u32 \<times> transaction_data" where
  "delivered_header tx s =
     (let pid = (if x_delegated tx then (if x_from tx \<noteq> None then cr_pid (x_sender tx) else 0)
                 else case do { (fp, _) \<leftarrow> x_from tx; mget (s_procs s) fp } of
                        None \<Rightarrow> 0 | Some pr \<Rightarrow> cr_pid (p_creds pr));
          tr = transaction_data_default\<lparr>td_code := x_code tx, td_flags := x_flags tx,
                 td_sender_euid := x_sender_euid tx, td_sender_pid := pid\<rparr>
      in case do { n \<leftarrow> x_target_node tx; mget (s_nodes s) n } of
           Some nd \<Rightarrow> (BR_TRANSACTION, tr\<lparr>td_target := n_ptr nd, td_cookie := n_cookie nd\<rparr>)
         | None \<Rightarrow> (BR_REPLY, tr))"

definition deliver_failed ::
  "'g guest \<Rightarrow> proc_id \<Rightarrow> txn_id \<Rightarrow> nat \<Rightarrow> u32 \<Rightarrow> (u32 \<times> bool) list \<Rightarrow> byte list \<Rightarrow> bstate \<Rightarrow> 'g \<Rightarrow>
   (bool \<times> byte list \<times> bstate \<times> 'g) option" where
  "deliver_failed G p x off cmd installed out s g = do {
     let g = fold (\<lambda>(fd, _). g_close_fd G fd) installed g;
     let s = upd_buffer p off (\<lambda>b. b\<lparr>b_txn := None\<rparr>) s;
     let s = cleanup_transaction x BR_FAILED_REPLY s;
     s \<leftarrow> free_buffer_failed p off s;
     if cmd = BR_REPLY then Some (True, out @ u32_le BR_FAILED_REPLY, s, g)
     else Some (False, out, s, g) }"

definition deliver_transaction ::
  "'g guest \<Rightarrow> proc_id \<Rightarrow> tid \<Rightarrow> txn_id \<Rightarrow> byte list \<Rightarrow> bstate \<Rightarrow> 'g \<Rightarrow>
   (bool \<times> byte list \<times> bstate \<times> 'g) option" where
  "deliver_transaction G p t x out s g =
     (case mget (s_txns s) x of
        None \<Rightarrow> Some (False, out, s, g)
      | Some tx \<Rightarrow>
        (case x_buffer tx of
           None \<Rightarrow> Some (False, out, cleanup_transaction x BR_DEAD_REPLY s, g)
         | Some off \<Rightarrow> do {
             let (cmd, tr) = delivered_header tx s;
             let s = upd_txn x (\<lambda>tx. tx\<lparr>x_fixups := []\<rparr>) s;
             pr \<leftarrow> mget (s_procs s) p;
             _ \<leftarrow> p_receive pr;
             (installed, failed, s, g) \<leftarrow> install_fixups G p off (x_fixups tx) [] s g;
             if failed then deliver_failed G p x off cmd installed out s g
             else do {
               a \<leftarrow> alloc_of s p;
               b \<leftarrow> mget (buffers a) off;
               addr \<leftarrow> user_address off a;
               aligned \<leftarrow> align8 (of_nat (b_data_size b));
               offs \<leftarrow> u64_add addr aligned;
               let tr = tr\<lparr>td_data_size := of_nat (b_data_size b),
                           td_offsets_size := of_nat (b_offsets_size b),
                           td_buffer := addr, td_offsets := offs\<rparr>;
               let secctx = x_security_ctx tx;
               let cmd = (if secctx \<noteq> 0 then BR_TRANSACTION_SEC_CTX else cmd);
               bytes \<leftarrow> transaction_data_encode tr;
               let out = out @ u32_le cmd @ bytes @
                 (if cmd = BR_TRANSACTION_SEC_CTX then u64_le secctx else []);
               let s = upd_buffer p off (\<lambda>b. b\<lparr>b_allow_user_free := True,
                 b_fda_fds := map fst (filter snd installed)\<rparr>) s;
               let s = upd_trace (if cmd = BR_REPLY then trace_returned (s_clock s) x
                                  else trace_delivered (s_clock s) x t) s;
               s \<leftarrow> (if cmd \<noteq> BR_REPLY \<and> \<not> is_oneway tx
                      then do {
                        th \<leftarrow> thread_of s p t;
                        _ \<leftarrow> mget (s_txns s) x;
                        let s = upd_txn x (\<lambda>tx. tx\<lparr>x_to_parent := t_stack th, x_to_thread := Some t\<rparr>) s;
                        Some (upd_thread p t (\<lambda>th. th\<lparr>t_stack := Some x\<rparr>) s) }
                      else Some (free_transaction x s));
               _ \<leftarrow> buffer_of s p off;
               let s = upd_buffer p off (\<lambda>b. b\<lparr>b_delivery := Some (t, x)\<rparr>) s;
               Some (True, out, s, g_delivered G addr x g) } }))"

text \<open>One work item: whether the read ends, and what was written.\<close>

fun do_work ::
  "'g guest \<Rightarrow> proc_id \<Rightarrow> tid \<Rightarrow> work \<Rightarrow> byte list \<Rightarrow> bstate \<Rightarrow> 'g \<Rightarrow>
   (bool \<times> byte list \<times> bstate \<times> 'g) option" where
  "do_work G p t (WTransaction x) out s g = deliver_transaction G p t x out s g"
| "do_work G p t (WReturnError cmd slot) out s g = do {
     _ \<leftarrow> thread_of s p t;
     let s = upd_thread p t (\<lambda>th. case slot of
       ReturnSlot \<Rightarrow> th\<lparr>t_return_error := None\<rparr> | ReplySlot \<Rightarrow> th\<lparr>t_reply_error := None\<rparr>) s;
     Some (False, out @ u32_le cmd, s, g) }"
| "do_work G p t WTransactionComplete out s g =
     Some (False, out @ u32_le BR_TRANSACTION_COMPLETE, s, g)"
| "do_work G p t WOnewaySpamSuspect out s g = do {
     pr \<leftarrow> mget (s_procs s) p;
     Some (False, out @ u32_le (if p_spam_detection pr then BR_ONEWAY_SPAM_SUSPECT
                                else BR_TRANSACTION_COMPLETE), s, g) }"
| "do_work G p t (WNode n) out s g = do {
     (out, s) \<leftarrow> node_work p n out s;
     Some (False, out, s, g) }"
| "do_work G p t (WDeath d) out s g =
     (case mget (s_deaths s) d of
        None \<Rightarrow> Some (False, out, s, g)
      | Some de \<Rightarrow>
        if d_state de = Clear
        then Some (False, out @ u32_le BR_CLEAR_DEATH_NOTIFICATION_DONE @ u64_le (d_cookie de),
                   s\<lparr>s_deaths := mdel d (s_deaths s)\<rparr>, g)
        else do {
          _ \<leftarrow> mget (s_procs s) p;
          let s = upd_death d (\<lambda>de. de\<lparr>d_location := Some Delivered\<rparr>) s;
          let s = upd_proc p (\<lambda>pr. pr\<lparr>p_delivered_death := p_delivered_death pr @ [d]\<rparr>) s;
          Some (True, out @ u32_le BR_DEAD_BINDER @ u64_le (d_cookie de), s, g) })"

definition room_for_files :: "'g guest \<Rightarrow> work \<Rightarrow> bstate \<Rightarrow> 'g \<Rightarrow> bool \<times> 'g" where
  "room_for_files G w s g =
     (case w of
        WTransaction x \<Rightarrow>
          (case mget (s_txns s) x of
             Some tx \<Rightarrow> if x_fixups tx \<noteq> [] then g_can_install G (length (x_fixups tx)) g else (True, g)
           | None \<Rightarrow> (True, g))
      | _ \<Rightarrow> (True, g))"

definition pop_work :: "proc_id \<Rightarrow> tid \<Rightarrow> bool \<Rightarrow> bstate \<Rightarrow> bstate" where
  "pop_work p t from_thread s =
     (let s = (if from_thread then upd_thread p t (\<lambda>th. th\<lparr>t_todo := tl (t_todo th)\<rparr>) s
               else upd_proc p (\<lambda>pr. pr\<lparr>p_todo := tl (p_todo pr)\<rparr>) s)
      in upd_thread p t (\<lambda>th. if t_todo th = [] then th\<lparr>t_process_todo := False\<rparr> else th) s)"

section \<open>Progress of a read\<close>

definition txn_ids :: "bstate \<Rightarrow> txn_id set" where
  "txn_ids s = set (mkeys (s_txns s))"

lemma finite_txn_ids [simp]: "finite (txn_ids s)"
  by (simp add: txn_ids_def)

lemma txn_ids_iff: "x \<in> txn_ids s \<longleftrightarrow> mget (s_txns s) x \<noteq> None"
  by (simp only: txn_ids_def mget_in_keys)

lemma txn_ids_upd [simp]: "txn_ids (upd_txn x f s) = txn_ids s"
  by (simp add: txn_ids_def upd_txn_def)

lemma txn_ids_cong: "s_txns s' = s_txns s \<Longrightarrow> txn_ids s' = txn_ids s"
  by (simp add: txn_ids_def)

lemma txn_ids_free_transaction [simp]: "txn_ids (free_transaction x s) = txn_ids s - {x}"
  by (simp add: txn_ids_def s_txns_free_transaction)

interpretation txn_frame: ref_closed "\<lambda>s. s_txns s = T" for T
  by unfold_locales simp_all

interpretation txn_within_refs: ref_closed "\<lambda>s. txn_ids s \<subseteq> X" for X
  by unfold_locales (simp_all add: txn_ids_def)

lemma txn_ids_new_node: "new_node p ptr cookie flags s = Some (n, s') \<Longrightarrow> txn_ids s' = txn_ids s"
  unfolding txn_ids_def
  by (rule arg_cong [where f = "\<lambda>m. set (mkeys m)"])
    (auto simp: new_node_def next_id_def Let_def elim!: bind_Some_elim split: option.splits)

interpretation txn_within: copy_ops "\<lambda>s. txn_ids s \<subseteq> X" for X
proof
  show "txn_ids s' \<subseteq> X" if "new_node q ptr cookie flags s = Some (n, s1)"
    "inc_ref_for_node p n strong (Some (q, t)) s1 = Some (rd, s')" "txn_ids s \<subseteq> X"
    for q ptr cookie flags s n s1 p strong t rd s'
    using txn_within_refs.any_inc_ref_for_node [OF that(2)] that(3) txn_ids_new_node [OF that(1)] by simp
qed (auto simp: txn_ids_new_node, auto simp: txn_ids_def upd_txn_def)

lemma txn_ids_fail_caller: "txn_ids (fail_caller p t x cmd s) \<subseteq> txn_ids s"
  using txn_within.fail_caller [of s "txn_ids s"] by simp

lemma send_failed_reply_ids: "txn_ids (send_failed_reply x cmd s) \<subseteq> txn_ids s - {x}"
proof (rule send_failed_reply_induct [where P = "\<lambda>x s s'. txn_ids s' \<subseteq> txn_ids s - {x}"])
  show "txn_ids s \<subseteq> txn_ids s - {x}" if "mget (s_txns s) x = None" for x s
    using that by (auto simp: txn_ids_iff)
qed (auto dest: txn_ids_fail_caller [THEN subsetD])

lemma cleanup_transaction_ids: "txn_ids (cleanup_transaction x cmd s) \<subseteq> txn_ids s - {x}"
  using send_failed_reply_ids [of x cmd s] txn_ids_iff [of x s]
  by (auto simp: cleanup_transaction_def split: option.splits)

text \<open>An undelivered transaction that does not end the read is gone.\<close>

lemma install_fixups_ids:
  "install_fixups G p off fs done s g = Some (installed, failed, s', g') \<Longrightarrow> s_txns s' = s_txns s"
proof (induction G p off fs "done" s g rule: install_fixups.induct)
  case (2 G p off f fs "done" s g)
  then show ?case
    by (auto simp: write_memory_def elim!: bind_Some_elim split: prod.splits sum.splits)
qed simp

lemma deliver_transaction_ids:
  assumes "deliver_transaction G p t x out s g = Some (False, out', s', g')"
  shows "s' = s \<or> x \<in> txn_ids s \<and> txn_ids s' \<subseteq> txn_ids s - {x}"
proof (cases "mget (s_txns s) x")
  case None
  with assms show ?thesis by (simp add: deliver_transaction_def)
next
  case (Some tx)
  then have x: "x \<in> txn_ids s" by (simp add: txn_ids_iff)
  show ?thesis
  proof (cases "x_buffer tx")
    case None
    with assms Some x cleanup_transaction_ids [of x BR_DEAD_REPLY s] show ?thesis
      by (auto simp: deliver_transaction_def)
  next
    case (Some off)
    from assms \<open>mget (s_txns s) x = Some tx\<close> Some obtain installed s1 g1 cmd where
      inst: "install_fixups G p off (x_fixups tx) [] (upd_txn x (\<lambda>tx. tx\<lparr>x_fixups := []\<rparr>) s) g =
        Some (installed, True, s1, g1)"
      and fl: "deliver_failed G p x off cmd installed out s1 g1 = Some (False, out', s', g')"
      by (auto simp: deliver_transaction_def Let_def elim!: bind_Some_elim
          split: prod.splits if_splits)
    have "txn_ids s1 = txn_ids s" using install_fixups_ids [OF inst] by (simp add: txn_ids_def upd_txn_def)
    then have sub: "txn_ids (cleanup_transaction x BR_FAILED_REPLY
        (upd_buffer p off (\<lambda>b. b\<lparr>b_txn := None\<rparr>) s1)) \<subseteq> txn_ids s - {x}"
      using cleanup_transaction_ids [of x BR_FAILED_REPLY "upd_buffer p off (\<lambda>b. b\<lparr>b_txn := None\<rparr>) s1"]
      by (simp add: txn_ids_def)
    from fl have "free_buffer_failed p off (cleanup_transaction x BR_FAILED_REPLY
        (upd_buffer p off (\<lambda>b. b\<lparr>b_txn := None\<rparr>) s1)) = Some s'"
      by (auto simp: deliver_failed_def Let_def elim!: bind_Some_elim split: if_splits)
    with sub x show ?thesis using txn_within.free_buffer_failed by blast
  qed
qed

text \<open>What is queued for a thread of a process.\<close>

definition queued :: "proc_id \<Rightarrow> tid \<Rightarrow> bstate \<Rightarrow> nat" where
  "queued p t s =
     (case mget (s_procs s) p of
        None \<Rightarrow> 0
      | Some pr \<Rightarrow> length (p_todo pr) +
          (case mget (p_threads pr) t of None \<Rightarrow> 0 | Some th \<Rightarrow> length (t_todo th)))"

lemma queued_upd_thread:
  "(\<And>th. t_todo (f th) = t_todo th) \<Longrightarrow> queued p t (upd_thread p' t' f s) = queued p t s"
  by (auto simp: queued_def upd_thread_def upd_proc_def split: option.splits)

lemma queued_upd_proc:
  "(\<And>pr. p_todo (f pr) = p_todo pr) \<Longrightarrow> (\<And>pr. p_threads (f pr) = p_threads pr) \<Longrightarrow>
    queued p t (upd_proc p' f s) = queued p t s"
  by (auto simp: queued_def upd_proc_def split: option.splits)

lemma queued_cong: "s_procs s' = s_procs s \<Longrightarrow> queued p t s' = queued p t s"
  by (simp add: queued_def)

lemma node_work_frame:
  assumes "node_work p n out s = Some (out', s')"
  shows "s_txns s' = s_txns s" "queued q t s' = queued q t s"
proof -
  have q: "queued q t (upd_node n f s) = queued q t s" "queued q t (remove_node n s) = queued q t s" for n f s
    by (simp_all add: upd_node_def remove_node_def upd_shadow_def queued_def)
  show "s_txns s' = s_txns s" using assms
    by (auto simp: node_work_def Let_def remove_node_def elim!: bind_Some_elim split: option.splits if_splits)
  show "queued q t s' = queued q t s" using assms
    by (auto simp: node_work_def Let_def q queued_upd_proc elim!: bind_Some_elim
        split: option.splits if_splits)
qed

lemma do_work_progress:
  assumes "do_work G p t w out s g = Some (False, out', s', g')"
  shows "card (txn_ids s') < card (txn_ids s) \<or> txn_ids s' = txn_ids s \<and> queued p t s' = queued p t s"
proof (cases w)
  case (WTransaction x)
  then consider "s' = s" | "x \<in> txn_ids s" "txn_ids s' \<subseteq> txn_ids s - {x}"
    using assms deliver_transaction_ids [of G p t x out s g out' s' g'] by auto
  then show ?thesis
  proof cases
    case 2
    then have "txn_ids s' \<subset> txn_ids s" by auto
    then show ?thesis by (simp add: psubset_card_mono)
  qed simp
next
  case (WReturnError cmd slot)
  then show ?thesis using assms
    by (auto simp: queued_upd_thread txn_ids_def Let_def elim!: bind_Some_elim split: error_slot.splits)
next
  case (WNode n)
  then show ?thesis using assms
    by (auto dest: node_work_frame txn_ids_cong elim!: bind_Some_elim)
next
  case (WDeath d)
  then show ?thesis using assms
    by (auto simp: txn_ids_def queued_def Let_def elim!: bind_Some_elim split: option.splits if_splits)
qed (use assms in \<open>auto elim!: bind_Some_elim\<close>)

lemma pop_work_queued:
  assumes "mget (s_procs s) p = Some pr" "mget (p_threads pr) t = Some th"
    and "t_todo th \<noteq> [] \<or> p_todo pr \<noteq> []"
  shows "queued p t (pop_work p t (t_todo th \<noteq> []) s) < queued p t s"
proof -
  have "queued p t (upd_thread p t (\<lambda>th. if t_todo th = [] then th\<lparr>t_process_todo := False\<rparr> else th) s1) =
      queued p t s1" for s1
    by (rule queued_upd_thread) simp
  with assms show ?thesis
    by (auto simp: pop_work_def Let_def queued_def upd_thread_def upd_proc_def neq_Nil_conv)
qed

lemma txn_ids_pop_work [simp]: "txn_ids (pop_work p t b s) = txn_ids s"
  by (simp add: pop_work_def Let_def txn_ids_def)

section \<open>The read\<close>

function read_pass ::
  "'g guest \<Rightarrow> proc_id \<Rightarrow> tid \<Rightarrow> bool \<Rightarrow> nat \<Rightarrow> nat \<Rightarrow> byte list \<Rightarrow> bstate \<Rightarrow> 'g \<Rightarrow>
   (pass \<times> byte list \<times> bstate \<times> 'g) option" where
  "read_pass G p t wait_for_proc_work start capacity out s g =
     (case mget (s_procs s) p of
        None \<Rightarrow> Some (PassDone, out, s, g)
      | Some pr \<Rightarrow>
        (case mget (p_threads pr) t of
           None \<Rightarrow> Some (PassDone, out, s, g)
         | Some th \<Rightarrow>
           if t_todo th = [] \<and> (p_todo pr = [] \<or> \<not> wait_for_proc_work) then
             Some (if start + length out = 4 \<and> \<not> t_looper_need_return th then Retry else PassDone,
                   out, s, g)
           else
             Option.bind (usize_sub capacity (start + length out)) (\<lambda>room.
               if room < TRANSACTION_DATA_SECCTX_SIZE + 4 then Some (PassDone, out, s, g)
               else
                 let w = hd (if t_todo th \<noteq> [] then t_todo th else p_todo pr);
                     (can, g) = room_for_files G w s g
                 in if \<not> can then Some (PassDone, out, s, g)
                    else Option.bind (do_work G p t w out (pop_work p t (t_todo th \<noteq> []) s) g)
                      (\<lambda>(stop, out, s, g).
                        if stop then Some (PassDone, out, s, g)
                        else read_pass G p t wait_for_proc_work start capacity out s g))))"
  by pat_completeness auto

termination
proof (relation "measures [\<lambda>(G, p, t, w, start, capacity, out, s, g). card (txn_ids s),
    \<lambda>(G, p, t, w, start, capacity, out, s, g). queued p t s]", goal_cases)
  case 1
  show ?case by simp
next
  case (2 G p t w start capacity out s g pr th room work ca can g1 r stop rest out1 rest' s1 g2)
  have "queued p t (pop_work p t (t_todo th \<noteq> []) s) < queued p t s"
    using 2 by (intro pop_work_queued) auto
  with do_work_progress [of G p t work out "pop_work p t (t_todo th \<noteq> []) s" g1 out1 s1 g2] 2
  show ?case by auto
qed

declare read_pass.simps [simp del]

text \<open>A pass gives up at once, or does the first item and ends or goes on.\<close>

lemma read_pass_rule [consumes 1, case_names quit item]:
  assumes "read_pass G p t w start capacity out s g = Some r"
    and quit: "\<And>pass out s g g'. (pass = Retry \<Longrightarrow> start + length out = 4) \<Longrightarrow> P out s g (pass, out, s, g')"
    and item: "\<And>out s g pr th g1 stop out1 s1 g2 r.
      mget (s_procs s) p = Some pr \<Longrightarrow> mget (p_threads pr) t = Some th \<Longrightarrow>
      t_todo th \<noteq> [] \<or> w \<and> p_todo pr \<noteq> [] \<Longrightarrow>
      start + length out + (TRANSACTION_DATA_SECCTX_SIZE + 4) \<le> capacity \<Longrightarrow>
      do_work G p t (hd (if t_todo th \<noteq> [] then t_todo th else p_todo pr)) out
        (pop_work p t (t_todo th \<noteq> []) s) g1 = Some (stop, out1, s1, g2) \<Longrightarrow>
      (if stop then r = (PassDone, out1, s1, g2) else P out1 s1 g2 r) \<Longrightarrow> P out s g r"
  shows "P out s g r"
  using assms
proof (induction G p t w start capacity out s g rule: read_pass.induct)
  case (1 G p t w start capacity out s g)
  note run = "1.prems"(1) and quit = "1.prems"(2) and item = "1.prems"(3)
  show ?case
  proof (cases "\<exists>pr th. mget (s_procs s) p = Some pr \<and> mget (p_threads pr) t = Some th")
    case True
    then obtain pr th where pr: "mget (s_procs s) p = Some pr" and th: "mget (p_threads pr) t = Some th"
      by auto
    let ?w = "hd (if t_todo th \<noteq> [] then t_todo th else p_todo pr)"
    obtain can g1 where rf: "room_for_files G ?w s g = (can, g1)" by (cases "room_for_files G ?w s g")
    show ?thesis
    proof (cases "(t_todo th = [] \<and> (p_todo pr = [] \<or> \<not> w)) \<or>
        capacity < start + length out + (TRANSACTION_DATA_SECCTX_SIZE + 4) \<or> \<not> can")
      case True
      with run pr th rf show ?thesis
        by (subst (asm) read_pass.simps)
          (auto simp: Let_def intro!: quit split: if_splits elim!: bind_Some_elim)
    next
      case False
      with run pr th rf obtain stop out1 s1 g2 where
        work: "do_work G p t ?w out (pop_work p t (t_todo th \<noteq> []) s) g1 = Some (stop, out1, s1, g2)"
        and rest: "(if stop then Some (PassDone, out1, s1, g2)
          else read_pass G p t w start capacity out1 s1 g2) = Some r"
        by (subst (asm) read_pass.simps) (auto simp: Let_def split: if_splits elim!: bind_Some_elim)
      have "if stop then r = (PassDone, out1, s1, g2) else P out1 s1 g2 r"
        using "1.IH" [OF pr th] False rf work rest quit item by (auto split: if_splits)
      then show ?thesis by (rule item [OF pr th _ _ work, rotated -1]) (use False in auto)
    qed
  next
    case False
    with run show ?thesis by (subst (asm) read_pass.simps) (auto intro!: quit split: option.splits)
  qed
qed

definition should_spawn_looper :: "proc_id \<Rightarrow> tid \<Rightarrow> bstate \<Rightarrow> bool \<times> bstate" where
  "should_spawn_looper p t s =
     (case mget (s_procs s) p of
        None \<Rightarrow> (False, s)
      | Some pr \<Rightarrow>
        let registered = (case mget (p_threads pr) t of None \<Rightarrow> False | Some th \<Rightarrow> is_looper th) in
        if p_requested pr = 0 \<and> p_waiting pr = [] \<and> p_started pr < p_max_threads pr \<and> registered
        then (True, upd_proc p (\<lambda>pr. pr\<lparr>p_requested := p_requested pr + 1\<rparr>) s)
        else (False, s))"

section \<open>What a read leaves alone\<close>

definition proc_nodes :: "bproc \<Rightarrow> node_id set" where
  "proc_nodes pr = node_works (p_todo pr) \<union>
     {n. \<exists>t th. mget (p_threads pr) t = Some th \<and> n \<in> node_works (t_todo th)}"

definition queue_nodes :: "proc_id \<Rightarrow> bstate \<Rightarrow> node_id set" where
  "queue_nodes p s = (case mget (s_procs s) p of None \<Rightarrow> {} | Some pr \<Rightarrow> proc_nodes pr)"

text \<open>\<open>read_ops\<close>: reporting a node to a process whose queue asks for it may happen as well.\<close>

locale read_ops = free_ops +
  assumes report: "n \<in> queue_nodes p s \<Longrightarrow>
    node_work p n out (pop_work p t from_thread s) = Some (out', s') \<Longrightarrow> I s \<Longrightarrow> I s'"
begin

lemma pop_work: "I s \<Longrightarrow> I (pop_work p t from_thread s)"
  by (auto simp: pop_work_def Let_def still_proc_def intro!: thread proc_queue
      dest: node_works_tl [THEN subsetD] split: if_splits)

lemma install_fixups:
  "install_fixups G p off fs fds s g = Some (installed, failed, s', g') \<Longrightarrow> I s \<Longrightarrow> I s'"
proof (induction fs arbitrary: fds s g)
  case (Cons f fs)
  from Cons.prems show ?case
    by (auto elim!: bind_Some_elim dest!: write_memory Cons.IH split: prod.splits sum.splits)
qed simp

lemma deliver_failed:
  "deliver_failed G p x off cmd installed out s g = Some (stop, out', s', g') \<Longrightarrow> I s \<Longrightarrow> I s'"
  by (auto simp: deliver_failed_def Let_def elim!: bind_Some_elim dest!: free_buffer_failed
      intro!: cleanup_transaction buffer_mark split: if_splits)

lemma deliver_transaction:
  "deliver_transaction G p t x out s g = Some (stop, out', s', g') \<Longrightarrow> I s \<Longrightarrow> I s'"
  by (auto simp: deliver_transaction_def Let_def elim!: bind_Some_elim
      dest!: install_fixups deliver_failed
      intro!: cleanup_transaction txn_upd buffer_mark thread upd_trace free_transaction
      split: option.splits prod.splits if_splits)

lemma do_work:
  assumes "do_work G p t w out (pop_work p t b s) g = Some (stop, out', s', g')"
    and "I s" "\<And>n. w = WNode n \<Longrightarrow> n \<in> queue_nodes p s"
  shows "I s'"
proof (cases w)
  case (WNode n)
  with assms show ?thesis by (auto elim!: bind_Some_elim intro: report)
qed (use assms pop_work [OF assms(2), of p t b] in
  \<open>auto simp: Let_def elim!: bind_Some_elim dest!: deliver_transaction
    intro!: thread deaths delivered upd_death split: option.splits if_splits error_slot.splits\<close>)

lemma read_pass:
  assumes "read_pass G p t w start capacity out s g = Some (res, out', s', g')" "I s"
  shows "I s'"
proof -
  have "I s \<longrightarrow> I (fst (snd (snd (res, out', s', g'))))"
  proof (rule read_pass_rule [OF assms(1), where P = "\<lambda>out s g r. I s \<longrightarrow> I (fst (snd (snd r)))"])
    fix out s g and pr :: bproc and th :: thread and g1 stop out1 s1 g2 r
    let ?w = "hd (if t_todo th \<noteq> [] then t_todo th else p_todo pr)"
    assume pr: "mget (s_procs s) p = Some pr" and th: "mget (p_threads pr) t = Some th"
      and some: "t_todo th \<noteq> [] \<or> w \<and> p_todo pr \<noteq> []"
      and work: "do_work G p t ?w out (pop_work p t (t_todo th \<noteq> []) s) g1 = Some (stop, out1, s1, g2)"
      and rest: "if stop then r = (PassDone, out1, s1, g2) else I s1 \<longrightarrow> I (fst (snd (snd r)))"
    have "?w \<in> set (t_todo th) \<or> ?w \<in> set (p_todo pr)"
      using some by (cases "t_todo th") auto
    then have "n \<in> queue_nodes p s" if "?w = WNode n" for n
      using that pr th unfolding queue_nodes_def proc_nodes_def node_works_def by auto
    then show "I s \<longrightarrow> I (fst (snd (snd r)))"
      using do_work [OF work] rest by (auto split: if_splits)
  qed simp
  with assms(2) show ?thesis by simp
qed

end

end
