(* ===== verification/ThreadWrite.thy ===== *)
theory ThreadWrite
  imports ThreadRead
begin

text \<open>
  \<open>binder_thread_write\<close>: the BC command stream
  (\<^verbatim>\<open>src/crates/aim-binder-driver/src/write.rs\<close>). \<open>execute_command\<close> is the source's \<open>match\<close>; its
  longer arms are definitions of their own (\<open>refs_command\<close>, \<open>refs_done_command\<close>,
  \<open>free_buffer_command\<close>, \<open>death_command\<close>, \<open>dead_binder_done\<close> and the looper commands).
\<close>

section \<open>Model\<close>

type_synonym 'g commanded = "(unit result \<times> bstate \<times> 'g) option"

definition refs_command :: "proc_id \<Rightarrow> u32 \<Rightarrow> byte list \<Rightarrow> bstate \<Rightarrow> (unit result \<times> bstate) option" where
  "refs_command p cmd payload s = do {
     target \<leftarrow> u32_at payload 0;
     let strong = (cmd = BC_ACQUIRE \<or> cmd = BC_RELEASE);
     let increment = (cmd = BC_INCREFS \<or> cmd = BC_ACQUIRE);
     mgr \<leftarrow> (if increment \<and> target = 0
               then do { pr \<leftarrow> mget (s_procs s) p; c \<leftarrow> context_at s (p_context pr); Some (c_mgr_node c) }
               else Some None);
     case mgr of
       None \<Rightarrow> do {
         (_, s) \<leftarrow> update_ref_for_handle p target increment strong s;
         Some (Inr (), s) }
     | Some m \<Rightarrow> do {
         nd \<leftarrow> mget (s_nodes s) m;
         if n_proc nd = Some p then Some (Inl EINVAL, s)
         else do {
           (res, s) \<leftarrow> inc_ref_for_node p m strong None s;
           case res of
             Inr _ \<Rightarrow> Some (Inr (), s)
           | Inl _ \<Rightarrow> do {
               (_, s) \<leftarrow> update_ref_for_handle p target increment strong s;
               Some (Inr (), s) } } } }"

definition refs_done_command :: "proc_id \<Rightarrow> u32 \<Rightarrow> byte list \<Rightarrow> bstate \<Rightarrow> bstate option" where
  "refs_done_command p cmd payload s = do {
     ptr \<leftarrow> u64_at payload 0;
     cookie \<leftarrow> u64_at payload 8;
     pr \<leftarrow> mget (s_procs s) p;
     case mget (p_nodes pr) ptr of
       None \<Rightarrow> Some s
     | Some n \<Rightarrow> do {
         nd \<leftarrow> mget (s_nodes s) n;
         let strong = (cmd = BC_ACQUIRE_DONE);
         if n_cookie nd \<noteq> cookie then Some s
         else if \<not> (if strong then n_pending_strong nd else n_pending_weak nd) then Some s
         else Some (dec_node n strong False
           (upd_node n (\<lambda>nd. if strong then nd\<lparr>n_pending_strong := False\<rparr>
                             else nd\<lparr>n_pending_weak := False\<rparr>) s)) } }"

definition free_buffer_command ::
  "'g guest \<Rightarrow> proc_id \<Rightarrow> byte list \<Rightarrow> bstate \<Rightarrow> 'g \<Rightarrow> (bstate \<times> 'g) option" where
  "free_buffer_command G p payload s g = do {
     ptr \<leftarrow> u64_at payload 0;
     case do { a \<leftarrow> alloc_of s p; offset_of ptr a } of
       None \<Rightarrow> Some (s, g)
     | Some off \<Rightarrow> do {
         b \<leftarrow> buffer_of s p off;
         if \<not> b_allow_user_free b then Some (s, g)
         else free_buffer p off False (Some G) s g } }"

definition register_looper :: "proc_id \<Rightarrow> tid \<Rightarrow> bstate \<Rightarrow> bstate option" where
  "register_looper p t s = do {
     pr \<leftarrow> mget (s_procs s) p;
     th \<leftarrow> mget (p_threads pr) t;
     s \<leftarrow> (if t_looper th AND LOOPER_ENTERED \<noteq> 0 \<or> p_requested pr = 0
            then Some (upd_thread p t (\<lambda>th. th\<lparr>t_looper := t_looper th OR LOOPER_INVALID\<rparr>) s)
            else do {
              c \<leftarrow> u32_inc (p_started pr);
              Some (upd_proc p (\<lambda>pr. pr\<lparr>p_requested := p_requested pr - 1, p_started := c\<rparr>) s) });
     Some (upd_thread p t (\<lambda>th. th\<lparr>t_looper := t_looper th OR LOOPER_REGISTERED\<rparr>) s) }"

definition enter_looper :: "proc_id \<Rightarrow> tid \<Rightarrow> bstate \<Rightarrow> bstate option" where
  "enter_looper p t s = do {
     _ \<leftarrow> thread_of s p t;
     Some (upd_thread p t (\<lambda>th.
       let l = (if t_looper th AND LOOPER_REGISTERED \<noteq> 0 then t_looper th OR LOOPER_INVALID else t_looper th)
       in th\<lparr>t_looper := l OR LOOPER_ENTERED\<rparr>) s) }"

definition exit_looper :: "proc_id \<Rightarrow> tid \<Rightarrow> bstate \<Rightarrow> bstate option" where
  "exit_looper p t s = do {
     _ \<leftarrow> thread_of s p t;
     Some (upd_thread p t (\<lambda>th. th\<lparr>t_looper := t_looper th OR LOOPER_EXITED\<rparr>) s) }"

definition request_death :: "proc_id \<Rightarrow> u32 \<Rightarrow> u64 \<Rightarrow> node_id \<Rightarrow> bstate \<Rightarrow> bstate option" where
  "request_death p handle cookie n s = do {
     (d, s) \<leftarrow> next_id s;
     let node_dead = (case mget (s_nodes s) n of None \<Rightarrow> True | Some nd \<Rightarrow> n_proc nd = None);
     let s = s\<lparr>s_deaths := mput d \<lparr>d_proc = p, d_cookie = cookie, d_state = Armed, d_location = None\<rparr>
                            (s_deaths s)\<rparr>;
     _ \<leftarrow> ref_of s p handle;
     let s = upd_ref p handle (\<lambda>r. r\<lparr>r_death := Some d\<rparr>) s;
     Some (if node_dead then
             wakeup_proc p (enqueue_proc_work p (WDeath d)
               (upd_death d (\<lambda>de. de\<lparr>d_state := DeadBinder, d_location := Some (Queued (ProcList p))\<rparr>) s))
           else s) }"

definition clear_death :: "proc_id \<Rightarrow> tid \<Rightarrow> u32 \<Rightarrow> u64 \<Rightarrow> death_id \<Rightarrow> bstate \<Rightarrow> bstate option" where
  "clear_death p t handle cookie d s = do {
     de \<leftarrow> mget (s_deaths s) d;
     if d_cookie de \<noteq> cookie then Some s
     else do {
       _ \<leftarrow> ref_of s p handle;
       let s = upd_ref p handle (\<lambda>r. r\<lparr>r_death := None\<rparr>) s;
       if d_location de = None
       then queue_death_for_thread_or_proc d p t (upd_death d (\<lambda>de. de\<lparr>d_state := Clear\<rparr>) s)
       else Some (upd_death d (\<lambda>de. de\<lparr>d_state := DeadBinderAndClear\<rparr>) s) } }"

definition death_command ::
  "proc_id \<Rightarrow> tid \<Rightarrow> bool \<Rightarrow> u32 \<Rightarrow> u64 \<Rightarrow> bstate \<Rightarrow> bstate option" where
  "death_command p t request handle cookie s = do {
     pr \<leftarrow> mget (s_procs s) p;
     case mget (p_refs pr) handle of
       None \<Rightarrow> Some s
     | Some r \<Rightarrow>
       if request then
         (if r_death r \<noteq> None then Some s else request_death p handle cookie (r_node r) s)
       else
         (case r_death r of
            None \<Rightarrow> Some s
          | Some d \<Rightarrow> clear_death p t handle cookie d s) }"

text \<open>\<open>find\<close> over the delivered notifications; each must be in the table of deaths.\<close>

fun find_delivered :: "u64 \<Rightarrow> death_id list \<Rightarrow> bstate \<Rightarrow> death_id option option" where
  "find_delivered cookie [] s = Some None"
| "find_delivered cookie (d # ds) s = do {
     de \<leftarrow> mget (s_deaths s) d;
     if d_cookie de = cookie then Some (Some d) else find_delivered cookie ds s }"

definition dead_binder_done :: "proc_id \<Rightarrow> tid \<Rightarrow> u64 \<Rightarrow> bstate \<Rightarrow> bstate option" where
  "dead_binder_done p t cookie s = do {
     pr \<leftarrow> mget (s_procs s) p;
     found \<leftarrow> find_delivered cookie (p_delivered_death pr) s;
     case found of
       None \<Rightarrow> Some s
     | Some d \<Rightarrow> do {
         let s = dequeue_death_work d s;
         de \<leftarrow> mget (s_deaths s) d;
         if d_state de = DeadBinderAndClear
         then queue_death_for_thread_or_proc d p t (upd_death d (\<lambda>de. de\<lparr>d_state := Clear\<rparr>) s)
         else Some s } }"

definition with_state :: "bstate option \<Rightarrow> 'g \<Rightarrow> 'g commanded" where
  "with_state r g = map_option (\<lambda>s. (Inr (), s, g)) r"

definition execute_command ::
  "'g guest \<Rightarrow> proc_id \<Rightarrow> tid \<Rightarrow> u32 \<Rightarrow> byte list \<Rightarrow> bstate \<Rightarrow> 'g \<Rightarrow> 'g commanded" where
  "execute_command G p t cmd payload s g =
     (if cmd \<in> {BC_INCREFS, BC_ACQUIRE, BC_RELEASE, BC_DECREFS} then
        map_option (\<lambda>(r, s). (r, s, g)) (refs_command p cmd payload s)
      else if cmd \<in> {BC_INCREFS_DONE, BC_ACQUIRE_DONE} then
        with_state (refs_done_command p cmd payload s) g
      else if cmd \<in> {BC_ATTEMPT_ACQUIRE, BC_ACQUIRE_RESULT} then Some (Inl EINVAL, s, g)
      else if cmd = BC_FREE_BUFFER then
        map_option (\<lambda>(s, g). (Inr (), s, g)) (free_buffer_command G p payload s g)
      else if cmd \<in> {BC_TRANSACTION, BC_REPLY} then do {
        tr \<leftarrow> transaction_data_decode payload;
        (s, g) \<leftarrow> transaction G p t tr (cmd = BC_REPLY) 0 s g;
        Some (Inr (), s, g) }
      else if cmd \<in> {BC_TRANSACTION_SG, BC_REPLY_SG} then do {
        bytes \<leftarrow> slice 0 TRANSACTION_DATA_SIZE payload;
        tr \<leftarrow> transaction_data_decode bytes;
        buffers_size \<leftarrow> u64_at payload TRANSACTION_DATA_SIZE;
        (s, g) \<leftarrow> transaction G p t tr (cmd = BC_REPLY_SG) buffers_size s g;
        Some (Inr (), s, g) }
      else if cmd = BC_REGISTER_LOOPER then with_state (register_looper p t s) g
      else if cmd = BC_ENTER_LOOPER then with_state (enter_looper p t s) g
      else if cmd = BC_EXIT_LOOPER then with_state (exit_looper p t s) g
      else if cmd \<in> {BC_REQUEST_DEATH_NOTIFICATION, BC_CLEAR_DEATH_NOTIFICATION} then do {
        handle \<leftarrow> u32_at payload 0;
        cookie \<leftarrow> u64_at payload 4;
        with_state (death_command p t (cmd = BC_REQUEST_DEATH_NOTIFICATION) handle cookie s) g }
      else if cmd = BC_DEAD_BINDER_DONE then do {
        cookie \<leftarrow> u64_at payload 0;
        with_state (dead_binder_done p t cookie s) g }
      else Some (Inl EINVAL, s, g))"

text \<open>The result, the bytes consumed, the state and the guest. Every iteration consumes at least a
  command word.\<close>

function thread_write ::
  "'g guest \<Rightarrow> proc_id \<Rightarrow> tid \<Rightarrow> byte list \<Rightarrow> nat \<Rightarrow> bstate \<Rightarrow> 'g \<Rightarrow>
   (unit result \<times> nat \<times> bstate \<times> 'g) option" where
  "thread_write G p t wr consumed s g =
     (if \<not> consumed < length wr \<or>
         (case thread_of s p t of None \<Rightarrow> True | Some th \<Rightarrow> t_return_error th \<noteq> None)
      then Some (Inr (), consumed, s, g)
      else
        (case u32_at wr consumed of
           None \<Rightarrow> Some (Inl EFAULT, consumed, s, g)
         | Some cmd \<Rightarrow>
           (case command_payload_size cmd of
              None \<Rightarrow> Some (Inl EINVAL, consumed, s, g)
            | Some sz \<Rightarrow>
              (case slice (consumed + 4) sz wr of
                 None \<Rightarrow> Some (Inl EFAULT, consumed, s, g)
               | Some payload \<Rightarrow>
                 Option.bind (execute_command G p t cmd payload s g) (\<lambda>(res, s, g).
                   case res of
                     Inl e \<Rightarrow> Some (Inl e, consumed, s, g)
                   | Inr _ \<Rightarrow> thread_write G p t wr (consumed + 4 + sz) s g)))))"
  by pat_completeness auto

termination
  by (relation "measure (\<lambda>(G, p, t, wr, consumed, s, g). length wr - consumed)") auto

declare thread_write.simps [simp del]

text \<open>A write stops, or executes the next command and stops with its error or goes on.\<close>

lemma thread_write_rule [consumes 1, case_names quit command]:
  assumes "thread_write G p t wr consumed s g = Some r"
    and quit: "\<And>consumed s g res. P consumed s g (res, consumed, s, g)"
    and command: "\<And>consumed s g th cmd sz payload res s1 g1 r.
      consumed < length wr \<Longrightarrow> thread_of s p t = Some th \<Longrightarrow> t_return_error th = None \<Longrightarrow>
      u32_at wr consumed = Some cmd \<Longrightarrow> command_payload_size cmd = Some sz \<Longrightarrow>
      slice (consumed + 4) sz wr = Some payload \<Longrightarrow>
      execute_command G p t cmd payload s g = Some (res, s1, g1) \<Longrightarrow>
      (case res of Inl e \<Rightarrow> r = (Inl e, consumed, s1, g1) | Inr _ \<Rightarrow> P (consumed + 4 + sz) s1 g1 r) \<Longrightarrow>
      P consumed s g r"
  shows "P consumed s g r"
  using assms
proof (induction G p t wr consumed s g rule: thread_write.induct)
  case (1 G p t wr consumed s g)
  note run = "1.prems"(1) and quit = "1.prems"(2) and command = "1.prems"(3)
  let ?stop = "\<not> consumed < length wr \<or>
    (case thread_of s p t of None \<Rightarrow> True | Some th \<Rightarrow> t_return_error th \<noteq> None)"
  show ?case
  proof (cases "?stop \<or> u32_at wr consumed = None \<or> command_payload_size (the (u32_at wr consumed)) = None \<or>
      slice (consumed + 4) (the (command_payload_size (the (u32_at wr consumed)))) wr = None")
    case True
    with run show ?thesis
      by (subst (asm) thread_write.simps) (auto intro!: quit split: if_splits option.splits)
  next
    case False
    then obtain th cmd sz payload where c: "\<not> ?stop" "thread_of s p t = Some th" "t_return_error th = None"
      "u32_at wr consumed = Some cmd" "command_payload_size cmd = Some sz"
      "slice (consumed + 4) sz wr = Some payload"
      by (auto split: option.splits)
    with run obtain res s1 g1 where
      x: "execute_command G p t cmd payload s g = Some (res, s1, g1)"
      and rest: "(case res of Inl e \<Rightarrow> Some (Inl e, consumed, s1, g1)
        | Inr _ \<Rightarrow> thread_write G p t wr (consumed + 4 + sz) s1 g1) = Some r"
      by (subst (asm) thread_write.simps) (auto elim!: bind_Some_elim)
    have "case res of Inl e \<Rightarrow> r = (Inl e, consumed, s1, g1) | Inr _ \<Rightarrow> P (consumed + 4 + sz) s1 g1 r"
      using "1.IH" [OF c(1,4,5,6)] x rest quit command by (auto split: sum.splits)
    then show ?thesis by (rule command [OF _ c(2-6) x, rotated -1]) (use c(1) in auto)
  qed
qed

section \<open>What a command leaves alone\<close>

definition still_flags :: "bproc \<Rightarrow> bproc" where
  "still_flags pr = pr\<lparr>p_max_threads := 0, p_requested := 0, p_started := 0, p_spam_detection := False,
     p_nonblocking := False, p_notifier := None\<rparr>"

text \<open>\<open>drive_ops\<close>: all of the above, and the settings of a process may change.\<close>

locale drive_ops = read_ops + txn_ops +
  assumes flags: "I s \<Longrightarrow> (\<And>pr. still_flags (hf pr) = still_flags pr) \<Longrightarrow> I (upd_proc p hf s)"
begin

lemma refs_command: "refs_command p cmd payload s = Some (res, s') \<Longrightarrow> I s \<Longrightarrow> I s'"
  by (auto simp: refs_command_def Let_def elim!: bind_Some_elim
      dest!: update_ref_for_handle inc_ref_for_node split: option.splits if_splits sum.splits)

lemma refs_done_command: "refs_done_command p cmd payload s = Some s' \<Longrightarrow> I s \<Longrightarrow> I s'"
  by (auto simp: refs_done_command_def Let_def same_links_def elim!: bind_Some_elim
      intro!: dec_node node_marks split: option.splits if_splits)

lemma free_buffer_command: "free_buffer_command G p payload s g = Some (s', g') \<Longrightarrow> I s \<Longrightarrow> I s'"
  by (auto simp: free_buffer_command_def elim!: bind_Some_elim dest!: free_buffer
      split: option.splits if_splits)

lemma looper_commands:
  "register_looper p t s = Some s' \<Longrightarrow> I s \<Longrightarrow> I s'"
  "enter_looper p t s = Some s' \<Longrightarrow> I s \<Longrightarrow> I s'"
  "exit_looper p t s = Some s' \<Longrightarrow> I s \<Longrightarrow> I s'"
  by (auto simp: register_looper_def enter_looper_def exit_looper_def Let_def still_flags_def
      elim!: bind_Some_elim intro!: thread flags split: if_splits)

lemma request_death: "request_death p handle cookie n s = Some s' \<Longrightarrow> I s \<Longrightarrow> I s'"
  by (auto simp: request_death_def Let_def elim!: bind_Some_elim dest!: next_id
      intro!: wakeup_proc enqueue_proc_work upd_death ref_death deaths split: if_splits)

lemma clear_death: "clear_death p t handle cookie d s = Some s' \<Longrightarrow> I s \<Longrightarrow> I s'"
  by (auto simp: clear_death_def Let_def elim!: bind_Some_elim dest!: queue_death
      intro!: upd_death ref_death split: if_splits)

lemma death_command: "death_command p t request handle cookie s = Some s' \<Longrightarrow> I s \<Longrightarrow> I s'"
  by (auto simp: death_command_def elim!: bind_Some_elim dest!: request_death clear_death
      split: option.splits if_splits)

lemma dead_binder_done: "dead_binder_done p t cookie s = Some s' \<Longrightarrow> I s \<Longrightarrow> I s'"
  by (auto simp: dead_binder_done_def Let_def elim!: bind_Some_elim dest!: queue_death
      intro!: upd_death dequeue_death_work split: option.splits if_splits)

lemma execute_command: "execute_command G p t cmd payload s g = Some (res, s', g') \<Longrightarrow> I s \<Longrightarrow> I s'"
  unfolding execute_command_def with_state_def
  by (auto elim!: bind_Some_elim split: if_splits
      dest!: refs_command refs_done_command free_buffer_command looper_commands death_command
        dead_binder_done transaction)

lemma thread_write:
  assumes "thread_write G p t wr consumed s g = Some (res, done, s', g')" "I s"
  shows "I s'"
proof -
  have "I s \<longrightarrow> I (fst (snd (snd (res, done, s', g'))))"
    using assms(1)
    by (rule thread_write_rule [where P = "\<lambda>c s g r. I s \<longrightarrow> I (fst (snd (snd r)))"])
      (auto dest: execute_command split: sum.splits)
  with assms(2) show ?thesis by simp
qed

end

end
