(* ===== verification/Release.thy ===== *)
theory Release
  imports ThreadWrite
begin

text \<open>
  Thread exit and process release (\<^verbatim>\<open>src/crates/aim-binder-driver/src/release.rs\<close>): failed replies
  to callers, dead nodes and their death notifications, and dropped references. Where the source
  iterates over a \<open>HashMap\<close>'s keys (the threads of a process), the order is the argument \<open>ord\<close>,
  a permutation of them.
\<close>

section \<open>Model\<close>

definition to_here :: "proc_id \<Rightarrow> tid \<Rightarrow> txn \<Rightarrow> bool" where
  "to_here p t tx \<longleftrightarrow> x_to_thread tx = Some t \<and> x_to_proc tx = Some p"

definition detach_target :: "proc_id \<Rightarrow> txn_id \<Rightarrow> txn \<Rightarrow> bstate \<Rightarrow> bstate" where
  "detach_target p x tx s =
     (let s = upd_txn x (\<lambda>tx. tx\<lparr>x_to_proc := None, x_to_thread := None, x_buffer := None\<rparr>) s;
          s = upd_proc p (\<lambda>pr. pr\<lparr>p_outstanding := p_outstanding pr - 1\<rparr>) s
      in case x_buffer tx of
           None \<Rightarrow> s
         | Some off \<Rightarrow> upd_buffer p off (\<lambda>b. b\<lparr>b_txn := None\<rparr>) s)"

text \<open>Transactions the walk over a thread's stack may still detach.\<close>

definition attached :: "proc_id \<Rightarrow> tid \<Rightarrow> bstate \<Rightarrow> (txn_id \<times> bool) set" where
  "attached p t s =
     {(x, True) |x tx. mget (s_txns s) x = Some tx \<and> to_here p t tx} \<union>
     {(x, False) |x tx. mget (s_txns s) x = Some tx \<and> x_from tx = Some (p, t)}"

lemma finite_attached: "finite (attached p t s)"
proof -
  have "attached p t s \<subseteq> set (mkeys (s_txns s)) \<times> UNIV"
    using mget_in_keys [of "s_txns s"] by (auto simp: attached_def)
  then show ?thesis by (rule finite_subset) simp
qed

lemma s_txns_upd_txn: "s_txns (upd_txn x f s) = mmod x f (s_txns s)"
  by (simp add: upd_txn_def)

lemma s_txns_detach: "s_txns (detach_target p x tx s) =
    mmod x (\<lambda>tx. tx\<lparr>x_to_proc := None, x_to_thread := None, x_buffer := None\<rparr>) (s_txns s)"
  by (simp add: detach_target_def Let_def s_txns_upd_txn split: option.splits)

lemma attached_True: "(x, True) \<in> attached p t s \<longleftrightarrow>
    (\<exists>tx. mget (s_txns s) x = Some tx \<and> to_here p t tx)"
  and attached_False: "(x, False) \<in> attached p t s \<longleftrightarrow>
    (\<exists>tx. mget (s_txns s) x = Some tx \<and> x_from tx = Some (p, t))"
  by (auto simp: attached_def)

lemma attached_psubset:
  assumes mono: "\<And>y e. (y, e) \<in> attached p t s' \<Longrightarrow> (y, e) \<in> attached p t s"
    and gone: "(x, e) \<in> attached p t s" "(x, e) \<notin> attached p t s'"
  shows "card (attached p t s') < card (attached p t s)"
proof (rule psubset_card_mono [OF finite_attached])
  show "attached p t s' \<subset> attached p t s" using mono gone by auto
qed

lemma attached_mmod:
  assumes "(y, e) \<in> attached p t s'" "s_txns s' = mmod x f (s_txns s)"
    and "\<And>tx. to_here p t (f tx) \<Longrightarrow> to_here p t tx"
    and "\<And>tx. x_from (f tx) = Some (p, t) \<Longrightarrow> x_from tx = Some (p, t)"
  shows "(y, e) \<in> attached p t s"
proof (cases e)
  case True
  with assms show ?thesis by (cases "x = y") (auto simp: attached_True)
next
  case False
  with assms show ?thesis by (cases "x = y") (auto simp: attached_False)
qed

lemma attached_detach:
  assumes "mget (s_txns s) x = Some tx" "to_here p t tx"
  shows "card (attached p t (detach_target p x tx s)) < card (attached p t s)"
proof (rule attached_psubset [of _ _ _ _ x True])
  show "(y, e) \<in> attached p t s" if "(y, e) \<in> attached p t (detach_target p x tx s)" for y e
    by (rule attached_mmod [OF that s_txns_detach]) (auto simp: to_here_def)
  show "(x, True) \<in> attached p t s" using assms by (auto simp: attached_True)
  show "(x, True) \<notin> attached p t (detach_target p x tx s)"
    using assms by (auto simp: attached_True s_txns_detach to_here_def)
qed

lemma attached_from:
  assumes "mget (s_txns s) x = Some tx" "x_from tx = Some (p, t)"
  shows "card (attached p t (upd_txn x (\<lambda>tx. tx\<lparr>x_from := None\<rparr>) s)) < card (attached p t s)"
proof (rule attached_psubset [of _ _ _ _ x False])
  show "(y, e) \<in> attached p t s"
    if "(y, e) \<in> attached p t (upd_txn x (\<lambda>tx. tx\<lparr>x_from := None\<rparr>) s)" for y e
    by (rule attached_mmod [OF that s_txns_upd_txn]) (auto simp: to_here_def)
  show "(x, False) \<in> attached p t s" using assms by (auto simp: attached_False)
  show "(x, False) \<notin> attached p t (upd_txn x (\<lambda>tx. tx\<lparr>x_from := None\<rparr>) s)"
    using assms by (auto simp: attached_False s_txns_upd_txn)
qed

text \<open>The loop over the thread's transaction stack: how many transactions were active. Each visit
  detaches one end of a transaction from the thread, so no transaction is visited three times.\<close>

function unwind_stack :: "proc_id \<Rightarrow> tid \<Rightarrow> txn_id option \<Rightarrow> nat \<Rightarrow> bstate \<Rightarrow> nat \<times> bstate" where
  "unwind_stack p t None active s = (active, s)"
| "unwind_stack p t (Some x) active s =
     (case mget (s_txns s) x of
        None \<Rightarrow> (active + 1, s)
      | Some tx \<Rightarrow>
        if to_here p t tx then
          unwind_stack p t (x_to_parent tx) (active + 1) (detach_target p x tx s)
        else if x_from tx = Some (p, t) then
          unwind_stack p t (x_from_parent tx) (active + 1) (upd_txn x (\<lambda>tx. tx\<lparr>x_from := None\<rparr>) s)
        else (active + 1, s))"
  by pat_completeness auto

termination
  by (relation "measure (\<lambda>(p, t, c, active, s). card (attached p t s))")
    (simp_all add: attached_detach attached_from)

definition release_one :: "work \<Rightarrow> bstate \<Rightarrow> bstate" where
  "release_one w s =
     (case w of
        WTransaction x \<Rightarrow> cleanup_transaction x BR_DEAD_REPLY s
      | WDeath d \<Rightarrow>
        (case mget (s_deaths s) d of
           None \<Rightarrow> s
         | Some de \<Rightarrow>
           let s = upd_death d (\<lambda>de. de\<lparr>d_location := None\<rparr>) s in
           if d_state de = DeadBinderAndClear \<or> d_state de = Clear
           then s\<lparr>s_deaths := mdel d (s_deaths s)\<rparr> else s)
      | WNode n \<Rightarrow> upd_node n (\<lambda>nd. nd\<lparr>n_work_queued := None\<rparr>) s
      | _ \<Rightarrow> s)"

definition release_work :: "work list \<Rightarrow> bstate \<Rightarrow> bstate" where
  "release_work ws s = fold release_one ws s"

definition thread_release :: "proc_id \<Rightarrow> tid \<Rightarrow> bstate \<Rightarrow> (nat \<times> bstate) option" where
  "thread_release p t s =
     (case thread_of s p t of
        None \<Rightarrow> Some (0, s)
      | Some th \<Rightarrow> do {
          let s = upd_proc p (\<lambda>pr. pr\<lparr>p_threads := mdel t (p_threads pr),
                    p_waiting := filter (\<lambda>x. x \<noteq> t) (p_waiting pr)\<rparr>) s;
          let s = s\<lparr>s_notified := s_notified s @ [t_wait th],
                    s_resumes := s_resumes s @ (case t_parked th of None \<Rightarrow> [] | Some r \<Rightarrow> [r])\<rparr>;
          send_reply \<leftarrow> (case t_stack th of
                            None \<Rightarrow> Some None
                          | Some x \<Rightarrow> do {
                              tx \<leftarrow> mget (s_txns s) x;
                              Some (if to_here p t tx then Some x else None) });
          let (active, s) = unwind_stack p t (t_stack th) 0 s;
          let s = (case send_reply of None \<Rightarrow> s | Some x \<Rightarrow> send_failed_reply x BR_DEAD_REPLY s);
          Some (active, release_work (t_todo th) s) })"

text \<open>Telling one holder of a dead node that watches it.\<close>

definition notify_holder :: "node_id \<Rightarrow> proc_id \<Rightarrow> bstate \<Rightarrow> bstate option" where
  "notify_holder n holder s =
     (case do { pr \<leftarrow> mget (s_procs s) holder; desc \<leftarrow> mget (p_by_node pr) n; Some (pr, desc) } of
        None \<Rightarrow> Some s
      | Some (pr, desc) \<Rightarrow> do {
          r \<leftarrow> mget (p_refs pr) desc;
          case r_death r of
            None \<Rightarrow> Some s
          | Some d \<Rightarrow> do {
              _ \<leftarrow> mget (s_deaths s) d;
              let s = upd_death d (\<lambda>de. de\<lparr>d_state := DeadBinder,
                        d_location := Some (Queued (ProcList holder))\<rparr>) s;
              Some (wakeup_proc holder (enqueue_proc_work holder (WDeath d) s)) } })"

fun notify_holders :: "node_id \<Rightarrow> proc_id list \<Rightarrow> bstate \<Rightarrow> bstate option" where
  "notify_holders n [] s = Some s"
| "notify_holders n (h # hs) s = do { s \<leftarrow> notify_holder n h s; notify_holders n hs s }"

definition node_release :: "node_id \<Rightarrow> bstate \<Rightarrow> bstate option" where
  "node_release n s =
     (case mget (s_nodes s) n of
        None \<Rightarrow> Some s
      | Some nd \<Rightarrow> do {
          let s = upd_node n (\<lambda>nd. nd\<lparr>n_async_todo := [], n_work_queued := None\<rparr>) s;
          let s = release_work (map WTransaction (n_async_todo nd)) s;
          nd \<leftarrow> mget (s_nodes s) n;
          if n_refs nd = [] then Some (remove_node n s)
          else
            notify_holders n (mkeys (n_refs nd))
              (upd_node n (\<lambda>nd. nd\<lparr>n_proc := None, n_local_strong := 0, n_local_weak := 0\<rparr>) s) })"

fun release_threads :: "proc_id \<Rightarrow> tid list \<Rightarrow> bstate \<Rightarrow> bstate option" where
  "release_threads p [] s = Some s"
| "release_threads p (t # ts) s = do { (_, s) \<leftarrow> thread_release p t s; release_threads p ts s }"

fun release_nodes :: "node_id list \<Rightarrow> bstate \<Rightarrow> bstate option" where
  "release_nodes [] s = Some s"
| "release_nodes (n # ns) s = do { s \<leftarrow> node_release n s; release_nodes ns s }"

definition drop_manager :: "proc_id \<Rightarrow> nat \<Rightarrow> bcontext \<Rightarrow> bstate \<Rightarrow> bstate" where
  "drop_manager p ctx c s =
     (case do { m \<leftarrow> c_mgr_node c; mget (s_nodes s) m } of
        Some nd \<Rightarrow>
          if n_proc nd = Some p
          then s\<lparr>s_contexts := (s_contexts s)[ctx := c\<lparr>c_mgr_node := None\<rparr>]\<rparr> else s
      | None \<Rightarrow> s)"

definition drop_queues :: "proc_id \<Rightarrow> bproc \<Rightarrow> bstate \<Rightarrow> bstate" where
  "drop_queues p pr s =
     (let s = upd_proc p (\<lambda>pr. pr\<lparr>p_todo := [], p_delivered_death := []\<rparr>) s;
          s = release_work (p_todo pr) s
      in release_work (map WDeath (p_delivered_death pr)) s)"

text \<open>Transactions still pointing at buffers of the process lose them.\<close>

definition lose_buffers :: "(nat, buffer) omap \<Rightarrow> bstate \<Rightarrow> bstate" where
  "lose_buffers bs s =
     fold (\<lambda>(off, b) s. case b_txn b of
             None \<Rightarrow> s | Some x \<Rightarrow> upd_txn x (\<lambda>tx. tx\<lparr>x_buffer := None\<rparr>) s) bs s"

definition release_proc :: "(tid list \<Rightarrow> tid list) \<Rightarrow> proc_id \<Rightarrow> bstate \<Rightarrow> bstate option" where
  "release_proc ord p s =
     (case mget (s_procs s) p of
        None \<Rightarrow> Some s
      | Some pr \<Rightarrow> do {
          c \<leftarrow> context_at s (p_context pr);
          s \<leftarrow> release_threads p (ord (mkeys (p_threads pr))) (drop_manager p (p_context pr) c s);
          pr \<leftarrow> mget (s_procs s) p;
          s \<leftarrow> release_nodes (map snd (p_nodes pr)) (upd_proc p (\<lambda>pr. pr\<lparr>p_nodes := []\<rparr>) s);
          pr \<leftarrow> mget (s_procs s) p;
          let s = fold (cleanup_ref p) (mkeys (p_refs pr)) s;
          pr \<leftarrow> mget (s_procs s) p;
          let s = drop_queues p pr s;
          pr \<leftarrow> mget (s_procs s) p;
          let s = s\<lparr>s_procs := mdel p (s_procs s)\<rparr>;
          Some (case p_alloc pr of None \<Rightarrow> s | Some a \<Rightarrow> lose_buffers (buffers a) s) })"

section \<open>What a release leaves alone\<close>

context reply_ops
begin

lemma detach_target: "I s \<Longrightarrow> I (detach_target p x tx s)"
  by (auto simp: detach_target_def Let_def intro!: txn_upd outstanding buffer_mark split: option.split)

lemma unwind_stack: "I s \<Longrightarrow> I (snd (unwind_stack p t c active s))"
  by (induction p t c active s rule: unwind_stack.induct)
    (auto simp: txn_upd detach_target split: option.split)

lemma release_one: "I s \<Longrightarrow> I (release_one w s)"
  by (auto simp: release_one_def Let_def same_links_def
      intro!: cleanup_transaction deaths upd_death node_marks split: work.split option.split)

lemma release_work: "I s \<Longrightarrow> I (release_work ws s)"
  by (induction ws arbitrary: s) (auto simp: release_work_def release_one)

lemma notify_holder: "notify_holder n holder s = Some s' \<Longrightarrow> I s \<Longrightarrow> I s'"
  by (auto simp: notify_holder_def Let_def elim!: bind_Some_elim
      intro!: wakeup_proc enqueue_proc_work upd_death split: option.splits)

lemma notify_holders: "notify_holders n hs s = Some s' \<Longrightarrow> I s \<Longrightarrow> I s'"
  by (induction hs arbitrary: s) (auto elim!: bind_Some_elim intro: notify_holder)

lemma drop_queues: "I s \<Longrightarrow> I (drop_queues p pr s)"
proof -
  assume "I s"
  then have "I (upd_proc p (\<lambda>pr. pr\<lparr>p_todo := []\<rparr>) s)"
    by (rule proc_queue) (simp_all add: still_proc_def)
  then have "I (upd_proc p (\<lambda>pr. pr\<lparr>p_delivered_death := []\<rparr>) (upd_proc p (\<lambda>pr. pr\<lparr>p_todo := []\<rparr>) s))"
    by (rule delivered)
  then have "I (upd_proc p (\<lambda>pr. pr\<lparr>p_todo := [], p_delivered_death := []\<rparr>) s)"
    by (simp add: upd_proc_def mmod_mmod comp_def)
  then show ?thesis by (simp add: drop_queues_def Let_def release_work)
qed

lemma lose_buffers: "I s \<Longrightarrow> I (lose_buffers bs s)"
  by (induction bs arbitrary: s) (auto simp: lose_buffers_def txn_upd split: option.split)

end

locale node_reply_closed = node_closed + reply_ops
begin

lemma node_release: "node_release n s = Some s' \<Longrightarrow> I s \<Longrightarrow> I s'"
  by (auto simp: node_release_def Let_def elim!: bind_Some_elim dest!: notify_holders
      intro!: remove_node release_work node split: option.splits if_splits)

lemma release_nodes: "release_nodes ns s = Some s' \<Longrightarrow> I s \<Longrightarrow> I s'"
  by (induction ns arbitrary: s) (auto elim!: bind_Some_elim intro: node_release)

end

text \<open>A process that gave up its nodes gets none back while it is released, and a handle it gave up
  stays given up.\<close>

definition owns_nothing :: "proc_id \<Rightarrow> bstate \<Rightarrow> bool" where
  "owns_nothing p s \<longleftrightarrow> (\<forall>pr. mget (s_procs s) p = Some pr \<longrightarrow> p_nodes pr = [])"

lemma proc_facts [simp]:
  "s_procs (upd_node n f s) = s_procs s" "s_procs (upd_txn x tf s) = s_procs s"
  "s_procs (upd_death d df s) = s_procs s" "s_procs (upd_shadow sf s) = s_procs s"
  "s_procs (upd_trace rf s) = s_procs s"
  by (simp_all add: upd_node_def upd_txn_def upd_death_def upd_shadow_def upd_trace_def)

lemma mget_upd_proc: "mget (s_procs (upd_proc p f s)) q =
    (if p = q then map_option f (mget (s_procs s) q) else mget (s_procs s) q)"
  by (simp add: upd_proc_def)

lemma still_proc_fields:
  assumes "still_proc a = still_proc b"
  shows "p_nodes a = p_nodes b" "p_refs a = p_refs b" "p_by_node a = p_by_node b"
    "p_threads a = p_threads b" "p_alloc a = p_alloc b" "p_receive a = p_receive b"
    "p_context a = p_context b" "p_creds a = p_creds b"
  using assms by (cases a; cases b; simp add: still_proc_def)+

lemma owns_nothing_queue:
  assumes "owns_nothing p s" "\<And>pr. still_proc (h pr) = still_proc pr"
  shows "owns_nothing p (upd_proc q h s)"
  using assms(1) still_proc_fields(1) [OF assms(2)] by (auto simp: owns_nothing_def mget_upd_proc)

lemma ref_of_queue:
  assumes "\<And>pr. still_proc (h pr) = still_proc pr"
  shows "ref_of (upd_proc q h s) p desc = ref_of s p desc"
  using still_proc_fields(2) [OF assms]
  by (cases "mget (s_procs s) p") (auto simp: ref_of_def mget_upd_proc)

interpretation owns_nothing: node_reply_closed "owns_nothing p" for p
  by unfold_locales
    (auto simp: owns_nothing_queue,
     auto simp: owns_nothing_def mget_upd_proc upd_thread_def upd_buffer_def mdel_def split: if_splits)

interpretation owns_nothing_refs: ref_closed "owns_nothing p" for p
  by unfold_locales (auto simp: owns_nothing_def mget_upd_proc)

interpretation ref_frame: node_reply_closed "\<lambda>s. ref_of s p desc = r" for p desc r
  by unfold_locales
    (auto simp: ref_of_queue,
     auto simp: ref_of_def mget_upd_proc upd_thread_def upd_buffer_def bind_map_option comp_def)

lemma ref_of_cleanup_ref:
  "ref_of (cleanup_ref p desc s) q d = (if q = p \<and> d = desc then None else ref_of s q d)"
proof (cases "ref_of s p desc")
  case None
  then show ?thesis by (auto simp: cleanup_ref_def)
next
  case (Some r)
  have "ref_of (upd_proc p (\<lambda>pr. pr\<lparr>p_refs := mdel desc (p_refs pr),
      p_by_node := mdel (r_node r) (p_by_node pr)\<rparr>) s) q d =
      (if q = p \<and> d = desc then None else ref_of s q d)"
    by (cases "mget (s_procs s) p") (auto simp: ref_of_def mget_upd_proc)
  then show ?thesis
    using Some by (auto simp: cleanup_ref_def Let_def simp del: mget_mdel
        intro!: ref_frame.deaths ref_frame.dequeue_death_work ref_frame.any_dec_node ref_frame.node
        split: option.split)
qed

lemma ref_of_cleanup_refs:
  "ref_of (fold (cleanup_ref p) ds s) q d = (if q = p \<and> d \<in> set ds then None else ref_of s q d)"
  by (induction ds arbitrary: s) (auto simp: ref_of_cleanup_ref)

lemma no_refs_left:
  assumes "mget (s_procs s) p = Some pr" "s1 = fold (cleanup_ref p) (mkeys (p_refs pr)) s"
    and "mget (s_procs s1) p = Some pr1" "mget (s_procs (drop_queues p pr1 s1)) p = Some pr2"
  shows "p_refs pr2 = []"
proof (rule mget_all_None)
  fix d
  have "d \<in> set (mkeys (p_refs pr)) \<or> ref_of s p d = None"
    using assms(1) mget_in_keys [of "p_refs pr" d] by (auto simp: ref_of_def)
  then have "ref_of s1 p d = None"
    unfolding assms(2) ref_of_cleanup_refs by auto
  then have "ref_of (drop_queues p pr1 s1) p d = None" by (rule ref_frame.drop_queues)
  with assms(4) show "mget (p_refs pr2) d = None" by (simp add: ref_of_def)
qed

lemma no_nodes_left:
  assumes "release_nodes ns (upd_proc p (\<lambda>pr. pr\<lparr>p_nodes := []\<rparr>) s) = Some s1"
    and "mget (s_procs (drop_queues p pr1 (fold (cleanup_ref p) ds s1))) p = Some pr2"
  shows "p_nodes pr2 = []"
proof -
  have "owns_nothing p (upd_proc p (\<lambda>pr. pr\<lparr>p_nodes := []\<rparr>) s)"
    by (auto simp: owns_nothing_def mget_upd_proc)
  then have "owns_nothing p s1" by (rule owns_nothing.release_nodes [OF assms(1)])
  then have "owns_nothing p (fold (cleanup_ref p) ds s1)"
    by (induction ds arbitrary: s1) (auto simp: owns_nothing_refs.cleanup_ref)
  then have "owns_nothing p (drop_queues p pr1 (fold (cleanup_ref p) ds s1))"
    by (rule owns_nothing.drop_queues)
  with assms(2) show ?thesis by (simp add: owns_nothing_def)
qed

text \<open>\<open>release_ops\<close>: threads may exit, a process may give up its nodes, and one without nodes and
  handles may go.\<close>

locale release_ops = drive_ops +
  assumes thread_del: "I s \<Longrightarrow>
      I (upd_proc p (\<lambda>pr. pr\<lparr>p_threads := mdel t (p_threads pr), p_waiting := kw (p_waiting pr)\<rparr>) s)"
    and notified: "I s \<Longrightarrow> I (s\<lparr>s_notified := nl\<rparr>)"
    and contexts: "I s \<Longrightarrow> I (s\<lparr>s_contexts := cs\<rparr>)"
    and disown_all: "mget (s_procs s) p = Some pr \<Longrightarrow>
      release_nodes (map snd (p_nodes pr)) (upd_proc p (\<lambda>pr. pr\<lparr>p_nodes := []\<rparr>) s) = Some s' \<Longrightarrow>
      I s \<Longrightarrow> I s'"
    and proc_del: "mget (s_procs s) p = Some pr \<Longrightarrow> p_refs pr = [] \<Longrightarrow> p_nodes pr = [] \<Longrightarrow>
      I s \<Longrightarrow> I (s\<lparr>s_procs := mdel p (s_procs s)\<rparr>)"
begin

lemma thread_release: "thread_release p t s = Some (active, s') \<Longrightarrow> I s \<Longrightarrow> I s'"
proof -
  have resumed: "I (s\<lparr>s_notified := nl, s_resumes := rs\<rparr>)" if "I s" for s nl rs
    using resumes [OF notified [OF that]] by simp
  assume "thread_release p t s = Some (active, s')" "I s"
  then show ?thesis
    by (auto simp: thread_release_def Let_def case_prod_beta simp del: unwind_stack.simps elim!: bind_Some_elim
        intro!: release_work send_failed_reply unwind_stack resumed notified thread_del
        split: option.splits)
qed

lemma release_threads: "release_threads p ts s = Some s' \<Longrightarrow> I s \<Longrightarrow> I s'"
  by (induction ts arbitrary: s) (auto elim!: bind_Some_elim intro: thread_release)

lemma cleanup_refs: "I s \<Longrightarrow> I (fold (cleanup_ref p) ds s)"
  by (induction ds arbitrary: s) (auto simp: cleanup_ref)

lemma drop_manager: "I s \<Longrightarrow> I (drop_manager p ctx c s)"
  by (auto simp: drop_manager_def contexts split: option.split)

lemma release_proc:
  assumes run: "release_proc ord p s = Some s'" and I: "I s"
  shows "I s'"
proof (cases "mget (s_procs s) p")
  case None
  with run I show ?thesis by (simp add: release_proc_def)
next
  case (Some pr)
  with run obtain c s1 pr1 s2 pr2 pr3 pr4 where
    s1: "release_threads p (ord (mkeys (p_threads pr))) (drop_manager p (p_context pr) c s) = Some s1"
    and pr1: "mget (s_procs s1) p = Some pr1"
    and s2: "release_nodes (map snd (p_nodes pr1)) (upd_proc p (\<lambda>pr. pr\<lparr>p_nodes := []\<rparr>) s1) = Some s2"
    and pr2: "mget (s_procs s2) p = Some pr2"
    and pr3: "mget (s_procs (fold (cleanup_ref p) (mkeys (p_refs pr2)) s2)) p = Some pr3"
    and pr4: "mget (s_procs (drop_queues p pr3 (fold (cleanup_ref p) (mkeys (p_refs pr2)) s2))) p = Some pr4"
    and s': "s' = (let s = drop_queues p pr3 (fold (cleanup_ref p) (mkeys (p_refs pr2)) s2);
        s = s\<lparr>s_procs := mdel p (s_procs s)\<rparr>
      in case p_alloc pr4 of None \<Rightarrow> s | Some a \<Rightarrow> lose_buffers (buffers a) s)"
    by (auto simp: release_proc_def Let_def elim!: bind_Some_elim)
  have "I s1" by (rule release_threads [OF s1 drop_manager [OF I]])
  then have "I s2" by (rule disown_all [OF pr1 s2])
  then have "I (drop_queues p pr3 (fold (cleanup_ref p) (mkeys (p_refs pr2)) s2))"
    by (intro drop_queues cleanup_refs)
  with pr4 no_refs_left [OF pr2 refl pr3 pr4] no_nodes_left [OF s2 pr4] s' show ?thesis
    by (auto simp: Let_def intro!: lose_buffers proc_del split: option.split)
qed

end

end
