(* ===== verification/Driver.thy ===== *)
theory Driver
  imports Release
begin

text \<open>
  The driver's entry points (\<^verbatim>\<open>src/crates/aim-binder-driver/src/driver.rs\<close>). Each runs with the
  driver lock held from its first to its last access of the state; what it does on unlocking
  (\<open>Driver::unlock\<close>: resumes, condition variables and notifiers) is the list of effects it returns.

  \<open>thread_read\<close> gives up the lock inside its loop, to deliver wakes or to wait on the thread's
  condition variable. \<open>read_loop\<close> runs from acquiring the lock to the next time it is given up; the
  call is then \<open>Blocked\<close> and \<open>resume_read\<close> goes on from there.
\<close>

section \<open>Devices\<close>

datatype device = Binder | HwBinder | VndBinder

definition device_path :: "device \<Rightarrow> rstring" where
  "device_path d = rstr (case d of
     Binder \<Rightarrow> ''/dev/binder'' | HwBinder \<Rightarrow> ''/dev/hwbinder'' | VndBinder \<Rightarrow> ''/dev/vndbinder'')"

definition device_from_path :: "rstring \<Rightarrow> device option" where
  "device_from_path path = find (\<lambda>d. device_path d = path) [Binder, HwBinder, VndBinder]"

section \<open>Receipts, tracing and shadowing\<close>

definition unlock :: "bstate \<Rightarrow> wake_effect list \<times> bstate" where
  "unlock s = (let (w, s) = take_wakes s in (deliver_wakes w, s))"

definition delivery_id :: "proc_id \<Rightarrow> tid \<Rightarrow> u64 \<Rightarrow> bstate \<Rightarrow> txn_id result option" where
  "delivery_id p t ptr s =
     (case alloc_of s p of
        None \<Rightarrow> Some (Inl EBADF)
      | Some a \<Rightarrow>
        (case offset_of ptr a of
           None \<Rightarrow> Some (Inl EINVAL)
         | Some off \<Rightarrow> do {
             b \<leftarrow> mget (buffers a) off;
             Some (case b_delivery b of
                     Some (owner, x) \<Rightarrow> if owner = t then Inr x else Inl EPERM
                   | None \<Rightarrow> Inl EPERM) }))"

definition reject_delivery ::
  "proc_id \<Rightarrow> tid \<Rightarrow> u64 \<Rightarrow> txn_id \<Rightarrow> bstate \<Rightarrow> (unit result \<times> wake_effect list \<times> bstate) option" where
  "reject_delivery p t ptr x s =
     (case alloc_of s p of
        None \<Rightarrow> Some (Inl EBADF, [], s)
      | Some a \<Rightarrow>
        (case offset_of ptr a of
           None \<Rightarrow> Some (Inl EINVAL, [], s)
         | Some off \<Rightarrow> do {
             b \<leftarrow> mget (buffers a) off;
             if b_delivery b \<noteq> Some (t, x) \<or> \<not> b_allow_user_free b then Some (Inl EPERM, [], s)
             else
               let stack = do { th \<leftarrow> thread_of s p t; t_stack th } in
               case mget (s_txns s) x of
                 Some tx \<Rightarrow>
                   if x_to_proc tx \<noteq> Some p \<or> x_to_thread tx \<noteq> Some t \<or> x_buffer tx \<noteq> Some off \<or>
                      stack \<noteq> Some x
                   then Some (Inl EPERM, [], s)
                   else do {
                     let s = upd_thread p t (\<lambda>th. th\<lparr>t_stack := x_to_parent tx\<rparr>) s;
                     let s = upd_buffer p off (\<lambda>b. b\<lparr>b_txn := None\<rparr>) s;
                     let s = cleanup_transaction x BR_FAILED_REPLY s;
                     s \<leftarrow> free_buffer_failed p off s;
                     let (eff, s) = unlock s;
                     Some (Inr (), eff, s) }
               | None \<Rightarrow> do {
                   let s = upd_buffer p off (\<lambda>b. b\<lparr>b_txn := None\<rparr>) s;
                   let s = cleanup_transaction x BR_FAILED_REPLY s;
                   s \<leftarrow> free_buffer_failed p off s;
                   let (eff, s) = unlock s;
                   Some (Inr (), eff, s) } }))"

definition start_trace :: "bstate \<Rightarrow> wake_effect list \<times> bstate" where
  "start_trace s = unlock (s\<lparr>s_trace := Some (trace_new (s_clock s))\<rparr>)"

definition capture_trace :: "rstring \<Rightarrow> u32 \<Rightarrow> bstate \<Rightarrow> wake_effect list \<times> bstate" where
  "capture_trace descr code s = unlock (upd_trace (trace_capture descr code) s)"

definition take_trace :: "bstate \<Rightarrow> trace_record list \<times> wake_effect list \<times> bstate" where
  "take_trace s =
     (case s_trace s of
        None \<Rightarrow> ([], unlock s)
      | Some t \<Rightarrow> let (records, t) = trace_take t in (records, unlock (s\<lparr>s_trace := Some t\<rparr>)))"

definition stack_and_queue :: "tid \<Rightarrow> bproc \<Rightarrow> nat option \<times> nat" where
  "stack_and_queue t pr =
     (do { th \<leftarrow> mget (p_threads pr) t; t_stack th },
      length (p_todo pr) + (case mget (p_threads pr) t of None \<Rightarrow> 0 | Some th \<Rightarrow> length (t_todo th)))"

fun locate_pending ::
  "bproc list \<Rightarrow> bstate \<Rightarrow> pending_trace_record \<Rightarrow> pending_trace_record option" where
  "locate_pending [] s r = Some r"
| "locate_pending (pr # prs) s r = do {
     c \<leftarrow> context_at s (p_context pr);
     let rec = ptr_record r;
     let r = (if c_name c = tc_device rec \<and> cr_pid (p_creds pr) = tc_from_pid rec
       then (let (st, q) = stack_and_queue (tc_from_tid rec) pr
             in r\<lparr>ptr_from_stack := st, ptr_from_queued := q\<rparr>) else r);
     let r = (if c_name c = tc_device rec \<and> cr_pid (p_creds pr) = tc_to_pid rec
       then (let (st, q) = stack_and_queue (tc_to_tid rec) pr
             in r\<lparr>ptr_to_stack := st, ptr_to_queued := q\<rparr>) else r);
     locate_pending prs s r }"

definition refresh_parents :: "bstate \<Rightarrow> pending_trace_record \<Rightarrow> pending_trace_record" where
  "refresh_parents s r =
     (case mget (s_txns s) (ptr_id r) of
        Some tx \<Rightarrow>
          if ptr_returning r then r
          else r\<lparr>ptr_record := (ptr_record r)\<lparr>tc_from_parent := x_from_parent tx,
                                               tc_to_parent := x_to_parent tx\<rparr>\<rparr>
      | None \<Rightarrow> r)"

fun locate_all ::
  "bproc list \<Rightarrow> bstate \<Rightarrow> pending_trace_record list \<Rightarrow> pending_trace_record list option" where
  "locate_all prs s [] = Some []"
| "locate_all prs s (r # rs) = do {
     r \<leftarrow> locate_pending prs s (refresh_parents s r);
     rs \<leftarrow> locate_all prs s rs;
     Some (r # rs) }"

text \<open>The processes are visited in the \<open>HashMap\<close>'s order, the argument \<open>ord\<close>.\<close>

definition pending_trace ::
  "(bproc list \<Rightarrow> bproc list) \<Rightarrow> bstate \<Rightarrow>
   (pending_trace_snapshot \<times> wake_effect list \<times> bstate) option" where
  "pending_trace ord s = do {
     let snap = (case s_trace s of
       None \<Rightarrow> \<lparr>pts_at = 0, pts_records = []\<rparr> | Some t \<Rightarrow> trace_snapshot (s_clock s) t);
     rs \<leftarrow> locate_all (ord (map snd (s_procs s))) s (pts_records snap);
     Some (snap\<lparr>pts_records := rs\<rparr>, unlock s) }"

text \<open>\<open>Driver::shadow\<close>: a sink is its number and the channel behind it.\<close>

definition driver_shadow ::
  "proc_id \<Rightarrow> u32 \<Rightarrow> sink_id \<Rightarrow> shadow_channel \<Rightarrow> bstate \<Rightarrow> node_id result \<times> wake_effect list \<times> bstate" where
  "driver_shadow p handle sink ch s =
     (case get_ref p handle False s of
        None \<Rightarrow> (Inl EINVAL, unlock s)
      | Some r \<Rightarrow>
        let sh = (case s_shadow s of None \<Rightarrow> shadow_default | Some sh \<Rightarrow> sh);
            sh = sh\<lparr>sh_sinks := (if mget (sh_sinks sh) sink = None then mput sink ch (sh_sinks sh)
                                 else sh_sinks sh)\<rparr>
        in (Inr (r_node r), unlock (s\<lparr>s_shadow := Some (shadow_watch (r_node r) sink sh)\<rparr>)))"

section \<open>Opening, mapping, polling and releasing\<close>

definition driver_open :: "device \<Rightarrow> credentials \<Rightarrow> bstate \<Rightarrow> (proc_id \<times> wake_effect list \<times> bstate) option" where
  "driver_open d creds s = do {
     let (c, s) = context_index (device_path d) s;
     (p, s) \<leftarrow> new_proc c creds s;
     Some (p, unlock s) }"

definition set_nonblocking :: "proc_id \<Rightarrow> bool \<Rightarrow> bstate \<Rightarrow> wake_effect list \<times> bstate" where
  "set_nonblocking p b s = unlock (upd_proc p (\<lambda>pr. pr\<lparr>p_nonblocking := b\<rparr>) s)"

definition set_notifier :: "proc_id \<Rightarrow> notifier \<Rightarrow> bstate \<Rightarrow> wake_effect list \<times> bstate" where
  "set_notifier p n s = unlock (upd_proc p (\<lambda>pr. pr\<lparr>p_notifier := Some n\<rparr>) s)"

definition driver_mmap ::
  "proc_id \<Rightarrow> u64 \<Rightarrow> nat \<Rightarrow> bool \<Rightarrow> byte list \<Rightarrow> bstate \<Rightarrow> unit result \<times> wake_effect list \<times> bstate" where
  "driver_mmap p vm len writable mem s =
     (if writable then (Inl EPERM, [], s)
      else case mget (s_procs s) p of
        None \<Rightarrow> (Inl EBADF, [], s)
      | Some pr \<Rightarrow>
          if p_alloc pr \<noteq> None then (Inl EBUSY, [], s)
          else (Inr (), unlock (upd_proc p (\<lambda>pr. pr\<lparr>p_alloc := Some (new_allocator vm len),
                                                  p_receive := Some mem\<rparr>) s)))"

definition driver_poll :: "proc_id \<Rightarrow> tid \<Rightarrow> bstate \<Rightarrow> bool result \<times> wake_effect list \<times> bstate" where
  "driver_poll p t s =
     (case thread_or_create p t s of
        (Inl e, s) \<Rightarrow> (Inl e, [], s)
      | (Inr _, s) \<Rightarrow>
        let s = upd_thread p t (\<lambda>th. th\<lparr>t_looper := t_looper th OR LOOPER_POLL\<rparr>) s
        in (Inr (has_work p t (available_for_proc_work p t s) s), unlock s))"

definition flush_thread :: "proc_id \<Rightarrow> tid \<Rightarrow> bstate \<Rightarrow> bstate option" where
  "flush_thread p t s = do {
     _ \<leftarrow> thread_of s p t;
     Some (wake_waiter p t (upd_thread p t (\<lambda>th. th\<lparr>t_looper_need_return := True\<rparr>) s)) }"

fun flush_threads :: "proc_id \<Rightarrow> tid list \<Rightarrow> bstate \<Rightarrow> bstate option" where
  "flush_threads p [] s = Some s"
| "flush_threads p (t # ts) s = do { s \<leftarrow> flush_thread p t s; flush_threads p ts s }"

definition driver_flush ::
  "(tid list \<Rightarrow> tid list) \<Rightarrow> proc_id \<Rightarrow> bstate \<Rightarrow> (unit result \<times> wake_effect list \<times> bstate) option" where
  "driver_flush ord p s =
     (case mget (s_procs s) p of
        None \<Rightarrow> Some (Inl EBADF, [], s)
      | Some pr \<Rightarrow> do {
          s \<leftarrow> flush_threads p (ord (mkeys (p_threads pr))) s;
          Some (Inr (), unlock s) })"

definition interrupt :: "proc_id \<Rightarrow> tid \<Rightarrow> bstate \<Rightarrow> wake_effect list \<times> bstate" where
  "interrupt p t s =
     unlock (if thread_exists p t s
             then wake_waiter p t (upd_thread p t (\<lambda>th. th\<lparr>t_interrupted := True\<rparr>) s) else s)"

definition driver_release ::
  "(tid list \<Rightarrow> tid list) \<Rightarrow> proc_id \<Rightarrow> bstate \<Rightarrow> (wake_effect list \<times> bstate) option" where
  "driver_release ord p s = do {
     let tids = (case mget (s_procs s) p of None \<Rightarrow> [] | Some pr \<Rightarrow> ord (mkeys (p_threads pr)));
     let s = fold (wake_waiter p) tids s;
     s \<leftarrow> release_proc ord p s;
     Some (unlock s) }"

section \<open>Context manager and node queries\<close>

definition upd_context :: "nat \<Rightarrow> (bcontext \<Rightarrow> bcontext) \<Rightarrow> bstate \<Rightarrow> bstate" where
  "upd_context c f s = s\<lparr>s_contexts := (s_contexts s)[c := f (s_contexts s ! c)]\<rparr>"

definition set_context_manager ::
  "proc_id \<Rightarrow> flat_binder_object option \<Rightarrow> bstate \<Rightarrow> (unit result \<times> bstate) option" where
  "set_context_manager p fbo s = do {
     pr \<leftarrow> mget (s_procs s) p;
     c \<leftarrow> context_at s (p_context pr);
     let euid = cr_euid (p_creds pr);
     if c_mgr_node c \<noteq> None then Some (Inl EBUSY, s)
     else if c_mgr_uid c \<noteq> None \<and> c_mgr_uid c \<noteq> Some euid then Some (Inl EPERM, s)
     else do {
       let s = upd_context (p_context pr) (\<lambda>c. c\<lparr>c_mgr_uid := Some euid\<rparr>) s;
       let fbo = (case fbo of None \<Rightarrow> flat_binder_object_default | Some f \<Rightarrow> f);
       (n, s) \<leftarrow> new_node p (fbo_binder fbo) (fbo_cookie fbo) (fbo_flags fbo) s;
       nd \<leftarrow> mget (s_nodes s) n;
       w \<leftarrow> u32_inc (n_local_weak nd);
       st \<leftarrow> u32_inc (n_local_strong nd);
       let s = upd_node n (\<lambda>nd. nd\<lparr>n_local_weak := w, n_local_strong := st, n_has_strong := True,
                                    n_has_weak := True\<rparr>) s;
       Some (Inr (), upd_context (p_context pr) (\<lambda>c. c\<lparr>c_mgr_node := Some n\<rparr>) s) } }"

definition node_info_for_ref :: "proc_id \<Rightarrow> byte list \<Rightarrow> bstate \<Rightarrow> (unit result \<times> byte list) option" where
  "node_info_for_ref p arg s = do {
     handle \<leftarrow> u32_at arg 0;
     if list_ex (\<lambda>b. b \<noteq> 0) (drop 4 arg) then Some (Inl EINVAL, arg)
     else do {
       pr \<leftarrow> mget (s_procs s) p;
       c \<leftarrow> context_at s (p_context pr);
       is_mgr \<leftarrow> (case c_mgr_node c of
                     None \<Rightarrow> Some False
                   | Some m \<Rightarrow> do { nd \<leftarrow> mget (s_nodes s) m; Some (n_proc nd = Some p) });
       if \<not> is_mgr then Some (Inl EPERM, arg)
       else case get_ref p handle True s of
         None \<Rightarrow> Some (Inl EINVAL, arg)
       | Some r \<Rightarrow> do {
           nd \<leftarrow> mget (s_nodes s) (r_node r);
           let strong = n_local_strong nd + n_internal_strong nd;
           _ \<leftarrow> (if strong < 2 ^ 32 then Some () else None);
           arg \<leftarrow> put_u32 arg 4 (of_nat strong);
           arg \<leftarrow> put_u32 arg 8 (of_nat (n_local_weak nd));
           Some (Inr (), arg) } } }"

definition node_debug_info :: "proc_id \<Rightarrow> byte list \<Rightarrow> bstate \<Rightarrow> byte list option" where
  "node_debug_info p arg s = do {
     ptr \<leftarrow> u64_at arg 0;
     let arg = replicate (length arg) 0;
     pr \<leftarrow> mget (s_procs s) p;
     case filter (\<lambda>(q, _). ptr < q) (p_nodes pr) of
       [] \<Rightarrow> Some arg
     | (_, n) # _ \<Rightarrow> do {
         nd \<leftarrow> mget (s_nodes s) n;
         arg \<leftarrow> put_u64 arg 0 (n_ptr nd);
         arg \<leftarrow> put_u64 arg 8 (n_cookie nd);
         arg \<leftarrow> put_u32 arg 16 (if n_has_strong nd then 1 else 0);
         put_u32 arg 20 (if n_has_weak nd then 1 else 0) } }"

section \<open>Ioctls without a read\<close>

definition get_extended_error :: "proc_id \<Rightarrow> tid \<Rightarrow> byte list \<Rightarrow> bstate \<Rightarrow> (byte list \<times> bstate) option" where
  "get_extended_error p t arg s = do {
     th \<leftarrow> thread_of s p t;
     let ee = t_ee th;
     let s = upd_thread p t (set_ee 0 BR_OK 0) s;
     arg \<leftarrow> put_u32 arg 0 (ee_id ee);
     arg \<leftarrow> put_u32 arg 4 (ee_command ee);
     arg \<leftarrow> put_i32 arg 8 (ee_param ee);
     Some (arg, s) }"

definition dispatch ::
  "proc_id \<Rightarrow> tid \<Rightarrow> u32 \<Rightarrow> byte list \<Rightarrow> bstate \<Rightarrow> (unit result \<times> byte list \<times> bstate) option" where
  "dispatch p t cmd arg s =
     (if cmd = BINDER_SET_MAX_THREADS then do {
        _ \<leftarrow> mget (s_procs s) p;
        n \<leftarrow> u32_at arg 0;
        Some (Inr (), arg, upd_proc p (\<lambda>pr. pr\<lparr>p_max_threads := unat n\<rparr>) s) }
      else if cmd = BINDER_SET_CONTEXT_MGR then do {
        (r, s) \<leftarrow> set_context_manager p None s;
        Some (r, arg, s) }
      else if cmd = BINDER_SET_CONTEXT_MGR_EXT then do {
        fbo \<leftarrow> flat_binder_object_decode arg;
        (r, s) \<leftarrow> set_context_manager p (Some fbo) s;
        Some (r, arg, s) }
      else if cmd = BINDER_THREAD_EXIT then do {
        (_, s) \<leftarrow> thread_release p t s;
        Some (Inr (), arg, s) }
      else if cmd = BINDER_VERSION then do {
        arg \<leftarrow> put_i32 arg 0 CURRENT_PROTOCOL_VERSION;
        Some (Inr (), arg, s) }
      else if cmd = BINDER_GET_NODE_INFO_FOR_REF then do {
        (r, arg) \<leftarrow> node_info_for_ref p arg s;
        Some (r, arg, s) }
      else if cmd = BINDER_GET_NODE_DEBUG_INFO then do {
        arg \<leftarrow> node_debug_info p arg s;
        Some (Inr (), arg, s) }
      else if cmd = BINDER_ENABLE_ONEWAY_SPAM_DETECTION then do {
        _ \<leftarrow> mget (s_procs s) p;
        n \<leftarrow> u32_at arg 0;
        Some (Inr (), arg, upd_proc p (\<lambda>pr. pr\<lparr>p_spam_detection := (n \<noteq> 0)\<rparr>) s) }
      else if cmd = BINDER_GET_EXTENDED_ERROR then do {
        (arg, s) \<leftarrow> get_extended_error p t arg s;
        Some (Inr (), arg, s) }
      else Some (Inl EINVAL, arg, s))"

section \<open>The blocking read\<close>

datatype read_event =
    ReadErr errno
  | ReadEnd "byte list"
  | ReadPark
  | ReadYield bool bool "byte list" "wake_effect list"
  | ReadSleep bool bool "byte list" condvar

definition clear_looper_waiting :: "proc_id \<Rightarrow> tid \<Rightarrow> bstate \<Rightarrow> bstate" where
  "clear_looper_waiting p t = upd_thread p t (\<lambda>th. th\<lparr>t_looper := t_looper th AND NOT LOOPER_WAITING\<rparr>)"

text \<open>The head of the outer loop: whether process work may be taken, and \<open>O_NONBLOCK\<close>.\<close>

definition read_setup :: "proc_id \<Rightarrow> tid \<Rightarrow> bstate \<Rightarrow> (bool \<times> bool) result \<times> bstate" where
  "read_setup p t s =
     (let wait_for_proc_work = available_for_proc_work p t s;
          nonblocking = (case mget (s_procs s) p of None \<Rightarrow> False | Some pr \<Rightarrow> p_nonblocking pr)
      in if thread_exists p t s
         then (Inr (wait_for_proc_work, nonblocking),
               upd_thread p t (\<lambda>th. th\<lparr>t_looper := t_looper th OR LOOPER_WAITING\<rparr>) s)
         else (Inl EBADF, s))"

text \<open>Nothing to do: fail, deliver the pending wakes, park or wait.\<close>

definition read_block ::
  "proc_id \<Rightarrow> tid \<Rightarrow> resume option \<Rightarrow> bool \<Rightarrow> bool \<Rightarrow> byte list \<Rightarrow> thread \<Rightarrow> bstate \<Rightarrow> read_event \<times> bstate" where
  "read_block p t park wfpw nonblocking out th s =
     (if nonblocking then (ReadErr EAGAIN, clear_looper_waiting p t s)
      else if t_interrupted th then
        (ReadErr EINTR, clear_looper_waiting p t (upd_thread p t (\<lambda>th. th\<lparr>t_interrupted := False\<rparr>) s))
      else
        let (w, s) = take_wakes s in
        if \<not> wakes_empty w then (ReadYield wfpw nonblocking out (deliver_wakes w), s)
        else
          let s = (if wfpw then upd_proc p (\<lambda>pr. pr\<lparr>p_waiting := p_waiting pr @ [t]\<rparr>) s else s) in
          case park of
            Some r \<Rightarrow> (ReadPark, upd_thread p t (\<lambda>th. th\<lparr>t_parked := Some r\<rparr>) (clear_looper_waiting p t s))
          | None \<Rightarrow> (ReadSleep wfpw nonblocking out (t_wait th), s))"

partial_function (option) read_loop ::
  "'g guest \<Rightarrow> proc_id \<Rightarrow> tid \<Rightarrow> nat \<Rightarrow> nat \<Rightarrow> resume option \<Rightarrow> bool \<Rightarrow> bool \<Rightarrow> byte list \<Rightarrow> bstate \<Rightarrow> 'g \<Rightarrow>
   (read_event \<times> bstate \<times> 'g) option" where
  "read_loop G p t start capacity park wfpw nonblocking out s g =
     (case (if has_work p t wfpw s then None else thread_of s p t) of
        Some th \<Rightarrow>
          let (ev, s) = read_block p t park wfpw nonblocking out th s in Some (ev, s, g)
      | None \<Rightarrow>
          if \<not> thread_exists p t s then Some (ReadErr EBADF, s, g)
          else
            Option.bind (read_pass G p t wfpw start capacity out (clear_looper_waiting p t s) g)
              (\<lambda>(pass, out, s, g).
                 case pass of
                   PassDone \<Rightarrow> Some (ReadEnd out, s, g)
                 | Retry \<Rightarrow>
                   (case read_setup p t s of
                      (Inl e, s) \<Rightarrow> Some (ReadErr e, s, g)
                    | (Inr (wfpw, nonblocking), s) \<Rightarrow>
                        read_loop G p t start capacity park wfpw nonblocking out s g)))"

text \<open>A loop that returns blocked, found its thread gone, ended with a pass, or went round.\<close>

lemma read_loop_rule [consumes 1, case_names block gone pass_end setup_end again]:
  assumes run: "read_loop G p t start capacity park wfpw nonblocking out s g = Some r"
    and block: "\<And>wfpw nonblocking out s g th ev s'. \<not> has_work p t wfpw s \<Longrightarrow> thread_of s p t = Some th \<Longrightarrow>
      read_block p t park wfpw nonblocking out th s = (ev, s') \<Longrightarrow> P wfpw nonblocking out s g (ev, s', g)"
    and gone: "\<And>wfpw nonblocking out s g. \<not> thread_exists p t s \<Longrightarrow>
      P wfpw nonblocking out s g (ReadErr EBADF, s, g)"
    and pass_end: "\<And>wfpw nonblocking out s g out1 s1 g1. has_work p t wfpw s \<Longrightarrow> thread_exists p t s \<Longrightarrow>
      read_pass G p t wfpw start capacity out (clear_looper_waiting p t s) g =
        Some (PassDone, out1, s1, g1) \<Longrightarrow> P wfpw nonblocking out s g (ReadEnd out1, s1, g1)"
    and setup_end: "\<And>wfpw nonblocking out s g out1 s1 g1 e s2. has_work p t wfpw s \<Longrightarrow>
      read_pass G p t wfpw start capacity out (clear_looper_waiting p t s) g =
        Some (Retry, out1, s1, g1) \<Longrightarrow> read_setup p t s1 = (Inl e, s2) \<Longrightarrow>
      P wfpw nonblocking out s g (ReadErr e, s2, g1)"
    and again: "\<And>wfpw nonblocking out s g out1 s1 g1 w n s2 r. has_work p t wfpw s \<Longrightarrow>
      read_pass G p t wfpw start capacity out (clear_looper_waiting p t s) g =
        Some (Retry, out1, s1, g1) \<Longrightarrow> read_setup p t s1 = (Inr (w, n), s2) \<Longrightarrow>
      P w n out1 s2 g1 r \<Longrightarrow> P wfpw nonblocking out s g r"
  shows "P wfpw nonblocking out s g r"
proof -
  have "G' = G \<longrightarrow> p' = p \<longrightarrow> t' = t \<longrightarrow> start' = start \<longrightarrow> capacity' = capacity \<longrightarrow> park' = park \<longrightarrow>
      P wfpw nonblocking out s g r"
    if "read_loop G' p' t' start' capacity' park' wfpw nonblocking out s g = Some r"
    for G' p' t' start' capacity' park' wfpw nonblocking out s g r
    using that
  proof (rule read_loop.raw_induct [rotated], goal_cases)
    case (1 rec G' p' t' start' capacity' park' wfpw nonblocking out s g r)
    have exists: "thread_exists p t s \<longleftrightarrow> thread_of s p t \<noteq> None" for s by (simp add: thread_exists_def)
    from "1"(2) show ?case
      by (auto simp: Let_def exists elim!: bind_Some_elim
          intro!: block gone pass_end setup_end intro: again [OF _ _ _ "1"(1) [rule_format]]
          split: option.splits if_splits prod.splits pass.splits sum.splits)
  qed
  with run show ?thesis by blast
qed

text \<open>A read that gave up the lock: where it stands, and the condition variable it waits on (none
  when it only delivers wakes).\<close>

record read_wait =
  rw_proc :: proc_id
  rw_tid :: tid
  rw_bwr :: write_read
  rw_park :: "resume option"
  rw_wfp :: bool
  rw_nonblocking :: bool
  rw_out :: "byte list"
  rw_condvar :: "condvar option"

datatype progress =
    Returned "unit result" "byte list" "wake_effect list"
  | Parked "byte list" "wake_effect list"
  | Blocked read_wait "wake_effect list"

type_synonym 'g progressed = "(progress \<times> bstate \<times> 'g) option"

text \<open>The end of \<open>ioctl_parking\<close>.\<close>

definition end_ioctl :: "proc_id \<Rightarrow> tid \<Rightarrow> bstate \<Rightarrow> wake_effect list \<times> bstate" where
  "end_ioctl p t s = unlock (upd_thread p t (\<lambda>th. th\<lparr>t_looper_need_return := False\<rparr>) s)"

text \<open>The end of \<open>write_read\<close> after a read, with the wakeup for process work that remains.\<close>

definition wake_remaining :: "proc_id \<Rightarrow> bstate \<Rightarrow> bstate" where
  "wake_remaining p s =
     (case mget (s_procs s) p of
        None \<Rightarrow> s
      | Some pr \<Rightarrow> if p_todo pr = [] then s else wakeup_proc p s)"

definition end_read ::
  "proc_id \<Rightarrow> tid \<Rightarrow> bool \<Rightarrow> unit result \<Rightarrow> write_read \<Rightarrow> bstate \<Rightarrow> 'g \<Rightarrow> 'g progressed" where
  "end_read p t parked res bwr s g = do {
     arg \<leftarrow> write_read_encode bwr;
     let (eff, s) = end_ioctl p t (wake_remaining p s);
     Some (if parked then Parked arg eff else Returned res arg eff, s, g) }"

definition finish_read ::
  "'g guest \<Rightarrow> proc_id \<Rightarrow> tid \<Rightarrow> write_read \<Rightarrow> byte list \<Rightarrow> bstate \<Rightarrow> 'g \<Rightarrow> 'g progressed" where
  "finish_read G p t bwr out s g = do {
     let start = read_consumed bwr;
     let (spawn, s) = should_spawn_looper p t s;
     addr \<leftarrow> u64_add (read_buffer bwr) start;
     let (res, g) = g_copy_to_user G addr out g;
     let (res, g) = (if spawn \<and> res = Inr ()
       then g_copy_to_user G (read_buffer bwr) (u32_le BR_SPAWN_LOOPER) g else (res, g));
     consumed \<leftarrow> usize_add (unat start) (length out);
     end_read p t False res (bwr\<lparr>read_consumed := of_nat consumed\<rparr>) s g }"

definition after_read ::
  "'g guest \<Rightarrow> proc_id \<Rightarrow> tid \<Rightarrow> write_read \<Rightarrow> resume option \<Rightarrow> read_event \<Rightarrow> bstate \<Rightarrow> 'g \<Rightarrow> 'g progressed" where
  "after_read G p t bwr park ev s g =
     (case ev of
        ReadErr e \<Rightarrow> end_read p t False (Inl e) bwr s g
      | ReadPark \<Rightarrow> end_read p t True (Inr ()) bwr s g
      | ReadEnd out \<Rightarrow> finish_read G p t bwr out s g
      | ReadYield wfpw nonblocking out eff \<Rightarrow>
          Some (Blocked \<lparr>rw_proc = p, rw_tid = t, rw_bwr = bwr, rw_park = park, rw_wfp = wfpw,
            rw_nonblocking = nonblocking, rw_out = out, rw_condvar = None\<rparr> eff, s, g)
      | ReadSleep wfpw nonblocking out cv \<Rightarrow>
          Some (Blocked \<lparr>rw_proc = p, rw_tid = t, rw_bwr = bwr, rw_park = park, rw_wfp = wfpw,
            rw_nonblocking = nonblocking, rw_out = out, rw_condvar = Some cv\<rparr> [], s, g))"

definition thread_read ::
  "'g guest \<Rightarrow> proc_id \<Rightarrow> tid \<Rightarrow> write_read \<Rightarrow> resume option \<Rightarrow> bstate \<Rightarrow> 'g \<Rightarrow> 'g progressed" where
  "thread_read G p t bwr park s g =
     (let start = unat (read_consumed bwr); capacity = unat (read_size bwr) in
      if capacity < start then end_read p t False (Inl EFAULT) bwr s g
      else
        let out = (if start = 0 then u32_le BR_NOOP else []) in
        case read_setup p t s of
          (Inl e, s) \<Rightarrow> end_read p t False (Inl e) bwr s g
        | (Inr (wfpw, nonblocking), s) \<Rightarrow> do {
            (ev, s, g) \<leftarrow> read_loop G p t start capacity park wfpw nonblocking out s g;
            after_read G p t bwr park ev s g })"

text \<open>Back from delivering wakes or from the condition variable, with the lock held again.\<close>

definition resume_read :: "'g guest \<Rightarrow> read_wait \<Rightarrow> bstate \<Rightarrow> 'g \<Rightarrow> 'g progressed" where
  "resume_read G w s g = do {
     let p = rw_proc w;
     let t = rw_tid w;
     let s = (if rw_condvar w = None then s
              else upd_proc p (\<lambda>pr. pr\<lparr>p_waiting := filter (\<lambda>x. x \<noteq> t) (p_waiting pr)\<rparr>) s);
     (ev, s, g) \<leftarrow> read_loop G p t (unat (read_consumed (rw_bwr w))) (unat (read_size (rw_bwr w)))
                     (rw_park w) (rw_wfp w) (rw_nonblocking w) (rw_out w) s g;
     after_read G p t (rw_bwr w) (rw_park w) ev s g }"

section \<open>Ioctls\<close>

definition write_phase ::
  "'g guest \<Rightarrow> proc_id \<Rightarrow> tid \<Rightarrow> write_read \<Rightarrow> bstate \<Rightarrow> 'g \<Rightarrow>
   (unit result \<times> write_read \<times> bstate \<times> 'g) option" where
  "write_phase G p t bwr s g =
     (let consumed = unat (write_consumed bwr); size = unat (write_size bwr) in
      if size < consumed then Some (Inl EFAULT, bwr, s, g)
      else do {
        addr \<leftarrow> u64_add (write_buffer bwr) (write_consumed bwr);
        case read_user G addr (size - consumed) g of
          (Inl e, g) \<Rightarrow> Some (Inl e, bwr, s, g)
        | (Inr wr, g) \<Rightarrow> do {
            (res, done, s, g) \<leftarrow> thread_write G p t wr 0 s g;
            Some (res, bwr\<lparr>write_consumed := of_nat (consumed + done)\<rparr>, s, g) } })"

definition write_read_ioctl ::
  "'g guest \<Rightarrow> proc_id \<Rightarrow> tid \<Rightarrow> byte list \<Rightarrow> resume option \<Rightarrow> bstate \<Rightarrow> 'g \<Rightarrow> 'g progressed" where
  "write_read_ioctl G p t arg park s g = do {
     bwr \<leftarrow> write_read_decode arg;
     (res, bwr, s, g) \<leftarrow> (if 0 < write_size bwr then write_phase G p t bwr s g else Some (Inr (), bwr, s, g));
     case res of
       Inl e \<Rightarrow> do {
         arg \<leftarrow> write_read_encode (bwr\<lparr>read_consumed := 0\<rparr>);
         let (eff, s) = end_ioctl p t s;
         Some (Returned (Inl e) arg eff, s, g) }
     | Inr _ \<Rightarrow>
       if 0 < read_size bwr then thread_read G p t bwr park s g
       else do {
         arg \<leftarrow> write_read_encode bwr;
         let (eff, s) = end_ioctl p t s;
         Some (Returned (Inr ()) arg eff, s, g) } }"

definition ioctl_parking ::
  "'g guest \<Rightarrow> proc_id \<Rightarrow> tid \<Rightarrow> u32 \<Rightarrow> byte list \<Rightarrow> resume option \<Rightarrow> bstate \<Rightarrow> 'g \<Rightarrow> 'g progressed" where
  "ioctl_parking G p t cmd arg park s g =
     (if length arg \<noteq> ioc_size cmd then Some (Returned (Inl EINVAL) arg [], s, g)
      else case thread_or_create p t s of
        (Inl e, s) \<Rightarrow> let (eff, s) = unlock s in Some (Returned (Inl e) arg eff, s, g)
      | (Inr _, s) \<Rightarrow>
        if cmd = BINDER_WRITE_READ then write_read_ioctl G p t arg park s g
        else do {
          (res, arg, s) \<leftarrow> dispatch p t cmd arg s;
          let (eff, s) = end_ioctl p t s;
          Some (Returned res arg eff, s, g) })"

definition ioctl :: "'g guest \<Rightarrow> proc_id \<Rightarrow> tid \<Rightarrow> u32 \<Rightarrow> byte list \<Rightarrow> bstate \<Rightarrow> 'g \<Rightarrow> 'g progressed" where
  "ioctl G p t cmd arg s g = ioctl_parking G p t cmd arg None s g"

definition ioctl_or_park ::
  "'g guest \<Rightarrow> proc_id \<Rightarrow> tid \<Rightarrow> u32 \<Rightarrow> byte list \<Rightarrow> resume \<Rightarrow> bstate \<Rightarrow> 'g \<Rightarrow> 'g progressed" where
  "ioctl_or_park G p t cmd arg resume s g = ioctl_parking G p t cmd arg (Some resume) s g"

text \<open>\<open>ioctl_user\<close> around the ioctl: the argument copied in, and the result copied out.\<close>

definition ioctl_user_in :: "'g guest \<Rightarrow> u32 \<Rightarrow> u64 \<Rightarrow> 'g \<Rightarrow> byte list result \<times> 'g" where
  "ioctl_user_in G cmd addr g =
     (let n = ioc_size cmd in
      if drop_bit 30 cmd AND 1 \<noteq> 0 \<and> n \<noteq> 0 then read_user G addr n g
      else (Inr (replicate n 0), g))"

definition ioctl_user_out ::
  "'g guest \<Rightarrow> u32 \<Rightarrow> u64 \<Rightarrow> unit result \<Rightarrow> byte list \<Rightarrow> 'g \<Rightarrow> unit result \<times> 'g" where
  "ioctl_user_out G cmd addr res arg g =
     (if drop_bit 31 cmd \<noteq> 0 \<and> arg \<noteq> [] \<and> (res = Inr () \<or> cmd = BINDER_WRITE_READ)
      then (case g_copy_to_user G addr arg g of (Inl e, g) \<Rightarrow> (Inl e, g) | (Inr _, g) \<Rightarrow> (res, g))
      else (res, g))"

definition ioctl_user ::
  "'g guest \<Rightarrow> proc_id \<Rightarrow> tid \<Rightarrow> u32 \<Rightarrow> u64 \<Rightarrow> bstate \<Rightarrow> 'g \<Rightarrow> 'g progressed" where
  "ioctl_user G p t cmd addr s g =
     (case ioctl_user_in G cmd addr g of
        (Inl e, g) \<Rightarrow> Some (Returned (Inl e) [] [], s, g)
      | (Inr arg, g) \<Rightarrow> do {
          (pg, s, g) \<leftarrow> ioctl G p t cmd arg s g;
          case pg of
            Returned res arg eff \<Rightarrow>
              let (res, g) = ioctl_user_out G cmd addr res arg g in Some (Returned res arg eff, s, g)
          | _ \<Rightarrow> Some (pg, s, g) })"

section \<open>Forwarding\<close>

definition inbound_sender :: "proc_id \<Rightarrow> tid \<Rightarrow> u64 \<Rightarrow> bstate \<Rightarrow> credentials result" where
  "inbound_sender p t inbound s =
     (case mget (s_procs s) p of
        None \<Rightarrow> Inl ESRCH
      | Some pr \<Rightarrow>
        if cr_euid (p_creds pr) \<noteq> 1000 then Inl EPERM
        else
          (case do {
             th \<leftarrow> mget (p_threads pr) t;
             x \<leftarrow> t_stack th;
             tx \<leftarrow> mget (s_txns s) x;
             off \<leftarrow> (if x_to_proc tx \<noteq> Some p \<or> x_to_thread tx \<noteq> Some t \<or> is_oneway tx then None
                     else x_buffer tx);
             a \<leftarrow> p_alloc pr;
             addr \<leftarrow> u64_add (vm_start a) (of_nat off);
             if addr \<noteq> inbound then None else Some (x_sender tx) } of
             None \<Rightarrow> Inl EPERM
           | Some c \<Rightarrow> Inr c))"

definition forward_inbound_transaction ::
  "'g guest \<Rightarrow> proc_id \<Rightarrow> tid \<Rightarrow> u64 \<Rightarrow> transaction_data \<Rightarrow> bstate \<Rightarrow> 'g \<Rightarrow>
   (unit result \<times> wake_effect list \<times> bstate \<times> 'g) option" where
  "forward_inbound_transaction G p t inbound tr s g =
     (if td_flags tr AND TF_ONE_WAY \<noteq> 0 then Some (Inl EINVAL, [], s, g)
      else case inbound_sender p t inbound s of
        Inl e \<Rightarrow> let (eff, s) = unlock s in Some (Inl e, eff, s, g)
      | Inr sender \<Rightarrow> do {
          let s = upd_thread p t (\<lambda>th. th\<lparr>t_forwarded := Some sender\<rparr>) s;
          (s, g) \<leftarrow> transaction G p t tr False 0 s g;
          _ \<leftarrow> thread_of s p t;
          let (eff, s) = unlock (upd_thread p t (\<lambda>th. th\<lparr>t_forwarded := None\<rparr>) s);
          Some (Inr (), eff, s, g) })"

section \<open>What the entry points leave alone\<close>

text \<open>\<open>driver_ops\<close>: threads and processes may appear, and a process may map its receive buffer.\<close>

locale driver_ops = release_ops +
  assumes thread_add: "I s \<Longrightarrow>
      I (upd_proc p (\<lambda>pr. pr\<lparr>p_threads := mput t (thread_new cv) (p_threads pr)\<rparr>) s)"
    and condvars: "I s \<Longrightarrow> I (s\<lparr>s_condvars := cvs\<rparr>)"
    and clock: "I s \<Longrightarrow> I (s\<lparr>s_clock := now\<rparr>)"
    and proc_add: "new_proc c creds s = Some (i, s') \<Longrightarrow> I s \<Longrightarrow> I s'"
    and map_buffer: "mget (s_procs s) p = Some pr \<Longrightarrow> p_alloc pr = None \<Longrightarrow> len \<le> length mem \<Longrightarrow> I s \<Longrightarrow>
      I (upd_proc p (\<lambda>pr. pr\<lparr>p_alloc := Some (new_allocator vm len), p_receive := Some mem\<rparr>) s)"
begin

lemma unlock: "I s \<Longrightarrow> I (snd (unlock s))"
  by (simp add: unlock_def case_prod_beta take_wakes)

lemma unlocked: "unlock s = (eff, s') \<Longrightarrow> I s \<Longrightarrow> I s'"
  using unlock [of s] by simp

lemma thread_or_create: "thread_or_create p t s = (res, s') \<Longrightarrow> I s \<Longrightarrow> I s'"
  by (auto simp: thread_or_create_def intro!: thread_add condvars split: option.splits if_splits)

lemma reject_delivery: "reject_delivery p t ptr x s = Some (res, eff, s') \<Longrightarrow> I s \<Longrightarrow> I s'"
  by (auto simp: reject_delivery_def Let_def case_prod_beta elim!: bind_Some_elim dest!: free_buffer_failed unlocked
      intro!: cleanup_transaction buffer_mark thread split: option.splits if_splits)

lemma start_trace: "I s \<Longrightarrow> I (snd (start_trace s))"
  by (simp add: start_trace_def unlock trace)

lemma capture_trace: "I s \<Longrightarrow> I (snd (capture_trace descr code s))"
  by (simp add: capture_trace_def unlock upd_trace)

lemma take_trace: "I s \<Longrightarrow> I (snd (snd (take_trace s)))"
  by (simp add: take_trace_def unlock trace case_prod_beta Let_def split: option.split)

lemma pending_trace: "pending_trace ord s = Some (snap, eff, s') \<Longrightarrow> I s \<Longrightarrow> I s'"
  by (auto simp: pending_trace_def Let_def elim!: bind_Some_elim dest!: unlocked split: option.splits)

lemma driver_shadow: "I s \<Longrightarrow> I (snd (snd (driver_shadow p handle sink ch s)))"
  by (simp add: driver_shadow_def Let_def unlock shadow split: option.split)

lemma context_index: "I s \<Longrightarrow> I (snd (context_index name s))"
  by (simp add: context_index_def contexts split: option.split)

lemma driver_open: "driver_open d creds s = Some (p, eff, s') \<Longrightarrow> I s \<Longrightarrow> I s'"
  by (auto simp: driver_open_def Let_def case_prod_beta elim!: bind_Some_elim
      dest!: proc_add [OF _ context_index] unlocked)

lemma set_nonblocking: "I s \<Longrightarrow> I (snd (set_nonblocking p b s))"
  by (auto simp: set_nonblocking_def still_flags_def intro!: unlock flags)

lemma set_notifier: "I s \<Longrightarrow> I (snd (set_notifier p n s))"
  by (auto simp: set_notifier_def still_flags_def intro!: unlock flags)

lemma driver_mmap: "len \<le> length mem \<Longrightarrow> I s \<Longrightarrow> I (snd (snd (driver_mmap p vm len writable mem s)))"
  by (auto simp: driver_mmap_def intro!: unlock map_buffer split: option.split)

lemma driver_poll: "I s \<Longrightarrow> I (snd (snd (driver_poll p t s)))"
  by (auto simp: driver_poll_def Let_def dest!: thread_or_create intro!: unlock thread
      split: prod.split sum.split)

lemma flush_thread: "flush_thread p t s = Some s' \<Longrightarrow> I s \<Longrightarrow> I s'"
  by (auto simp: flush_thread_def elim!: bind_Some_elim intro!: wake_waiter thread)

lemma flush_threads: "flush_threads p ts s = Some s' \<Longrightarrow> I s \<Longrightarrow> I s'"
  by (induction ts arbitrary: s) (auto elim!: bind_Some_elim intro: flush_thread)

lemma driver_flush: "driver_flush ord p s = Some (res, eff, s') \<Longrightarrow> I s \<Longrightarrow> I s'"
  by (auto simp: driver_flush_def elim!: bind_Some_elim dest!: flush_threads unlocked
      split: option.splits)

lemma interrupt: "I s \<Longrightarrow> I (snd (interrupt p t s))"
  by (auto simp: interrupt_def intro!: unlock wake_waiter thread)

lemma wake_waiters: "I s \<Longrightarrow> I (fold (wake_waiter p) ts s)"
  by (induction ts arbitrary: s) (auto simp: wake_waiter)

lemma driver_release: "driver_release ord p s = Some (eff, s') \<Longrightarrow> I s \<Longrightarrow> I s'"
  by (auto simp: driver_release_def Let_def elim!: bind_Some_elim
      dest!: release_proc [OF _ wake_waiters] unlocked)

lemma upd_context: "I s \<Longrightarrow> I (upd_context c f s)"
  by (simp add: upd_context_def contexts)

lemma set_context_manager: "set_context_manager p fbo s = Some (res, s') \<Longrightarrow> I s \<Longrightarrow> I s'"
  by (auto simp: set_context_manager_def Let_def same_links_def elim!: bind_Some_elim
      dest!: new_node [OF _ upd_context] intro!: upd_context node_marks split: if_splits)

lemma get_extended_error: "get_extended_error p t arg s = Some (arg', s') \<Longrightarrow> I s \<Longrightarrow> I s'"
  by (auto simp: get_extended_error_def Let_def set_ee_def elim!: bind_Some_elim intro!: thread)

lemma dispatch: "dispatch p t cmd arg s = Some (res, arg', s') \<Longrightarrow> I s \<Longrightarrow> I s'"
  by (auto simp: dispatch_def still_flags_def elim!: bind_Some_elim
      dest!: set_context_manager thread_release get_extended_error intro!: flags split: if_splits)

lemma clear_looper_waiting: "I s \<Longrightarrow> I (clear_looper_waiting p t s)"
  by (auto simp: clear_looper_waiting_def intro!: thread)

lemma read_setup: "read_setup p t s = (res, s') \<Longrightarrow> I s \<Longrightarrow> I s'"
  by (auto simp: read_setup_def Let_def intro!: thread split: if_splits)

end
context driver_ops
begin

lemma read_block: "read_block p t park wfpw nonblocking out th s = (ev, s') \<Longrightarrow> I s \<Longrightarrow> I s'"
proof -
  have took: "I s'" if "take_wakes s1 = (w, s')" "I s1" for s1 w s'
    using take_wakes [OF that(2)] that(1) by simp
  assume "read_block p t park wfpw nonblocking out th s = (ev, s')" "I s"
  then show ?thesis
    by (auto simp: read_block_def Let_def still_proc_def dest!: took
        intro!: clear_looper_waiting thread proc_queue split: if_splits prod.splits option.splits)
qed

lemma read_loop:
  assumes "read_loop G p t start capacity park wfpw nonblocking out s g = Some (ev, s', g')" "I s"
  shows "I s'"
proof -
  have "I s \<longrightarrow> I (fst (snd (ev, s', g')))"
    by (rule read_loop_rule [OF assms(1), where P = "\<lambda>w n out s g r. I s \<longrightarrow> I (fst (snd r))"])
      (auto dest!: read_pass [OF _ clear_looper_waiting] read_setup intro: read_block)
  with assms(2) show ?thesis by simp
qed

lemma end_ioctl: "end_ioctl p t s = (eff, s') \<Longrightarrow> I s \<Longrightarrow> I s'"
  by (auto simp: end_ioctl_def dest!: unlocked intro!: thread)

lemma wake_remaining: "I s \<Longrightarrow> I (wake_remaining p s)"
  by (simp add: wake_remaining_def wakeup_proc split: option.split)

lemma end_read: "end_read p t parked res bwr s g = Some (pg, s', g') \<Longrightarrow> I s \<Longrightarrow> I s'"
  by (auto simp: end_read_def Let_def elim!: bind_Some_elim dest!: end_ioctl intro!: wake_remaining
      split: prod.splits)

lemma should_spawn_looper: "I s \<Longrightarrow> I (snd (should_spawn_looper p t s))"
  by (auto simp: should_spawn_looper_def Let_def still_flags_def intro!: flags split: option.split)

lemma finish_read: "finish_read G p t bwr out s g = Some (pg, s', g') \<Longrightarrow> I s \<Longrightarrow> I s'"
  by (auto simp: finish_read_def Let_def case_prod_beta elim!: bind_Some_elim dest!: end_read
      intro!: should_spawn_looper split: if_splits)

lemma after_read: "after_read G p t bwr park ev s g = Some (pg, s', g') \<Longrightarrow> I s \<Longrightarrow> I s'"
  by (auto simp: after_read_def dest!: end_read finish_read split: read_event.splits)

lemma thread_read: "thread_read G p t bwr park s g = Some (pg, s', g') \<Longrightarrow> I s \<Longrightarrow> I s'"
  by (auto simp: thread_read_def Let_def elim!: bind_Some_elim
      dest!: end_read read_setup read_loop after_read split: if_splits prod.splits sum.splits)

lemma resume_read: "resume_read G w s g = Some (pg, s', g') \<Longrightarrow> I s \<Longrightarrow> I s'"
  by (auto simp: resume_read_def Let_def still_proc_def elim!: bind_Some_elim
      dest!: read_loop after_read intro!: proc_queue split: if_splits)

lemma write_phase: "write_phase G p t bwr s g = Some (res, bwr', s', g') \<Longrightarrow> I s \<Longrightarrow> I s'"
  by (auto simp: write_phase_def Let_def elim!: bind_Some_elim dest!: thread_write
      split: if_splits prod.splits sum.splits)

lemma write_read_ioctl: "write_read_ioctl G p t arg park s g = Some (pg, s', g') \<Longrightarrow> I s \<Longrightarrow> I s'"
  by (auto simp: write_read_ioctl_def Let_def elim!: bind_Some_elim
      dest!: write_phase thread_read end_ioctl split: if_splits prod.splits sum.splits)

lemma ioctl_parking: "ioctl_parking G p t cmd arg park s g = Some (pg, s', g') \<Longrightarrow> I s \<Longrightarrow> I s'"
  by (auto simp: ioctl_parking_def Let_def elim!: bind_Some_elim
      dest!: thread_or_create write_read_ioctl dispatch end_ioctl unlocked
      split: if_splits prod.splits sum.splits)

lemma ioctl_user: "ioctl_user G p t cmd addr s g = Some (pg, s', g') \<Longrightarrow> I s \<Longrightarrow> I s'"
  by (auto simp: ioctl_user_def ioctl_def Let_def elim!: bind_Some_elim dest!: ioctl_parking
      split: prod.splits sum.splits progress.splits)

lemma forward_inbound_transaction:
  "forward_inbound_transaction G p t inbound tr s g = Some (res, eff, s', g') \<Longrightarrow> I s \<Longrightarrow> I s'"
  by (auto simp: forward_inbound_transaction_def Let_def elim!: bind_Some_elim
      dest!: transaction unlocked intro!: thread split: if_splits prod.splits sum.splits)

end

end
