(* ===== verification/Buffers.thy ===== *)
theory Buffers
  imports Driver
begin

text \<open>
  The receive buffers of the whole driver. \<open>driver_closed\<close> is the contract of a predicate that looks
  at the mappings of processes only: it gives \<open>driver_ops\<close>, so every entry point of the driver keeps
  such a predicate. \<open>buffers_safe\<close> is one: each mapped process has a consistent allocator and a
  receive memory as large as what the allocator hands out.
\<close>

section \<open>Predicates on mappings\<close>

locale driver_closed = state_closed +
  assumes any_flags: "I s \<Longrightarrow> (\<And>pr. still_flags (hf pr) = still_flags pr) \<Longrightarrow> I (upd_proc p hf s)"
    and threads: "I s \<Longrightarrow>
      I (upd_proc p (\<lambda>pr. pr\<lparr>p_threads := kt (p_threads pr), p_waiting := kw (p_waiting pr)\<rparr>) s)"
    and any_notified: "I s \<Longrightarrow> I (s\<lparr>s_notified := nl\<rparr>)"
    and any_contexts: "I s \<Longrightarrow> I (s\<lparr>s_contexts := cs\<rparr>)"
    and any_proc_del: "I s \<Longrightarrow> I (s\<lparr>s_procs := mdel p (s_procs s)\<rparr>)"
    and any_condvars: "I s \<Longrightarrow> I (s\<lparr>s_condvars := cvs\<rparr>)"
    and any_clock: "I s \<Longrightarrow> I (s\<lparr>s_clock := now\<rparr>)"
    and any_proc_add: "I s \<Longrightarrow> I (s\<lparr>s_procs := mput i (proc_new c creds) (s_procs s)\<rparr>)"
    and any_map: "mget (s_procs s) p = Some pr \<Longrightarrow> p_alloc pr = None \<Longrightarrow> len \<le> length mem \<Longrightarrow> I s \<Longrightarrow>
      I (upd_proc p (\<lambda>pr. pr\<lparr>p_alloc := Some (new_allocator vm len), p_receive := Some mem\<rparr>) s)"
begin

lemma any_node_work: "node_work p n out s = Some (out', s') \<Longrightarrow> I s \<Longrightarrow> I s'"
  by (auto simp: node_work_def Let_def elim!: bind_Some_elim intro!: remove_node disown node
      split: option.splits if_splits)

lemma any_pop_work: "I s \<Longrightarrow> I (pop_work p t b s)"
  by (auto simp: pop_work_def Let_def still_proc_def intro!: any_thread any_proc_queue)

lemma any_node_release: "node_release n s = Some s' \<Longrightarrow> I s \<Longrightarrow> I s'"
  by (auto simp: node_release_def Let_def elim!: bind_Some_elim dest!: notify_holders
      intro!: remove_node release_work node split: option.splits if_splits)

lemma any_release_nodes: "release_nodes ns s = Some s' \<Longrightarrow> I s \<Longrightarrow> I s'"
  by (induction ns arbitrary: s) (auto elim!: bind_Some_elim intro: any_node_release)

lemma any_new_proc: "new_proc c creds s = Some (i, s') \<Longrightarrow> I s \<Longrightarrow> I s'"
  by (auto simp: new_proc_def elim!: bind_Some_elim dest!: draw_id intro!: any_proc_add)

end

sublocale driver_closed < driver_ops
proof
  show "I s \<Longrightarrow> I (upd_proc p (\<lambda>pr. pr\<lparr>p_threads := mput t (thread_new cv) (p_threads pr)\<rparr>) s)" for s p t cv
    using threads [where s = s and p = p and kt = "mput t (thread_new cv)" and kw = "\<lambda>w. w"] by simp
  show "I s'" if "mget (s_procs s) p = Some pr" "I s"
    "release_nodes (map snd (p_nodes pr)) (upd_proc p (\<lambda>pr. pr\<lparr>p_nodes := []\<rparr>) s) = Some s'" for s p pr s'
    using any_release_nodes [OF that(3)] owned [OF that(2), where p = p and kn = "\<lambda>_. []"] by simp
qed (auto intro: any_flags threads any_notified any_contexts any_proc_del any_condvars any_clock any_map
    any_node_work any_pop_work any_new_proc)

section \<open>The mappings stay consistent\<close>

definition map_ok :: "allocator option \<Rightarrow> byte list option \<Rightarrow> bool" where
  "map_ok al mem =
     (case al of
        None \<Rightarrow> True
      | Some a \<Rightarrow> alloc_inv a \<and> (case mem of None \<Rightarrow> False | Some m \<Rightarrow> a_size a \<le> length m))"

definition buffers_safe :: "bstate \<Rightarrow> bool" where
  "buffers_safe s \<longleftrightarrow> (\<forall>p pr. mget (s_procs s) p = Some pr \<longrightarrow> map_ok (p_alloc pr) (p_receive pr))"

lemma buffers_safe_upd:
  assumes "buffers_safe s"
    and "\<And>pr. mget (s_procs s) p = Some pr \<Longrightarrow> map_ok (p_alloc pr) (p_receive pr) \<Longrightarrow>
      map_ok (p_alloc (f pr)) (p_receive (f pr))"
  shows "buffers_safe (upd_proc p f s)"
  using assms by (auto simp: buffers_safe_def mget_upd_proc)

lemma buffers_safe_same:
  "buffers_safe s \<Longrightarrow> (\<And>pr. p_alloc (f pr) = p_alloc pr) \<Longrightarrow> (\<And>pr. p_receive (f pr) = p_receive pr) \<Longrightarrow>
    buffers_safe (upd_proc p f s)"
  by (rule buffers_safe_upd) auto

lemma still_flags_fields:
  assumes "still_flags a = still_flags b"
  shows "p_alloc a = p_alloc b" "p_receive a = p_receive b" "p_nodes a = p_nodes b" "p_refs a = p_refs b"
    "p_by_node a = p_by_node b" "p_threads a = p_threads b" "p_todo a = p_todo b" "p_context a = p_context b"
  using assms by (cases a; cases b; simp add: still_flags_def)+

lemma a_size_free_buf: "a_size (snd (free_buf off a)) = a_size a"
  by (auto simp: free_buf_def Let_def split: option.split prod.split)

lemma a_size_allocate: "a_size (snd (allocate data offs extra is_async pid a)) = a_size a"
proof (cases "allocate data offs extra is_async pid a")
  case (Pair r a')
  then show ?thesis
    by (cases r) (auto dest: allocate_error elim: allocate_Inr)
qed

interpretation buffers_safe_state: state_closed buffers_safe
proof
  show "buffers_safe (upd_proc p h s)" if "buffers_safe s" "\<And>pr. still_proc (h pr) = still_proc pr" for s h p
    by (rule buffers_safe_same [OF that(1)]) (simp_all add: still_proc_fields [OF that(2)])
  show "buffers_safe (upd_buffer p off m s)"
    if "buffers_safe s" "\<And>b. b_size (m b) = b_size b" "\<And>b. b_is_async (m b) = b_is_async b" for s m p off
    using that by (auto simp: upd_buffer_def map_ok_def intro!: buffers_safe_upd alloc_inv_mmod
        split: option.splits)
  show "buffers_safe (upd_proc p (\<lambda>pr. pr\<lparr>p_alloc := Some (snd (free_buf off a))\<rparr>) s)"
    if "buffers_safe s" "alloc_of s p = Some a" for s p a off
    using that by (auto simp: map_ok_def alloc_of_def a_size_free_buf
        intro!: buffers_safe_upd free_buf_alloc_inv split: option.splits)
  show "buffers_safe (upd_proc p (\<lambda>pr. pr\<lparr>p_alloc := Some (snd (allocate data offs extra is_async pid a))\<rparr>) s)"
    if "buffers_safe s" "alloc_of s p = Some a" for s p a data offs extra is_async pid
    using that by (auto simp: map_ok_def alloc_of_def a_size_allocate
        intro!: buffers_safe_upd intro: allocate_alloc_inv [OF _ prod.collapse [symmetric]]
        split: option.splits)
  show "buffers_safe (upd_proc p (\<lambda>pr. pr\<lparr>p_receive := Some mem'\<rparr>) s)"
    if "buffers_safe s" "mget (s_procs s) p = Some pr" "p_receive pr = Some mem" "length mem' = length mem"
    for s p pr mem mem'
    using that by (auto simp: map_ok_def intro!: buffers_safe_upd split: option.splits)
  show "buffers_safe (upd_thread p t ht s)" if "buffers_safe s" for s p t ht
    using that by (simp add: upd_thread_def buffers_safe_same)
qed (auto simp: upd_thread_def buffers_safe_same, auto simp: buffers_safe_def)

interpretation buffers_safe: driver_closed buffers_safe
proof
  show "buffers_safe (upd_proc p h s)" if "buffers_safe s" "\<And>pr. still_flags (h pr) = still_flags pr" for s h p
    by (rule buffers_safe_same [OF that(1)]) (simp_all add: still_flags_fields [OF that(2)])
  show "buffers_safe (upd_proc p (\<lambda>pr. pr\<lparr>p_alloc := Some (new_allocator vm len), p_receive := Some mem\<rparr>) s)"
    if "len \<le> length mem" "buffers_safe s" for s p vm len mem
    using that by (auto simp: map_ok_def new_allocator_inv intro!: buffers_safe_upd)
      (simp add: new_allocator_def Let_def)
qed (auto simp: buffers_safe_same, auto simp: buffers_safe_def proc_new_def map_ok_def)

end
