(* ===== verification/RefGraph.thy ===== *)
theory RefGraph
  imports BState
begin

text \<open>
  The reference graph behind the driver's tables, as functions: which node a descriptor of a process
  stands for and whether it holds a strong reference (\<open>hold\<close>), the descriptor a process has for a
  node (\<open>desc\<close>), the node a process owns at a pointer (\<open>own\<close>), and the links of each node
  (\<open>link\<close>). \<open>graph_ok\<close> says that these agree; the lemmas are the changes the reference-counting
  operations make to it.
\<close>

record node_link =
  l_owner :: "proc_id option"
  l_ptr :: u64
  l_holders :: "proc_id set"
  l_strong :: nat

record ref_graph =
  hold :: "proc_id \<Rightarrow> u32 \<Rightarrow> (node_id \<times> bool) option"
  desc :: "proc_id \<Rightarrow> node_id \<Rightarrow> u32 option"
  own :: "proc_id \<Rightarrow> u64 \<Rightarrow> node_id option"
  link :: "node_id \<Rightarrow> node_link option"
  asked :: "proc_id \<Rightarrow> node_id set"
  alive :: "proc_id set"
  used :: nat

definition strong_holders :: "ref_graph \<Rightarrow> node_id \<Rightarrow> proc_id set" where
  "strong_holders g n = {p. \<exists>d. hold g p d = Some (n, True)}"

text \<open>The two tables of a process are inverse to each other.\<close>

definition tables_inverse :: "ref_graph \<Rightarrow> bool" where
  "tables_inverse g \<longleftrightarrow> (\<forall>p n d. desc g p n = Some d \<longleftrightarrow> (\<exists>st. hold g p d = Some (n, st)))"

text \<open>Every reference has its node, which counts the process among its holders, and every holder has a
  reference.\<close>

definition refs_backed :: "ref_graph \<Rightarrow> bool" where
  "refs_backed g \<longleftrightarrow> (\<forall>p d n st. hold g p d = Some (n, st) \<longrightarrow>
     p \<in> alive g \<and> (\<exists>l. link g n = Some l \<and> p \<in> l_holders l))"

definition holders_backed :: "ref_graph \<Rightarrow> bool" where
  "holders_backed g \<longleftrightarrow> (\<forall>n l p. link g n = Some l \<longrightarrow> p \<in> l_holders l \<longrightarrow> desc g p n \<noteq> None)"

text \<open>The internal strong count of a node is the number of processes that hold it strongly.\<close>

definition counts_right :: "ref_graph \<Rightarrow> bool" where
  "counts_right g \<longleftrightarrow> (\<forall>n l. link g n = Some l \<longrightarrow>
     finite (strong_holders g n) \<and> l_strong l = card (strong_holders g n))"

text \<open>What a process owns exists and says so; a process is asked to report its own nodes only, or
  nodes whose owner is gone.\<close>

definition owners_right :: "ref_graph \<Rightarrow> bool" where
  "owners_right g \<longleftrightarrow> (\<forall>p ptr n. own g p ptr = Some n \<longrightarrow>
     p \<in> alive g \<and> (\<exists>l. link g n = Some l \<and> l_owner l = Some p \<and> l_ptr l = ptr))"

definition asked_right :: "ref_graph \<Rightarrow> bool" where
  "asked_right g \<longleftrightarrow> (\<forall>p n l. n \<in> asked g p \<longrightarrow> link g n = Some l \<longrightarrow>
     l_owner l = Some p \<or> l_owner l = None)"

text \<open>Every id in use was drawn from the counter.\<close>

definition ids_drawn :: "ref_graph \<Rightarrow> bool" where
  "ids_drawn g \<longleftrightarrow> (\<forall>p n. n \<in> asked g p \<longrightarrow> n \<le> used g) \<and> (\<forall>n l. link g n = Some l \<longrightarrow> n \<le> used g) \<and>
     (\<forall>p. p \<in> alive g \<longrightarrow> p \<le> used g)"

definition graph_ok :: "ref_graph \<Rightarrow> bool" where
  "graph_ok g \<longleftrightarrow> tables_inverse g \<and> refs_backed g \<and> holders_backed g \<and> counts_right g \<and>
     owners_right g \<and> asked_right g \<and> ids_drawn g"

lemma graph_okD:
  assumes "graph_ok g"
  shows "desc g p n = Some d \<longleftrightarrow> (\<exists>st. hold g p d = Some (n, st))"
    and "hold g p d = Some (n, st) \<Longrightarrow> p \<in> alive g \<and> (\<exists>l. link g n = Some l \<and> p \<in> l_holders l)"
    and "link g n = Some l \<Longrightarrow> p \<in> l_holders l \<Longrightarrow> desc g p n \<noteq> None"
    and "link g n = Some l \<Longrightarrow> finite (strong_holders g n) \<and> l_strong l = card (strong_holders g n)"
    and "own g p ptr = Some n \<Longrightarrow> p \<in> alive g \<and> (\<exists>l. link g n = Some l \<and> l_owner l = Some p \<and> l_ptr l = ptr)"
    and "n \<in> asked g p \<Longrightarrow> link g n = Some l \<Longrightarrow> l_owner l = Some p \<or> l_owner l = None"
    and "n \<in> asked g p \<Longrightarrow> n \<le> used g" and "link g n = Some l \<Longrightarrow> n \<le> used g"
    and "p \<in> alive g \<Longrightarrow> p \<le> used g"
proof -
  have parts: "tables_inverse g" "refs_backed g" "holders_backed g" "counts_right g" "owners_right g"
    "asked_right g" "ids_drawn g"
    using assms by (simp_all add: graph_ok_def)
  show "desc g p n = Some d \<longleftrightarrow> (\<exists>st. hold g p d = Some (n, st))"
    using parts(1) unfolding tables_inverse_def by blast
  show "hold g p d = Some (n, st) \<Longrightarrow> p \<in> alive g \<and> (\<exists>l. link g n = Some l \<and> p \<in> l_holders l)"
    using parts(2) unfolding refs_backed_def by blast
  show "link g n = Some l \<Longrightarrow> p \<in> l_holders l \<Longrightarrow> desc g p n \<noteq> None"
    using parts(3) unfolding holders_backed_def by blast
  show "link g n = Some l \<Longrightarrow> finite (strong_holders g n) \<and> l_strong l = card (strong_holders g n)"
    using parts(4) unfolding counts_right_def by blast
  show "own g p ptr = Some n \<Longrightarrow> p \<in> alive g \<and> (\<exists>l. link g n = Some l \<and> l_owner l = Some p \<and> l_ptr l = ptr)"
    using parts(5) unfolding owners_right_def by blast
  show "n \<in> asked g p \<Longrightarrow> link g n = Some l \<Longrightarrow> l_owner l = Some p \<or> l_owner l = None"
    using parts(6) unfolding asked_right_def by (elim allE [of _ p] allE [of _ n] allE [of _ l]) simp
  show "n \<in> asked g p \<Longrightarrow> n \<le> used g" "link g n = Some l \<Longrightarrow> n \<le> used g" "p \<in> alive g \<Longrightarrow> p \<le> used g"
    using parts(7) unfolding ids_drawn_def by blast+
qed

lemma graph_okI:
  assumes "\<And>p n d. desc g p n = Some d \<longleftrightarrow> (\<exists>st. hold g p d = Some (n, st))"
    and "\<And>p d n st. hold g p d = Some (n, st) \<Longrightarrow> p \<in> alive g \<and> (\<exists>l. link g n = Some l \<and> p \<in> l_holders l)"
    and "\<And>n l p. link g n = Some l \<Longrightarrow> p \<in> l_holders l \<Longrightarrow> desc g p n \<noteq> None"
    and "\<And>n l. link g n = Some l \<Longrightarrow> finite (strong_holders g n) \<and> l_strong l = card (strong_holders g n)"
    and "\<And>p ptr n. own g p ptr = Some n \<Longrightarrow>
      p \<in> alive g \<and> (\<exists>l. link g n = Some l \<and> l_owner l = Some p \<and> l_ptr l = ptr)"
    and "\<And>p n l. n \<in> asked g p \<Longrightarrow> link g n = Some l \<Longrightarrow> l_owner l = Some p \<or> l_owner l = None"
    and "\<And>p n. n \<in> asked g p \<Longrightarrow> n \<le> used g" and "\<And>n l. link g n = Some l \<Longrightarrow> n \<le> used g"
    and "\<And>p. p \<in> alive g \<Longrightarrow> p \<le> used g"
  shows "graph_ok g"
  unfolding graph_ok_def
proof (intro conjI)
  show "tables_inverse g" unfolding tables_inverse_def using assms(1) by blast
  show "refs_backed g" unfolding refs_backed_def using assms(2) by blast
  show "holders_backed g" unfolding holders_backed_def using assms(3) by blast
  show "counts_right g" unfolding counts_right_def using assms(4) by blast
  show "owners_right g" unfolding owners_right_def using assms(5) by blast
  show "asked_right g" unfolding asked_right_def by (intro allI impI) (rule assms(6))
  show "ids_drawn g" unfolding ids_drawn_def using assms(7-9) by blast
qed

text \<open>The parts each look at some of the fields only.\<close>

lemma graph_frame [simp]:
  "tables_inverse (g\<lparr>own := ow\<rparr>) = tables_inverse g" "tables_inverse (g\<lparr>link := lk\<rparr>) = tables_inverse g"
  "tables_inverse (g\<lparr>asked := q\<rparr>) = tables_inverse g" "tables_inverse (g\<lparr>alive := A\<rparr>) = tables_inverse g"
  "tables_inverse (g\<lparr>used := k\<rparr>) = tables_inverse g"
  "refs_backed (g\<lparr>own := ow\<rparr>) = refs_backed g" "refs_backed (g\<lparr>asked := q\<rparr>) = refs_backed g"
  "refs_backed (g\<lparr>used := k\<rparr>) = refs_backed g"
  "holders_backed (g\<lparr>own := ow\<rparr>) = holders_backed g" "holders_backed (g\<lparr>asked := q\<rparr>) = holders_backed g"
  "holders_backed (g\<lparr>alive := A\<rparr>) = holders_backed g" "holders_backed (g\<lparr>used := k\<rparr>) = holders_backed g"
  "counts_right (g\<lparr>own := ow\<rparr>) = counts_right g" "counts_right (g\<lparr>asked := q\<rparr>) = counts_right g"
  "counts_right (g\<lparr>alive := A\<rparr>) = counts_right g" "counts_right (g\<lparr>used := k\<rparr>) = counts_right g"
  "owners_right (g\<lparr>asked := q\<rparr>) = owners_right g" "owners_right (g\<lparr>used := k\<rparr>) = owners_right g"
  "asked_right (g\<lparr>own := ow\<rparr>) = asked_right g" "asked_right (g\<lparr>alive := A\<rparr>) = asked_right g"
  "asked_right (g\<lparr>used := k\<rparr>) = asked_right g" "ids_drawn (g\<lparr>own := ow\<rparr>) = ids_drawn g"
  by (simp_all add: tables_inverse_def refs_backed_def holders_backed_def counts_right_def
      strong_holders_def owners_right_def asked_right_def ids_drawn_def)

text \<open>A descriptor stands for one node, and a node has one descriptor in a process.\<close>

lemma hold_unique: "graph_ok g \<Longrightarrow> hold g p d = Some (n, st) \<Longrightarrow> hold g p d' = Some (n, st') \<Longrightarrow> d' = d"
  using graph_okD(1) [of g p n d] graph_okD(1) [of g p n d'] by auto

text \<open>Work may be dequeued, ids drawn, and owners asked to report.\<close>

lemma graph_asked:
  assumes ok: "graph_ok g" and k: "used g \<le> k"
    and Q: "\<And>p n. n \<in> Q p \<Longrightarrow> n \<in> asked g p \<or> (\<exists>l. link g n = Some l \<and> l_owner l = Some p)"
  shows "graph_ok (g\<lparr>asked := Q, used := k\<rparr>)"
  unfolding graph_ok_def
proof (intro conjI)
  let ?g = "g\<lparr>asked := Q, used := k\<rparr>"
  show "tables_inverse ?g" "refs_backed ?g" "holders_backed ?g" "counts_right ?g" "owners_right ?g"
    using ok by (simp_all add: graph_ok_def)
  show "asked_right ?g"
    unfolding asked_right_def
  proof (intro allI impI)
    fix p n l assume "n \<in> asked ?g p" "link ?g n = Some l"
    then show "l_owner l = Some p \<or> l_owner l = None"
      using Q [of n p] graph_okD(6) [OF ok, of n p l] by auto
  qed
  have "n \<le> k" if "n \<in> Q p" for n p
    using Q [OF that] graph_okD(7) [OF ok, of n p] graph_okD(8) [OF ok, of n] k by force
  moreover have "n \<le> k" if "link g n = Some l" for n l using graph_okD(8) [OF ok that] k by simp
  moreover have "p \<le> k" if "p \<in> alive g" for p using graph_okD(9) [OF ok that] k by simp
  ultimately show "ids_drawn ?g" by (simp add: ids_drawn_def)
qed

text \<open>The links of one node change, but not where it is found, owned and asked for.\<close>

lemma owners_right_link:
  assumes "graph_ok g" "link g n = Some l" "l_owner l' = l_owner l" "l_ptr l' = l_ptr l"
    and "own g' = own g" "alive g' = alive g" "link g' = (link g)(n \<mapsto> l')"
  shows "owners_right g'"
  unfolding owners_right_def
proof (intro allI impI)
  fix p ptr m assume "own g' p ptr = Some m"
  then show "p \<in> alive g' \<and> (\<exists>l. link g' m = Some l \<and> l_owner l = Some p \<and> l_ptr l = ptr)"
    using graph_okD(5) [OF assms(1), of p ptr m] assms(2-7) by (cases "m = n") auto
qed

lemma asked_right_link:
  assumes "graph_ok g" "link g n = Some l" "l_owner l' = l_owner l"
    and "asked g' = asked g" "link g' = (link g)(n \<mapsto> l')"
  shows "asked_right g'"
  unfolding asked_right_def
proof (intro allI impI)
  fix p m k assume "m \<in> asked g' p" "link g' m = Some k"
  then show "l_owner k = Some p \<or> l_owner k = None"
    using graph_okD(6) [OF assms(1), of m p] graph_okD(6) [OF assms(1), of m p l] assms(2-5)
    by (cases "m = n") auto
qed

lemma ids_drawn_link:
  assumes "graph_ok g" "link g n = Some l"
    and "asked g' = asked g" "link g' = (link g)(n \<mapsto> l')" "alive g' = alive g" "used g' = used g"
  shows "ids_drawn g'"
proof -
  have "n \<le> used g" by (rule graph_okD(8) [OF assms(1,2)])
  then show ?thesis using assms(1,3-6) by (simp add: graph_ok_def ids_drawn_def)
qed

text \<open>A process drops its reference \<open>d\<close> to \<open>n\<close>.\<close>

lemma graph_drop:
  assumes ok: "graph_ok g" and h: "hold g p d = Some (n, st)" and l: "link g n = Some l"
    and g': "g' = g\<lparr>hold := \<lambda>q e. if q = p \<and> e = d then None else hold g q e,
      desc := \<lambda>q m. if q = p \<and> m = n then None else desc g q m,
      link := (link g)(n \<mapsto> l\<lparr>l_holders := l_holders l - {p}, l_strong := l_strong l - (if st then 1 else 0)\<rparr>)\<rparr>"
  shows "graph_ok g'"
  unfolding graph_ok_def
proof (intro conjI)
  have uniq: "e = d" if "hold g p e = Some (n, st')" for e st' by (rule hold_unique [OF ok h that])
  show "tables_inverse g'"
    unfolding tables_inverse_def
  proof (intro allI)
    fix q m e
    show "desc g' q m = Some e \<longleftrightarrow> (\<exists>st. hold g' q e = Some (m, st))"
    proof (cases "q = p \<and> (m = n \<or> e = d)")
      case True
      then have "desc g' q m \<noteq> Some e"
        using graph_okD(1) [OF ok, of p m d] h by (cases "m = n") (auto simp: g')
      moreover have "hold g' q e \<noteq> Some (m, st')" for st'
        using True uniq [of e st'] by (auto simp: g')
      ultimately show ?thesis by simp
    next
      case False
      then have "desc g' q m = desc g q m" "hold g' q e = hold g q e" by (auto simp: g')
      then show ?thesis using graph_okD(1) [OF ok, of q m e] by simp
    qed
  qed
  show "refs_backed g'"
    unfolding refs_backed_def
  proof (intro allI impI)
    fix q e m st' assume a: "hold g' q e = Some (m, st')"
    then have b: "hold g q e = Some (m, st')" and c: "\<not> (q = p \<and> e = d)" by (auto simp: g' split: if_splits)
    from c uniq [of e] b have "\<not> (q = p \<and> m = n)" by auto
    then show "q \<in> alive g' \<and> (\<exists>l. link g' m = Some l \<and> q \<in> l_holders l)"
      using graph_okD(2) [OF ok b] l by (cases "m = n") (auto simp: g')
  qed
  show "holders_backed g'"
    unfolding holders_backed_def
  proof (intro allI impI)
    fix m k q assume "link g' m = Some k" "q \<in> l_holders k"
    then show "desc g' q m \<noteq> None"
      using graph_okD(3) [OF ok, of m k q] graph_okD(3) [OF ok l, of q] by (cases "m = n") (auto simp: g')
  qed
  have hold': "hold g' q e = Some (m, b) \<longleftrightarrow> hold g q e = Some (m, b) \<and> \<not> (q = p \<and> e = d)" for q e m b
    by (simp add: g')
  have sh: "strong_holders g' m = strong_holders g m - (if m = n then {p} else {})" for m
  proof -
    have "\<not> (\<exists>e. hold g p e = Some (n, True) \<and> e \<noteq> d)" using uniq by blast
    then show ?thesis using h by (auto simp: strong_holders_def hold')
  qed
  have "p \<in> strong_holders g n \<longleftrightarrow> st"
    unfolding strong_holders_def mem_Collect_eq using uniq h by (metis option.inject prod.inject)
  then have "card (strong_holders g' n) = card (strong_holders g n) - (if st then 1 else 0)"
    using graph_okD(4) [OF ok l] by (simp add: sh)
  then have card_n: "l_strong l - (if st then 1 else 0) = card (strong_holders g' n)"
    using graph_okD(4) [OF ok l] by simp
  show "counts_right g'"
    unfolding counts_right_def
  proof (intro allI impI)
    fix m k assume k: "link g' m = Some k"
    show "finite (strong_holders g' m) \<and> l_strong k = card (strong_holders g' m)"
    proof (cases "m = n")
      case True
      with k have "l_strong k = l_strong l - (if st then 1 else 0)" by (auto simp: g')
      with card_n True graph_okD(4) [OF ok l] show ?thesis by (simp add: sh)
    next
      case False
      with k have "link g m = Some k" by (simp add: g')
      from graph_okD(4) [OF ok this] False show ?thesis by (simp add: sh)
    qed
  qed
  show "owners_right g'" by (rule owners_right_link [OF ok l]) (simp_all add: g')
  show "asked_right g'" by (rule asked_right_link [OF ok l]) (simp_all add: g')
  show "ids_drawn g'" by (rule ids_drawn_link [OF ok l]) (simp_all add: g')
qed

text \<open>A process gets a reference \<open>d\<close> to \<open>n\<close>, weak at first.\<close>

lemma graph_add:
  assumes ok: "graph_ok g" and free: "hold g p d = None" "desc g p n = None" and l: "link g n = Some l"
    and p: "p \<in> alive g"
    and g': "g' = g\<lparr>hold := \<lambda>q e. if q = p \<and> e = d then Some (n, False) else hold g q e,
      desc := \<lambda>q m. if q = p \<and> m = n then Some d else desc g q m,
      link := (link g)(n \<mapsto> l\<lparr>l_holders := insert p (l_holders l)\<rparr>)\<rparr>"
  shows "graph_ok g'"
  unfolding graph_ok_def
proof (intro conjI)
  have none: "hold g p e \<noteq> Some (n, st)" for e st using graph_okD(1) [OF ok, of p n e] free by auto
  show "tables_inverse g'"
    unfolding tables_inverse_def
  proof (intro allI)
    fix q m e
    show "desc g' q m = Some e \<longleftrightarrow> (\<exists>st. hold g' q e = Some (m, st))"
    proof (cases "q = p \<and> (m = n \<or> e = d)")
      case True
      then have "desc g' q m = Some e \<longleftrightarrow> m = n \<and> e = d"
        using graph_okD(1) [OF ok, of p m d] free by (cases "m = n") (auto simp: g')
      moreover have "hold g' q e = Some (m, st') \<longleftrightarrow> m = n \<and> e = d \<and> \<not> st'" for st'
        using True none [of e st'] by (auto simp: g')
      ultimately show ?thesis by auto
    next
      case False
      then have "desc g' q m = desc g q m" "hold g' q e = hold g q e" by (auto simp: g')
      then show ?thesis using graph_okD(1) [OF ok, of q m e] by simp
    qed
  qed
  show "refs_backed g'"
    unfolding refs_backed_def
  proof (intro allI impI)
    fix q e m st' assume "hold g' q e = Some (m, st')"
    then show "q \<in> alive g' \<and> (\<exists>l. link g' m = Some l \<and> q \<in> l_holders l)"
      using graph_okD(2) [OF ok, of q e m st'] l p by (cases "m = n") (auto simp: g' split: if_splits)
  qed
  show "holders_backed g'"
    unfolding holders_backed_def
  proof (intro allI impI)
    fix m k q assume "link g' m = Some k" "q \<in> l_holders k"
    then show "desc g' q m \<noteq> None"
      using graph_okD(3) [OF ok, of m k q] graph_okD(3) [OF ok l, of q] by (cases "m = n") (auto simp: g')
  qed
  have sh: "strong_holders g' m = strong_holders g m" for m
  proof -
    have "hold g' q e = Some (m, True) \<longleftrightarrow> hold g q e = Some (m, True)" for q e
      using free by (auto simp: g')
    then show ?thesis by (simp add: strong_holders_def)
  qed
  show "counts_right g'"
    unfolding counts_right_def sh
  proof (intro allI impI)
    fix m k assume k: "link g' m = Some k"
    show "finite (strong_holders g m) \<and> l_strong k = card (strong_holders g m)"
      using k graph_okD(4) [OF ok l] graph_okD(4) [OF ok, of m k] by (cases "m = n") (auto simp: g')
  qed
  show "owners_right g'" by (rule owners_right_link [OF ok l]) (simp_all add: g')
  show "asked_right g'" by (rule asked_right_link [OF ok l]) (simp_all add: g')
  show "ids_drawn g'" by (rule ids_drawn_link [OF ok l]) (simp_all add: g')
qed

text \<open>A reference becomes strong, or stops being so, with the node's count.\<close>

lemma graph_set_strong:
  assumes ok: "graph_ok g" and h: "hold g p d = Some (n, old)" and l: "link g n = Some l"
    and g': "g' = g\<lparr>hold := \<lambda>q e. if q = p \<and> e = d then Some (n, new) else hold g q e,
      link := (link g)(n \<mapsto> l\<lparr>l_strong := l_strong l + (if new then 1 else 0) - (if old then 1 else 0)\<rparr>)\<rparr>"
  shows "graph_ok g'"
  unfolding graph_ok_def
proof (intro conjI)
  have uniq: "e = d" if "hold g p e = Some (n, st')" for e st' by (rule hold_unique [OF ok h that])
  have same: "(\<exists>st. hold g' q e = Some (m, st)) \<longleftrightarrow> (\<exists>st. hold g q e = Some (m, st))" for q e m
    using h by (auto simp: g')
  have holders: "(\<exists>k. link g' m = Some k \<and> q \<in> l_holders k) \<longleftrightarrow> (\<exists>k. link g m = Some k \<and> q \<in> l_holders k)" for m q
    using l by (auto simp: g')
  show "tables_inverse g'"
    using graph_okD(1) [OF ok] by (simp add: tables_inverse_def same) (simp add: g')
  show "refs_backed g'"
    unfolding refs_backed_def holders
  proof (intro allI impI)
    fix q e m st assume "hold g' q e = Some (m, st)"
    then obtain st' where "hold g q e = Some (m, st')" using same by blast
    from graph_okD(2) [OF ok this] show "q \<in> alive g' \<and> (\<exists>k. link g m = Some k \<and> q \<in> l_holders k)"
      by (simp add: g')
  qed
  show "holders_backed g'"
    unfolding holders_backed_def
  proof (intro allI impI)
    fix m k q assume "link g' m = Some k" "q \<in> l_holders k"
    then show "desc g' q m \<noteq> None"
      using graph_okD(3) [OF ok, of m k q] graph_okD(3) [OF ok l, of q] by (cases "m = n") (auto simp: g')
  qed
  have only: "(\<exists>e. hold g p e = Some (n, True)) \<longleftrightarrow> old"
  proof
    assume "\<exists>e. hold g p e = Some (n, True)"
    then obtain e where e: "hold g p e = Some (n, True)" by blast
    with uniq [OF e] h show old by simp
  qed (use h in auto)
  have sh: "strong_holders g' m = (if m = n then (if new then insert p (strong_holders g n)
      else strong_holders g n - {p}) else strong_holders g m)" for m
  proof (cases "m = n")
    case True
    have "\<not> (\<exists>e. hold g p e = Some (n, True) \<and> e \<noteq> d)" using uniq by blast
    with True show ?thesis by (auto simp: strong_holders_def g')
  next
    case False
    then have "hold g' q e = Some (m, True) \<longleftrightarrow> hold g q e = Some (m, True)" for q e
      using h by (auto simp: g')
    with False show ?thesis by (simp add: strong_holders_def)
  qed
  have p: "p \<in> strong_holders g n \<longleftrightarrow> old" using only by (simp add: strong_holders_def)
  show "counts_right g'"
    unfolding counts_right_def
  proof (intro allI impI)
    fix m k assume k: "link g' m = Some k"
    show "finite (strong_holders g' m) \<and> l_strong k = card (strong_holders g' m)"
    proof (cases "m = n")
      case True
      with k have "l_strong k = l_strong l + (if new then 1 else 0) - (if old then 1 else 0)" by (auto simp: g')
      with True p graph_okD(4) [OF ok l] show ?thesis by (cases new; cases old) (auto simp: sh insert_absorb)
    next
      case False
      with k have "link g m = Some k" by (simp add: g')
      from graph_okD(4) [OF ok this] False show ?thesis by (simp add: sh)
    qed
  qed
  show "owners_right g'" by (rule owners_right_link [OF ok l]) (simp_all add: g')
  show "asked_right g'" by (rule asked_right_link [OF ok l]) (simp_all add: g')
  show "ids_drawn g'" by (rule ids_drawn_link [OF ok l]) (simp_all add: g')
qed

text \<open>A node nobody holds goes, with its owner's entry for it.\<close>

lemma graph_remove:
  assumes ok: "graph_ok g" and l: "link g n = Some l" and none: "l_holders l = {}"
    and own': "\<And>p ptr m. own' p ptr = Some m \<Longrightarrow> own g p ptr = Some m \<and> m \<noteq> n"
    and g': "g' = g\<lparr>own := own', link := (link g)(n := None)\<rparr>"
  shows "graph_ok g'"
  unfolding graph_ok_def
proof (intro conjI)
  have unheld: "m \<noteq> n" if "hold g p d = Some (m, st)" for p d m st
    using graph_okD(2) [OF ok that] l none by auto
  show "tables_inverse g'" using ok by (simp add: graph_ok_def g')
  show "refs_backed g'"
    unfolding refs_backed_def
  proof (intro allI impI)
    fix q e m st assume "hold g' q e = Some (m, st)"
    then have h: "hold g q e = Some (m, st)" by (simp add: g')
    from graph_okD(2) [OF ok h] unheld [OF h]
    show "q \<in> alive g' \<and> (\<exists>k. link g' m = Some k \<and> q \<in> l_holders k)" by (simp add: g')
  qed
  show "holders_backed g'"
    unfolding holders_backed_def
  proof (intro allI impI)
    fix m k q assume "link g' m = Some k" "q \<in> l_holders k"
    then show "desc g' q m \<noteq> None" using graph_okD(3) [OF ok, of m k q] by (simp add: g' split: if_splits)
  qed
  show "counts_right g'"
    unfolding counts_right_def
  proof (intro allI impI)
    fix m k assume "link g' m = Some k"
    then show "finite (strong_holders g' m) \<and> l_strong k = card (strong_holders g' m)"
      using graph_okD(4) [OF ok, of m k] by (simp add: g' strong_holders_def split: if_splits)
  qed
  show "owners_right g'"
    unfolding owners_right_def
  proof (intro allI impI)
    fix p ptr m assume "own g' p ptr = Some m"
    then have "own g p ptr = Some m" "m \<noteq> n" using own' by (auto simp: g')
    with graph_okD(5) [OF ok, of p ptr m]
    show "p \<in> alive g' \<and> (\<exists>l. link g' m = Some l \<and> l_owner l = Some p \<and> l_ptr l = ptr)" by (simp add: g')
  qed
  show "asked_right g'"
    unfolding asked_right_def
  proof (intro allI impI)
    fix p m k assume "m \<in> asked g' p" "link g' m = Some k"
    then show "l_owner k = Some p \<or> l_owner k = None"
      using graph_okD(6) [OF ok, of m p k] by (simp add: g' split: if_splits)
  qed
  show "ids_drawn g'"
    using ok by (auto simp: graph_ok_def ids_drawn_def g')
qed

text \<open>A new node of a live process, with a new id.\<close>

lemma graph_new:
  assumes ok: "graph_ok g" and p: "p \<in> alive g" and n: "used g < n"
    and g': "g' = g\<lparr>own := \<lambda>q a. if q = p \<and> a = ptr then Some n else own g q a,
      link := (link g)(n \<mapsto> \<lparr>l_owner = Some p, l_ptr = ptr, l_holders = {}, l_strong = 0\<rparr>), used := n\<rparr>"
  shows "graph_ok g'"
  unfolding graph_ok_def
proof (intro conjI)
  have fresh: "link g n = None" using graph_okD(8) [OF ok, of n] n by (cases "link g n") auto
  have unheld: "m \<noteq> n" if "hold g q d = Some (m, st)" for q d m st
    using graph_okD(2) [OF ok that] fresh by auto
  have unowned: "m \<noteq> n" if "own g q a = Some m" for q a m
    using graph_okD(5) [OF ok that] fresh by auto
  have unasked: "n \<notin> asked g q" for q using graph_okD(7) [OF ok, of n q] n by auto
  show "tables_inverse g'" using ok by (simp add: graph_ok_def g')
  show "refs_backed g'"
    unfolding refs_backed_def
  proof (intro allI impI)
    fix q e m st assume "hold g' q e = Some (m, st)"
    then have h: "hold g q e = Some (m, st)" by (simp add: g')
    from graph_okD(2) [OF ok h] unheld [OF h]
    show "q \<in> alive g' \<and> (\<exists>k. link g' m = Some k \<and> q \<in> l_holders k)" by (simp add: g')
  qed
  show "holders_backed g'"
    unfolding holders_backed_def
  proof (intro allI impI)
    fix m k q assume "link g' m = Some k" "q \<in> l_holders k"
    then show "desc g' q m \<noteq> None"
      using graph_okD(3) [OF ok, of m k q] by (cases "m = n") (auto simp: g')
  qed
  have none: "strong_holders g n = {}" using unheld unfolding strong_holders_def by blast
  have sh: "strong_holders g' m = strong_holders g m" for m by (simp add: strong_holders_def g')
  show "counts_right g'"
    unfolding counts_right_def sh
  proof (intro allI impI)
    fix m k assume k: "link g' m = Some k"
    show "finite (strong_holders g m) \<and> l_strong k = card (strong_holders g m)"
    proof (cases "m = n")
      case True
      with k have "l_strong k = 0" by (auto simp: g')
      with True none show ?thesis by simp
    next
      case False
      with k have "link g m = Some k" by (simp add: g')
      then show ?thesis by (rule graph_okD(4) [OF ok])
    qed
  qed
  show "owners_right g'"
    unfolding owners_right_def
  proof (intro allI impI)
    fix q a m assume o: "own g' q a = Some m"
    show "q \<in> alive g' \<and> (\<exists>l. link g' m = Some l \<and> l_owner l = Some q \<and> l_ptr l = a)"
    proof (cases "q = p \<and> a = ptr")
      case True
      with o have "m = n" by (simp add: g')
      with True p show ?thesis by (simp add: g')
    next
      case False
      with o have "own g q a = Some m" by (auto simp: g')
      from graph_okD(5) [OF ok this] unowned [OF this] show ?thesis by (simp add: g')
    qed
  qed
  show "asked_right g'"
    unfolding asked_right_def
  proof (intro allI impI)
    fix q m k assume "m \<in> asked g' q" "link g' m = Some k"
    then show "l_owner k = Some q \<or> l_owner k = None"
      using graph_okD(6) [OF ok, of m q k] unasked [of q] by (cases "m = n") (simp_all add: g')
  qed
  have "m \<le> n" if "m \<in> asked g q" for m q using graph_okD(7) [OF ok that] n by simp
  moreover have "m \<le> n" if "link g m = Some k" for m k using graph_okD(8) [OF ok that] n by simp
  moreover have "q \<le> n" if "q \<in> alive g" for q using graph_okD(9) [OF ok that] n by simp
  ultimately show "ids_drawn g'" by (auto simp: ids_drawn_def g')
qed

text \<open>A process gives up what it owns; a node nobody owns loses its owner.\<close>

lemma graph_disown:
  assumes ok: "graph_ok g" and own': "\<And>p ptr m. own' p ptr = Some m \<Longrightarrow> own g p ptr = Some m"
  shows "graph_ok (g\<lparr>own := own'\<rparr>)"
proof -
  let ?g = "g\<lparr>own := own'\<rparr>"
  have "owners_right ?g"
    unfolding owners_right_def
  proof (intro allI impI)
    fix p ptr m assume "own ?g p ptr = Some m"
    then have "own g p ptr = Some m" using own' by simp
    from graph_okD(5) [OF ok this]
    show "p \<in> alive ?g \<and> (\<exists>l. link ?g m = Some l \<and> l_owner l = Some p \<and> l_ptr l = ptr)" by simp
  qed
  with ok show ?thesis by (simp add: graph_ok_def)
qed

lemma graph_orphan:
  assumes ok: "graph_ok g" and l: "link g n = Some l" and unowned: "\<And>p ptr. own g p ptr \<noteq> Some n"
    and g': "g' = g\<lparr>link := (link g)(n \<mapsto> l\<lparr>l_owner := None\<rparr>)\<rparr>"
  shows "graph_ok g'"
  unfolding graph_ok_def
proof (intro conjI)
  have holders: "(\<exists>k. link g' m = Some k \<and> q \<in> l_holders k) \<longleftrightarrow> (\<exists>k. link g m = Some k \<and> q \<in> l_holders k)" for m q
    using l by (auto simp: g')
  have sh: "strong_holders g' m = strong_holders g m" for m by (simp add: strong_holders_def g')
  show "tables_inverse g'" using ok by (simp add: graph_ok_def g')
  show "refs_backed g'"
    unfolding refs_backed_def holders using graph_okD(2) [OF ok] by (simp add: g')
  show "holders_backed g'"
    unfolding holders_backed_def
  proof (intro allI impI)
    fix m k q assume "link g' m = Some k" "q \<in> l_holders k"
    then show "desc g' q m \<noteq> None"
      using graph_okD(3) [OF ok, of m k q] graph_okD(3) [OF ok l, of q] by (cases "m = n") (auto simp: g')
  qed
  show "counts_right g'"
    unfolding counts_right_def sh
  proof (intro allI impI)
    fix m k assume "link g' m = Some k"
    then show "finite (strong_holders g m) \<and> l_strong k = card (strong_holders g m)"
      using graph_okD(4) [OF ok l] graph_okD(4) [OF ok, of m k] by (cases "m = n") (auto simp: g')
  qed
  show "owners_right g'"
    unfolding owners_right_def
  proof (intro allI impI)
    fix p ptr m assume "own g' p ptr = Some m"
    then have o: "own g p ptr = Some m" by (simp add: g')
    with unowned have "m \<noteq> n" by auto
    with graph_okD(5) [OF ok o]
    show "p \<in> alive g' \<and> (\<exists>l. link g' m = Some l \<and> l_owner l = Some p \<and> l_ptr l = ptr)" by (simp add: g')
  qed
  show "asked_right g'"
    unfolding asked_right_def
  proof (intro allI impI)
    fix p m k assume "m \<in> asked g' p" "link g' m = Some k"
    then show "l_owner k = Some p \<or> l_owner k = None"
      using graph_okD(6) [OF ok, of m p k] by (cases "m = n") (auto simp: g')
  qed
  show "ids_drawn g'" by (rule ids_drawn_link [OF ok l]) (simp_all add: g')
qed

text \<open>A process without nodes and references goes; a new one has none.\<close>

lemma graph_alive:
  assumes ok: "graph_ok g" and A: "\<And>p. p \<in> A \<Longrightarrow> p \<le> k" and k: "used g \<le> k"
    and kept: "\<And>p. p \<in> alive g \<Longrightarrow> p \<notin> A \<Longrightarrow> (\<forall>d. hold g p d = None) \<and> (\<forall>ptr. own g p ptr = None)"
    and Q: "\<And>p. Q p \<subseteq> asked g p"
  shows "graph_ok (g\<lparr>alive := A, used := k, asked := Q\<rparr>)"
  unfolding graph_ok_def
proof (intro conjI)
  let ?g = "g\<lparr>alive := A, used := k, asked := Q\<rparr>"
  show "tables_inverse ?g" "holders_backed ?g" "counts_right ?g" using ok by (simp_all add: graph_ok_def)
  show "refs_backed ?g"
    unfolding refs_backed_def
  proof (intro allI impI)
    fix q e m st assume "hold ?g q e = Some (m, st)"
    then have h: "hold g q e = Some (m, st)" by simp
    have "q \<in> A" using graph_okD(2) [OF ok h] kept [of q] h by (metis option.distinct(1))
    with graph_okD(2) [OF ok h]
    show "q \<in> alive ?g \<and> (\<exists>k. link ?g m = Some k \<and> q \<in> l_holders k)" by auto
  qed
  show "owners_right ?g"
    unfolding owners_right_def
  proof (intro allI impI)
    fix p ptr m assume "own ?g p ptr = Some m"
    then have o: "own g p ptr = Some m" by simp
    have "p \<in> A" using graph_okD(5) [OF ok o] kept [of p] o by (metis option.distinct(1))
    with graph_okD(5) [OF ok o]
    show "p \<in> alive ?g \<and> (\<exists>l. link ?g m = Some l \<and> l_owner l = Some p \<and> l_ptr l = ptr)" by auto
  qed
  show "asked_right ?g"
    unfolding asked_right_def
  proof (intro allI impI)
    fix p m l assume "m \<in> asked ?g p" "link ?g m = Some l"
    then show "l_owner l = Some p \<or> l_owner l = None"
      using graph_okD(6) [OF ok, of m p l] Q [of p] by auto
  qed
  have "m \<le> k" if "m \<in> Q q" for m q using graph_okD(7) [OF ok, of m q] Q [of q] that k by auto
  moreover have "m \<le> k" if "link g m = Some l" for m l using graph_okD(8) [OF ok that] k by simp
  ultimately show "ids_drawn ?g" using A by (auto simp: ids_drawn_def)
qed

end
