(* ===== verification/Refs.thy ===== *)
theory Refs
  imports Buffers RefGraph
begin

text \<open>
  The tables of the driver refine the reference graph: \<open>graph_of\<close> reads the graph off a state, and
  \<open>refs_ok\<close> says that it is consistent. Every entry point keeps it.
\<close>

section \<open>The graph of a state\<close>

definition link_of :: "node \<Rightarrow> node_link" where
  "link_of nd = \<lparr>l_owner = n_proc nd, l_ptr = n_ptr nd, l_holders = set (mkeys (n_refs nd)),
     l_strong = n_internal_strong nd\<rparr>"

definition graph_of :: "bstate \<Rightarrow> ref_graph" where
  "graph_of s =
     \<lparr>hold = (\<lambda>p d. map_option (\<lambda>r. (r_node r, r_strong r \<noteq> 0)) (ref_of s p d)),
      desc = (\<lambda>p n. do { pr \<leftarrow> mget (s_procs s) p; mget (p_by_node pr) n }),
      own = (\<lambda>p ptr. do { pr \<leftarrow> mget (s_procs s) p; mget (p_nodes pr) ptr }),
      link = (\<lambda>n. map_option link_of (mget (s_nodes s) n)),
      asked = (\<lambda>p. queue_nodes p s),
      alive = {p. mget (s_procs s) p \<noteq> None},
      used = s_next_id s\<rparr>"

lemma graph_of_fields [simp]:
  "hold (graph_of s) p d = map_option (\<lambda>r. (r_node r, r_strong r \<noteq> 0)) (ref_of s p d)"
  "desc (graph_of s) p n = do { pr \<leftarrow> mget (s_procs s) p; mget (p_by_node pr) n }"
  "own (graph_of s) p ptr = do { pr \<leftarrow> mget (s_procs s) p; mget (p_nodes pr) ptr }"
  "link (graph_of s) n = map_option link_of (mget (s_nodes s) n)"
  "asked (graph_of s) p = queue_nodes p s"
  "alive (graph_of s) = {p. mget (s_procs s) p \<noteq> None}" "used (graph_of s) = s_next_id s"
  by (simp_all add: graph_of_def)

definition tables_sorted :: "bstate \<Rightarrow> bool" where
  "tables_sorted s \<longleftrightarrow> (\<forall>p pr. mget (s_procs s) p = Some pr \<longrightarrow> msorted (p_refs pr) \<and> msorted (p_nodes pr))"

definition refs_ok :: "bstate \<Rightarrow> bool" where
  "refs_ok s \<longleftrightarrow> tables_sorted s \<and> graph_ok (graph_of s)"

text \<open>The state has graph \<open>g\<close>, except that at most \<open>B p\<close> is asked of \<open>p\<close>.\<close>

definition looks :: "ref_graph \<Rightarrow> (proc_id \<Rightarrow> node_id set) \<Rightarrow> bstate \<Rightarrow> bool" where
  "looks g B s \<longleftrightarrow> tables_sorted s \<and> graph_of s = g\<lparr>asked := (\<lambda>p. queue_nodes p s)\<rparr> \<and>
     (\<forall>p. queue_nodes p s \<subseteq> B p)"

lemma looks_refl: "tables_sorted s \<Longrightarrow> looks (graph_of s) (\<lambda>p. queue_nodes p s) s"
  by (simp add: looks_def graph_of_def)

lemma looks_weaken: "looks g B s \<Longrightarrow> (\<And>p. B p \<subseteq> B' p) \<Longrightarrow> looks g B' s"
  by (auto simp: looks_def dest: subsetD)

lemma looks_fields:
  assumes "looks g B s"
  shows "hold g = hold (graph_of s)" "desc g = desc (graph_of s)" "own g = own (graph_of s)"
    "link g = link (graph_of s)" "alive g = alive (graph_of s)" "used g = used (graph_of s)"
proof -
  have "graph_of s = g\<lparr>asked := (\<lambda>p. queue_nodes p s)\<rparr>" using assms by (simp add: looks_def)
  then show "hold g = hold (graph_of s)" "desc g = desc (graph_of s)" "own g = own (graph_of s)"
    "link g = link (graph_of s)" "alive g = alive (graph_of s)" "used g = used (graph_of s)"
    by simp_all
qed

lemma looksI:
  assumes "tables_sorted s" "hold g = hold (graph_of s)" "desc g = desc (graph_of s)"
    "own g = own (graph_of s)" "link g = link (graph_of s)" "alive g = alive (graph_of s)"
    "used g = used (graph_of s)" "\<And>p. queue_nodes p s \<subseteq> B p"
  shows "looks g B s"
  using assms by (auto simp: looks_def graph_of_def intro!: ref_graph.equality)

lemma looks_refs_ok:
  assumes "looks g B s" "graph_ok (g\<lparr>asked := B\<rparr>)"
  shows "refs_ok s"
proof -
  have g: "graph_of s = g\<lparr>asked := (\<lambda>p. queue_nodes p s)\<rparr>" and Q: "\<And>p. queue_nodes p s \<subseteq> B p"
    and st: "tables_sorted s"
    using assms(1) by (simp_all add: looks_def)
  have "graph_ok ((g\<lparr>asked := B\<rparr>)\<lparr>asked := (\<lambda>p. queue_nodes p s), used := used g\<rparr>)"
    by (rule graph_asked [OF assms(2)]) (use Q in auto)
  then show ?thesis using st by (simp add: refs_ok_def g)
qed

definition same_tables :: "bproc \<Rightarrow> bproc \<Rightarrow> bool" where
  "same_tables pr pr' \<longleftrightarrow> p_refs pr' = p_refs pr \<and> p_by_node pr' = p_by_node pr \<and> p_nodes pr' = p_nodes pr \<and>
     proc_nodes pr' \<subseteq> proc_nodes pr"

lemma looks_upd_proc:
  assumes "looks g B s" "\<And>pr. same_tables pr (f pr)"
  shows "looks g B (upd_proc p f s)"
proof -
  have t: "p_refs (f pr) = p_refs pr" "p_by_node (f pr) = p_by_node pr" "p_nodes (f pr) = p_nodes pr"
    and q: "proc_nodes (f pr) \<subseteq> proc_nodes pr" for pr
    using assms(2) [of pr] by (simp_all add: same_tables_def)
  have "ref_of (upd_proc p f s) q d = ref_of s q d" for q d
    by (cases "mget (s_procs s) q") (auto simp: ref_of_def mget_upd_proc t)
  moreover have "do { pr \<leftarrow> mget (s_procs (upd_proc p f s)) q; mget (p_by_node pr) n } =
      do { pr \<leftarrow> mget (s_procs s) q; mget (p_by_node pr) n }" for q n
    by (cases "mget (s_procs s) q") (auto simp: mget_upd_proc t)
  moreover have "do { pr \<leftarrow> mget (s_procs (upd_proc p f s)) q; mget (p_nodes pr) n } =
      do { pr \<leftarrow> mget (s_procs s) q; mget (p_nodes pr) n }" for q n
    by (cases "mget (s_procs s) q") (auto simp: mget_upd_proc t)
  moreover have "(mget (s_procs (upd_proc p f s)) q = None) = (mget (s_procs s) q = None)" for q
    by (simp add: mget_upd_proc)
  moreover have "s_nodes (upd_proc p f s) = s_nodes s" "s_next_id (upd_proc p f s) = s_next_id s"
    by (simp_all add: upd_proc_def)
  moreover have "queue_nodes q (upd_proc p f s) \<subseteq> B q" for q
  proof -
    have "queue_nodes q (upd_proc p f s) \<subseteq> queue_nodes q s"
      using q by (auto simp: queue_nodes_def mget_upd_proc split: option.splits)
    also have "\<dots> \<subseteq> B q" using assms(1) by (simp add: looks_def)
    finally show ?thesis .
  qed
  moreover have "tables_sorted (upd_proc p f s)"
    using assms(1) by (auto simp: looks_def tables_sorted_def mget_upd_proc t)
  ultimately show ?thesis
    by (intro looksI) (simp_all add: looks_fields [OF assms(1)] fun_eq_iff)
qed

lemma looks_cong:
  assumes "looks g B s" "s_procs s' = s_procs s" "s_nodes s' = s_nodes s" "s_next_id s' = s_next_id s"
  shows "looks g B s'"
proof -
  have "graph_of s' = graph_of s" using assms(2-4) by (simp add: graph_of_def ref_of_def queue_nodes_def)
  moreover have "tables_sorted s' = tables_sorted s" using assms(2) by (simp add: tables_sorted_def)
  moreover have "queue_nodes p s' = queue_nodes p s" for p using assms(2) by (simp add: queue_nodes_def)
  ultimately show ?thesis using assms(1) by (simp add: looks_def)
qed

lemma same_tables_thread:
  assumes "\<And>th. node_works (t_todo (f th)) \<subseteq> node_works (t_todo th)"
  shows "same_tables pr (pr\<lparr>p_threads := mmod t f (p_threads pr)\<rparr>)"
proof -
  have "n \<in> proc_nodes pr" if "n \<in> proc_nodes (pr\<lparr>p_threads := mmod t f (p_threads pr)\<rparr>)" for n
    using that assms by (auto simp: proc_nodes_def split: if_splits)
  then show ?thesis by (auto simp: same_tables_def)
qed

lemma looks_upd_node:
  assumes "looks g B s" "\<And>nd. same_links nd (f nd)"
  shows "looks g B (upd_node n f s)"
proof -
  have "link_of (f nd) = link_of nd" for nd using assms(2) [of nd] by (simp add: same_links_def link_of_def)
  then have "map_option link_of (mget (s_nodes (upd_node n f s)) m) = map_option link_of (mget (s_nodes s) m)" for m
    by (cases "mget (s_nodes s) m") (auto simp: upd_node_def)
  then have "graph_of (upd_node n f s) = graph_of s"
    by (simp add: graph_of_def ref_of_def queue_nodes_def) (simp add: upd_node_def)
  moreover have "tables_sorted (upd_node n f s) = tables_sorted s" by (simp add: tables_sorted_def)
  moreover have "queue_nodes p (upd_node n f s) = queue_nodes p s" for p by (simp add: queue_nodes_def)
  ultimately show ?thesis using assms(1) by (simp add: looks_def)
qed

interpretation looks: mark_ops "looks g B" for g B
proof
  show "looks g B (upd_thread p t f s)"
    if "looks g B s" "\<And>th. node_works (t_todo (f th)) \<subseteq> node_works (t_todo th)" for s f p t
    unfolding upd_thread_def by (rule looks_upd_proc [OF that(1)]) (rule same_tables_thread [OF that(2)])
  show "looks g B (upd_proc p h s)"
    if "looks g B s" "\<And>pr. still_proc (h pr) = still_proc pr"
      "\<And>pr. node_works (p_todo (h pr)) \<subseteq> node_works (p_todo pr)" for s h p
    using that(3) still_proc_fields [OF that(2)]
    by (intro looks_upd_proc [OF that(1)]) (auto simp: same_tables_def proc_nodes_def)
  show "looks g B (upd_proc p (\<lambda>pr. pr\<lparr>p_delivered_death := kd (p_delivered_death pr)\<rparr>) s)"
    if "looks g B s" for s p kd
    by (rule looks_upd_proc [OF that]) (simp add: same_tables_def proc_nodes_def)
qed (auto intro: looks_upd_node, auto intro: looks_cong)

section \<open>Steps of the graph\<close>

lemma looks_set_node:
  assumes l: "looks g B s" and nd: "mget (s_nodes s) n = Some nd"
  shows "looks (g\<lparr>link := (link g)(n \<mapsto> link_of (f nd))\<rparr>) B (upd_node n f s)"
proof (rule looksI)
  show "tables_sorted (upd_node n f s)" using l by (simp add: looks_def tables_sorted_def)
  show "queue_nodes p (upd_node n f s) \<subseteq> B p" for p using l by (simp add: looks_def queue_nodes_def)
qed (auto simp: looks_fields [OF l] fun_eq_iff ref_of_def upd_node_def nd)

lemma looks_del_node:
  assumes l: "looks g B s"
  shows "looks (g\<lparr>link := (link g)(n := None)\<rparr>) B (remove_node n s)"
proof (rule looksI)
  show "tables_sorted (remove_node n s)"
    using l by (simp add: looks_def tables_sorted_def remove_node_def)
  show "queue_nodes p (remove_node n s) \<subseteq> B p" for p
    using l by (simp add: looks_def queue_nodes_def remove_node_def)
qed (auto simp: looks_fields [OF l] fun_eq_iff ref_of_def remove_node_def upd_shadow_def)

lemma upd_proc_absent: "mget (s_procs s) p = None \<Longrightarrow> upd_proc p f s = s"
  by (simp add: upd_proc_def mmod_def)

text \<open>The tables of one process change.\<close>

lemma looks_proc:
  assumes l: "looks g B s" and pr: "mget (s_procs s) p = Some pr"
    and srt: "msorted (p_refs pr) \<Longrightarrow> msorted (p_refs (f pr))" "msorted (p_nodes pr) \<Longrightarrow> msorted (p_nodes (f pr))"
    and q: "proc_nodes (f pr) \<subseteq> B' p" "\<And>q. q \<noteq> p \<Longrightarrow> B q \<subseteq> B' q"
    and h: "h = (\<lambda>q d. if q = p then map_option (\<lambda>r. (r_node r, r_strong r \<noteq> 0)) (mget (p_refs (f pr)) d)
      else hold g q d)"
    and d: "d = (\<lambda>q n. if q = p then mget (p_by_node (f pr)) n else desc g q n)"
    and w: "w = (\<lambda>q a. if q = p then mget (p_nodes (f pr)) a else own g q a)"
  shows "looks (g\<lparr>hold := h, desc := d, own := w\<rparr>) B' (upd_proc p f s)"
proof (rule looksI)
  let ?s = "upd_proc p f s"
  have get: "mget (s_procs ?s) q = (if q = p then Some (f pr) else mget (s_procs s) q)" for q
    using pr by (simp add: mget_upd_proc)
  show "tables_sorted ?s" using l srt pr by (auto simp: looks_def tables_sorted_def get)
  show "queue_nodes q ?s \<subseteq> B' q" for q
  proof (cases "q = p")
    case True
    then show ?thesis using q(1) by (simp add: queue_nodes_def get)
  next
    case False
    then have "queue_nodes q ?s \<subseteq> B q" using l by (simp add: looks_def queue_nodes_def get)
    with q(2) [OF False] show ?thesis by blast
  qed
  show "alive (g\<lparr>hold := h, desc := d, own := w\<rparr>) = alive (graph_of ?s)"
    using pr by (auto simp: looks_fields [OF l] get)
  show "link (g\<lparr>hold := h, desc := d, own := w\<rparr>) = link (graph_of ?s)"
    "used (g\<lparr>hold := h, desc := d, own := w\<rparr>) = used (graph_of ?s)"
    by (simp_all add: looks_fields [OF l] fun_eq_iff upd_proc_def)
qed (simp_all add: h d w looks_fields [OF l] fun_eq_iff ref_of_def mget_upd_proc pr)

lemma looks_proc_fields:
  assumes "looks g B s" "mget (s_procs s) p = Some pr"
  shows "hold g p d = map_option (\<lambda>r. (r_node r, r_strong r \<noteq> 0)) (mget (p_refs pr) d)"
    "desc g p n = mget (p_by_node pr) n" "own g p a = mget (p_nodes pr) a" "proc_nodes pr \<subseteq> B p"
    "p \<in> alive g" "msorted (p_refs pr)" "msorted (p_nodes pr)"
proof -
  have "queue_nodes p s \<subseteq> B p" "tables_sorted s" using assms(1) by (simp_all add: looks_def)
  with assms(2) show "hold g p d = map_option (\<lambda>r. (r_node r, r_strong r \<noteq> 0)) (mget (p_refs pr) d)"
    "desc g p n = mget (p_by_node pr) n" "own g p a = mget (p_nodes pr) a" "proc_nodes pr \<subseteq> B p"
    "p \<in> alive g" "msorted (p_refs pr)" "msorted (p_nodes pr)"
    by (simp_all add: looks_fields [OF assms(1)] ref_of_def queue_nodes_def tables_sorted_def)
qed

lemma looks_disown:
  assumes l: "looks g B s"
  shows "looks (g\<lparr>own := \<lambda>q a. if q = p \<and> a = ptr then None else own g q a\<rparr>) B
    (upd_proc p (\<lambda>pr. pr\<lparr>p_nodes := mdel ptr (p_nodes pr)\<rparr>) s)"
proof (cases "mget (s_procs s) p")
  case None
  then have "own g p a = None" for a by (simp add: looks_fields [OF l])
  then have "(\<lambda>q a. if q = p \<and> a = ptr then None else own g q a) = own g" by (auto simp: fun_eq_iff)
  with l None show ?thesis by (simp add: upd_proc_absent)
next
  case (Some pr)
  let ?f = "\<lambda>pr. pr\<lparr>p_nodes := mdel ptr (p_nodes pr)\<rparr>"
  note fields = looks_proc_fields [OF l Some]
  have "looks (g\<lparr>hold := hold g, desc := desc g,
      own := \<lambda>q a. if q = p \<and> a = ptr then None else own g q a\<rparr>) B (upd_proc p ?f s)"
    by (rule looks_proc [OF l Some])
      (use fields(4) in \<open>auto simp: fun_eq_iff fields(1-3) proc_nodes_def\<close>)
  then show ?thesis by simp
qed

lemma looks_ask:
  assumes l: "looks g B s" and same: "\<And>pr. p_refs (f pr) = p_refs pr" "\<And>pr. p_by_node (f pr) = p_by_node pr"
    "\<And>pr. p_nodes (f pr) = p_nodes pr" and q: "\<And>pr. proc_nodes (f pr) \<subseteq> insert n (proc_nodes pr)"
  shows "looks g (\<lambda>q. if q = p then insert n (B q) else B q) (upd_proc p f s)"
proof (cases "mget (s_procs s) p")
  case None
  then show ?thesis unfolding upd_proc_absent [OF None] by (intro looks_weaken [OF l]) auto
next
  case (Some pr)
  note fields = looks_proc_fields [OF l Some]
  have "looks (g\<lparr>hold := hold g, desc := desc g, own := own g\<rparr>)
      (\<lambda>q. if q = p then insert n (B q) else B q) (upd_proc p f s)"
    by (rule looks_proc [OF l Some])
      (use q [of pr] fields(4) in \<open>auto simp: fun_eq_iff fields(1-3) same\<close>)
  then show ?thesis by simp
qed

lemma looks_ask_proc:
  "looks g B s \<Longrightarrow> looks g (\<lambda>q. if q = p then insert n (B q) else B q) (enqueue_proc_work p (WNode n) s)"
  unfolding enqueue_proc_work_def by (rule looks_ask) (auto simp: proc_nodes_def)

lemma looks_ask_thread:
  "looks g B s \<Longrightarrow>
    looks g (\<lambda>q. if q = p then insert n (B q) else B q) (enqueue_deferred_thread_work p t (WNode n) s)"
  unfolding enqueue_deferred_thread_work_def upd_thread_def
  by (rule looks_ask) (auto simp: proc_nodes_def split: if_splits)

lemma looks_dequeue: "looks g B s \<Longrightarrow> looks g B (dequeue_node_work n s)"
  by (auto simp: dequeue_node_work_def same_links_def intro!: looks.remove_work looks_upd_node
      split: option.split)

text \<open>\<open>dec_node\<close>: the node stays, with its count, and its owner may be asked about it; or nobody holds
  it and it goes.\<close>

lemma dec_node_looks:
  assumes l: "looks g B s" and nd: "mget (s_nodes s) n = Some nd"
    and l': "l' = (link_of nd)\<lparr>l_strong := n_internal_strong nd - (if strong \<and> internal then 1 else 0)\<rparr>"
  shows "looks (g\<lparr>link := (link g)(n \<mapsto> l')\<rparr>) (\<lambda>q. if n_proc nd = Some q then insert n (B q) else B q)
      (dec_node n strong internal s) \<or>
    n_refs nd = [] \<and>
    looks (g\<lparr>own := \<lambda>q a. if n_proc nd = Some q \<and> a = n_ptr nd then None else own g q a,
             link := (link g)(n := None)\<rparr>) B
      (dec_node n strong internal s)"
proof -
  define nd1 where "nd1 = fst (dec_counts strong internal nd)"
  define s1 where "s1 = upd_node n (\<lambda>_. nd1) s"
  define g1 where "g1 = g\<lparr>link := (link g)(n \<mapsto> l')\<rparr>"
  have same: "link_of nd1 = l'" "n_proc nd1 = n_proc nd" "n_ptr nd1 = n_ptr nd" "n_refs nd1 = n_refs nd"
    by (auto simp: nd1_def l' dec_counts_def Let_def link_of_def)
  have s1: "looks g1 B s1" unfolding s1_def g1_def using looks_set_node [OF l nd, of "\<lambda>_. nd1"] same by simp
  let ?B = "\<lambda>q. if n_proc nd = Some q then insert n (B q) else B q"
  have kept: "looks g1 ?B s1" by (rule looks_weaken [OF s1]) auto
  have asked: "looks g1 ?B (wakeup_proc p (enqueue_proc_work p (WNode n)
      (upd_node n (\<lambda>nd. nd\<lparr>n_work_queued := Some (ProcList p)\<rparr>) s1)))" if "n_proc nd = Some p" for p
  proof -
    have "looks g1 B (upd_node n (\<lambda>nd. nd\<lparr>n_work_queued := Some (ProcList p)\<rparr>) s1)"
      by (rule looks_upd_node [OF s1]) (simp add: same_links_def)
    from looks.wakeup_proc [OF looks_ask_proc [OF this, of p n], of p] that show ?thesis
      by (auto elim!: looks_weaken split: if_splits)
  qed
  have gone: "looks (g\<lparr>own := \<lambda>q a. if n_proc nd = Some q \<and> a = n_ptr nd then None else own g q a,
      link := (link g)(n := None)\<rparr>) B
      (remove_node n (case n_proc nd1 of
         Some p \<Rightarrow> upd_proc p (\<lambda>pr. pr\<lparr>p_nodes := mdel (n_ptr nd1) (p_nodes pr)\<rparr>) (dequeue_node_work n s1)
       | None \<Rightarrow> s1))"
  proof (cases "n_proc nd")
    case None
    then show ?thesis using looks_del_node [OF s1, of n] same by (simp add: g1_def)
  next
    case (Some p)
    have "(\<lambda>q a. if q = p \<and> a = n_ptr nd then None else own g1 q a) =
        (\<lambda>q a. if n_proc nd = Some q \<and> a = n_ptr nd then None else own g q a)"
      using Some by (auto simp: fun_eq_iff g1_def)
    with Some same looks_del_node [OF looks_disown [OF looks_dequeue [OF s1, of n], of p "n_ptr nd"], of n]
    show ?thesis by (simp add: g1_def)
  qed
  show ?thesis
    using kept asked gone unfolding dec_node_def nd Let_def g1_def [symmetric] s1_def nd1_def
    by (auto simp: case_prod_beta same [unfolded nd1_def] split: option.split)
qed

text \<open>\<open>inc_node\<close>: it fails and changes nothing, or counts, and the target process may be asked.\<close>

definition ask :: "(proc_id \<times> tid) option \<Rightarrow> node_id \<Rightarrow> (proc_id \<Rightarrow> node_id set) \<Rightarrow> proc_id \<Rightarrow> node_id set" where
  "ask target n B q = (case target of Some (p, t) \<Rightarrow> if q = p then insert n (B q) else B q | None \<Rightarrow> B q)"

lemma inc_node_failed: "inc_node n strong internal target s = Some (Inl e, s') \<Longrightarrow> s' = s"
  by (auto simp: inc_node_def elim!: bind_Some_elim split: option.splits if_splits)

lemma inc_node_looks:
  assumes l: "looks g B s" and inc: "inc_node n strong internal target s = Some (Inr u, s')"
  obtains nd where "mget (s_nodes s) n = Some nd"
    "looks (g\<lparr>link := (link g)(n \<mapsto> (link_of nd)\<lparr>l_strong := n_internal_strong nd +
       (if strong \<and> internal then 1 else 0)\<rparr>)\<rparr>) (ask target n B) s'"
proof -
  from inc obtain nd where nd: "mget (s_nodes s) n = Some nd"
    by (auto simp: inc_node_def elim!: bind_Some_elim split: option.splits)
  let ?l = "(link_of nd)\<lparr>l_strong := n_internal_strong nd + (if strong \<and> internal then 1 else 0)\<rparr>"
  define g1 where "g1 = g\<lparr>link := (link g)(n \<mapsto> ?l)\<rparr>"
  have counted: "looks g1 B (upd_node n f s)"
    if "link_of (f nd) = ?l" for f using looks_set_node [OF l nd, of f] that by (simp add: g1_def)
  have "link g n = Some (link_of nd)" by (simp add: looks_fields(4) [OF l] nd)
  then have unchanged: "?l = link_of nd \<Longrightarrow> looks g1 B s" using l by (simp add: g1_def fun_upd_idem)
  have ask: "looks g' (ask target n B) s1" if "looks g' B s1" for g' s1
    by (rule looks_weaken [OF that]) (auto simp: ask_def split: option.split)
  have deferred: "looks g' (ask (Some (p, t)) n B) (enqueue_deferred_thread_work p t (WNode n)
      (upd_node n (\<lambda>nd. nd\<lparr>n_work_queued := Some (ThreadList p t)\<rparr>) s1))" if "looks g' B s1" for g' s1 p t
  proof -
    have "looks g' B (upd_node n (\<lambda>nd. nd\<lparr>n_work_queued := Some (ThreadList p t)\<rparr>) s1)"
      by (rule looks_upd_node [OF that]) (simp add: same_links_def)
    from looks_ask_thread [OF this, of p n t] show ?thesis by (simp add: ask_def [abs_def])
  qed
  have "\<exists>s1. looks g1 B s1 \<and> (s' = s1 \<or> (\<exists>p t. target = Some (p, t) \<and>
      s' = enqueue_deferred_thread_work p t (WNode n)
        (upd_node n (\<lambda>nd. nd\<lparr>n_work_queued := Some (ThreadList p t)\<rparr>) s1)))"
  proof (cases strong)
    case True
    define c :: "node \<Rightarrow> node" where "c = (\<lambda>m. if internal then m\<lparr>n_internal_strong := n_internal_strong nd + 1\<rparr>
      else m\<lparr>n_local_strong := n_local_strong nd + 1\<rparr>)"
    have "looks g1 B (upd_node n c s)" by (rule counted) (auto simp: c_def link_of_def True)
    moreover from this have "looks g1 B (dequeue_node_work n (upd_node n c s))" by (rule looks_dequeue)
    moreover have "s' = upd_node n c s \<or> (\<exists>p t. target = Some (p, t) \<and>
        s' = enqueue_deferred_thread_work p t (WNode n)
          (upd_node n (\<lambda>nd. nd\<lparr>n_work_queued := Some (ThreadList p t)\<rparr>) (dequeue_node_work n (upd_node n c s))))"
      using inc nd True unfolding c_def
      by (auto simp: inc_node_def elim!: bind_Some_elim split: if_splits option.splits)
    ultimately show ?thesis by blast
  next
    case False
    define s1 where "s1 = (if internal then s else upd_node n (\<lambda>m. m\<lparr>n_local_weak := n_local_weak nd + 1\<rparr>) s)"
    have "looks g1 B s1"
      using unchanged counted [of "\<lambda>m. m\<lparr>n_local_weak := n_local_weak nd + 1\<rparr>"] False
      by (auto simp: s1_def link_of_def)
    moreover have "s' = s1 \<or> (\<exists>p t. target = Some (p, t) \<and>
        s' = enqueue_deferred_thread_work p t (WNode n)
          (upd_node n (\<lambda>nd. nd\<lparr>n_work_queued := Some (ThreadList p t)\<rparr>) s1))"
      using inc nd False unfolding s1_def
      by (auto simp: inc_node_def elim!: bind_Some_elim split: if_splits option.splits)
    ultimately show ?thesis by blast
  qed
  then have "looks g1 (ask target n B) s'" using ask deferred by blast
  with nd show ?thesis unfolding g1_def by (rule that)
qed

text \<open>A reference changes, but not the node it is for.\<close>

lemma looks_upd_ref:
  assumes l: "looks g B s" and r: "ref_of s p d = Some r" and node: "r_node (f r) = r_node r"
  shows "looks (g\<lparr>hold := \<lambda>q e. if q = p \<and> e = d then Some (r_node r, r_strong (f r) \<noteq> 0) else hold g q e\<rparr>) B
    (upd_ref p d f s)"
proof -
  from r obtain pr where pr: "mget (s_procs s) p = Some pr" and rr: "mget (p_refs pr) d = Some r"
    by (auto simp: ref_of_def elim!: bind_Some_elim)
  note fields = looks_proc_fields [OF l pr]
  have "looks (g\<lparr>hold := \<lambda>q e. if q = p \<and> e = d then Some (r_node r, r_strong (f r) \<noteq> 0) else hold g q e,
      desc := desc g, own := own g\<rparr>) B (upd_proc p (\<lambda>pr. pr\<lparr>p_refs := mmod d f (p_refs pr)\<rparr>) s)"
    by (rule looks_proc [OF l pr])
      (use fields(4) rr node in \<open>auto simp: fun_eq_iff fields(1-3) proc_nodes_def\<close>)
  then show ?thesis by (simp add: upd_ref_def)
qed

section \<open>References come and go\<close>

lemma refs_ok_looks: "refs_ok s \<Longrightarrow> looks (graph_of s) (\<lambda>p. queue_nodes p s) s"
  by (simp add: refs_ok_def looks_refl)

lemma refs_ok_graph: "refs_ok s \<Longrightarrow> graph_ok (graph_of s)"
  by (simp add: refs_ok_def)

lemma graph_of_asked [simp]: "(graph_of s)\<lparr>asked := (\<lambda>p. queue_nodes p s)\<rparr> = graph_of s"
  by (simp add: graph_of_def)

lemma refs_ok_frame: "refs_ok s \<Longrightarrow> looks (graph_of s) (\<lambda>p. queue_nodes p s) s' \<Longrightarrow> refs_ok s'"
  by (erule looks_refs_ok) (simp add: refs_ok_def)

text \<open>The owner of a node may be asked about it on top.\<close>

lemma looks_asked_ok:
  assumes l: "looks g B' s" and ok: "graph_ok (g\<lparr>asked := B\<rparr>)"
    and B': "\<And>q m. m \<in> B' q \<Longrightarrow> m \<in> B q \<or> (\<exists>k. link g m = Some k \<and> l_owner k = Some q)"
  shows "refs_ok s"
proof (rule looks_refs_ok [OF l])
  have "graph_ok ((g\<lparr>asked := B\<rparr>)\<lparr>asked := B', used := used g\<rparr>)"
    by (rule graph_asked [OF ok]) (use B' in auto)
  then show "graph_ok (g\<lparr>asked := B'\<rparr>)" by simp
qed

lemma dec_node_ok:
  assumes l: "looks g B s" and nd: "mget (s_nodes s) n = Some nd"
    and l': "l' = (link_of nd)\<lparr>l_strong := n_internal_strong nd - (if strong \<and> internal then 1 else 0)\<rparr>"
    and ok: "graph_ok (g\<lparr>link := (link g)(n \<mapsto> l'), asked := B\<rparr>)"
  shows "refs_ok (dec_node n strong internal s)"
  using dec_node_looks [OF l nd l']
proof
  let ?B = "\<lambda>q. if n_proc nd = Some q then insert n (B q) else B q"
  assume s': "looks (g\<lparr>link := (link g)(n \<mapsto> l')\<rparr>) ?B (dec_node n strong internal s)"
  show ?thesis
    by (rule looks_asked_ok [OF s']) (use ok l' in \<open>auto simp: link_of_def split: if_splits\<close>)
next
  let ?own = "\<lambda>q a. if n_proc nd = Some q \<and> a = n_ptr nd then None else own g q a"
  assume "n_refs nd = [] \<and> looks (g\<lparr>own := ?own, link := (link g)(n := None)\<rparr>) B (dec_node n strong internal s)"
  then have none: "n_refs nd = []"
    and s': "looks (g\<lparr>own := ?own, link := (link g)(n := None)\<rparr>) B (dec_node n strong internal s)" by auto
  let ?g = "g\<lparr>link := (link g)(n \<mapsto> l'), asked := B\<rparr>"
  have own': "own ?g q a = Some m \<and> m \<noteq> n" if "?own q a = Some m" for q a m
  proof -
    from that have o: "own ?g q a = Some m" by (simp split: if_splits)
    from graph_okD(5) [OF ok o] that show ?thesis using o by (auto simp: l' link_of_def split: if_splits)
  qed
  have "graph_ok (g\<lparr>own := ?own, link := (link g)(n := None), asked := B\<rparr>)"
  proof (rule graph_remove [OF ok])
    show "l_holders l' = {}" using none by (simp add: l' link_of_def)
    show "g\<lparr>own := ?own, link := (link g)(n := None), asked := B\<rparr> =
        ?g\<lparr>own := ?own, link := (link ?g)(n := None)\<rparr>" by (rule ref_graph.equality) simp_all
  qed (use own' in simp_all)
  then show ?thesis by (intro looks_refs_ok [OF s'])
qed

lemma dec_node_local_ok:
  assumes ok: "refs_ok s" and i: "\<not> internal \<or> \<not> strong"
  shows "refs_ok (dec_node n strong internal s)"
proof (cases "mget (s_nodes s) n")
  case None
  with ok show ?thesis by (simp add: dec_node_def)
next
  case (Some nd)
  have "link (graph_of s) n = Some (link_of nd)" using Some by simp
  then show ?thesis
    by (intro dec_node_ok [OF refs_ok_looks [OF ok] Some refl])
      (use i refs_ok_graph [OF ok] in \<open>auto simp: fun_upd_idem link_of_def\<close>)
qed

interpretation refs_ok_marks: mark_ops refs_ok
proof
qed (rule refs_ok_frame, assumption, drule refs_ok_looks,
  auto intro: looks.thread_queue looks.proc_queue looks.wakes looks.resumes looks.notifications
    looks.shadow looks.deaths looks.delivered looks.node_marks)+

lemma ref_facts:
  assumes ok: "refs_ok s" and r: "ref_of s p d = Some r"
  obtains nd pr where "mget (s_nodes s) (r_node r) = Some nd" "p \<in> set (mkeys (n_refs nd))"
    "mget (s_procs s) p = Some pr" "mget (p_refs pr) d = Some r" "mget (p_by_node pr) (r_node r) = Some d"
    "hold (graph_of s) p d = Some (r_node r, r_strong r \<noteq> 0)" "link (graph_of s) (r_node r) = Some (link_of nd)"
proof -
  from r obtain pr where pr: "mget (s_procs s) p = Some pr" "mget (p_refs pr) d = Some r"
    by (auto simp: ref_of_def elim!: bind_Some_elim)
  have h: "hold (graph_of s) p d = Some (r_node r, r_strong r \<noteq> 0)" using r by simp
  from graph_okD(2) [OF refs_ok_graph [OF ok] h] obtain nd
    where nd: "mget (s_nodes s) (r_node r) = Some nd" "p \<in> set (mkeys (n_refs nd))"
    by (auto simp: link_of_def)
  have "desc (graph_of s) p (r_node r) = Some d" using graph_okD(1) [OF refs_ok_graph [OF ok]] h by blast
  with pr have "mget (p_by_node pr) (r_node r) = Some d" by simp
  with pr h nd show ?thesis by (intro that [of nd pr]) simp_all
qed

lemma upd_ref_same_ok:
  assumes ok: "refs_ok s" and same: "\<And>r. r_node (f r) = r_node r" "\<And>r. (r_strong (f r) = 0) = (r_strong r = 0)"
  shows "refs_ok (upd_ref p d f s)"
proof (cases "ref_of s p d")
  case None
  show ?thesis
  proof (cases "mget (s_procs s) p")
    case None
    with ok show ?thesis by (simp add: upd_ref_def upd_proc_absent)
  next
    case (Some pr)
    let ?g = "graph_of s"
    have same: "mmod d f (p_refs pr) = p_refs pr" using None Some by (simp add: ref_of_def mmod_def)
    note fields = looks_proc_fields [OF refs_ok_looks [OF ok] Some]
    have "looks (?g\<lparr>hold := hold ?g, desc := desc ?g, own := own ?g\<rparr>) (\<lambda>p. queue_nodes p s)
        (upd_proc p (\<lambda>pr. pr\<lparr>p_refs := mmod d f (p_refs pr)\<rparr>) s)"
      by (rule looks_proc [OF refs_ok_looks [OF ok] Some])
        (use fields(4) in \<open>auto simp: fun_eq_iff same proc_nodes_def Some ref_of_def\<close>)
    then show ?thesis by (intro refs_ok_frame [OF ok]) (simp add: upd_ref_def)
  qed
next
  case (Some r)
  let ?g = "graph_of s"
  have "(\<lambda>q e. if q = p \<and> e = d then Some (r_node r, r_strong (f r) \<noteq> 0) else hold ?g q e) = hold ?g"
    using Some same by (auto simp: fun_eq_iff)
  with looks_upd_ref [where f = f, OF refs_ok_looks [OF ok] Some same(1)] show ?thesis
    by (intro refs_ok_frame [OF ok]) simp
qed

text \<open>A reference of \<open>p\<close> goes.\<close>

lemma looks_drop_ref:
  assumes l: "looks g B s" and pr: "mget (s_procs s) p = Some pr"
  shows "looks (g\<lparr>hold := \<lambda>q e. if q = p \<and> e = d then None else hold g q e,
      desc := \<lambda>q m. if q = p \<and> m = n then None else desc g q m\<rparr>) B
    (upd_proc p (\<lambda>pr. pr\<lparr>p_refs := mdel d (p_refs pr), p_by_node := mdel n (p_by_node pr)\<rparr>) s)"
proof -
  note fields = looks_proc_fields [OF l pr]
  have "looks (g\<lparr>hold := \<lambda>q e. if q = p \<and> e = d then None else hold g q e,
      desc := \<lambda>q m. if q = p \<and> m = n then None else desc g q m, own := own g\<rparr>) B
    (upd_proc p (\<lambda>pr. pr\<lparr>p_refs := mdel d (p_refs pr), p_by_node := mdel n (p_by_node pr)\<rparr>) s)"
    by (rule looks_proc [OF l pr])
      (use fields(4) in \<open>auto simp: fun_eq_iff fields(1-3) proc_nodes_def\<close>)
  then show ?thesis by simp
qed

lemma link_of_state:
  assumes "looks g B s" "link g n = Some l"
  obtains nd where "mget (s_nodes s) n = Some nd" "link_of nd = l"
  using assms(2) by (auto simp: looks_fields(4) [OF assms(1)])

lemma graph_drop_asked:
  assumes ok: "graph_ok g" and h: "hold g p d = Some (n, st)" and l: "link g n = Some l"
    and l': "l' = l\<lparr>l_holders := l_holders l - {p}, l_strong := l_strong l - (if st then 1 else 0)\<rparr>"
  shows "graph_ok (g\<lparr>hold := \<lambda>q e. if q = p \<and> e = d then None else hold g q e,
      desc := \<lambda>q m. if q = p \<and> m = n then None else desc g q m, link := (link g)(n \<mapsto> l'),
      asked := \<lambda>q. if l_owner l = Some q then insert n (asked g q) else asked g q\<rparr>)" (is "graph_ok ?g'")
proof -
  let ?g1 = "g\<lparr>hold := \<lambda>q e. if q = p \<and> e = d then None else hold g q e,
      desc := \<lambda>q m. if q = p \<and> m = n then None else desc g q m, link := (link g)(n \<mapsto> l')\<rparr>"
  have ok1: "graph_ok ?g1" by (rule graph_drop [OF ok h l]) (simp add: l')
  have "graph_ok (?g1\<lparr>asked := asked ?g', used := used ?g1\<rparr>)"
    by (rule graph_asked [OF ok1]) (auto simp: l' split: if_splits)
  then show ?thesis by simp
qed

lemma cleanup_ref_ok:
  assumes ok: "refs_ok s"
  shows "refs_ok (cleanup_ref p d s)"
proof (cases "ref_of s p d")
  case None
  with ok show ?thesis by (simp add: cleanup_ref_def)
next
  case (Some r)
  then obtain nd pr where nd: "mget (s_nodes s) (r_node r) = Some nd" "p \<in> set (mkeys (n_refs nd))"
    and pr: "mget (s_procs s) p = Some pr" and h: "hold (graph_of s) p d = Some (r_node r, r_strong r \<noteq> 0)"
    and lnd: "link (graph_of s) (r_node r) = Some (link_of nd)" by (rule ref_facts [OF ok])
  let ?n = "r_node r" and ?g = "graph_of s"
  define B where "B q = (if n_proc nd = Some q then insert ?n (queue_nodes q s) else queue_nodes q s)" for q
  define g1 where "g1 = ?g\<lparr>hold := \<lambda>q e. if q = p \<and> e = d then None else hold ?g q e,
      desc := \<lambda>q m. if q = p \<and> m = ?n then None else desc ?g q m\<rparr>"
  define s1 where "s1 = upd_proc p (\<lambda>pr. pr\<lparr>p_refs := mdel d (p_refs pr), p_by_node := mdel ?n (p_by_node pr)\<rparr>) s"
  have s1: "looks g1 (\<lambda>q. queue_nodes q s) s1"
    unfolding g1_def s1_def by (rule looks_drop_ref [OF refs_ok_looks [OF ok] pr])
  have nd1: "mget (s_nodes s1) ?n = Some nd" by (simp add: s1_def nd upd_proc_def)
  define s2 where "s2 = (if r_strong r \<noteq> 0 then dec_node ?n True True s1 else s1)"
  define l2 where "l2 = (link_of nd)\<lparr>l_strong := n_internal_strong nd - (if r_strong r \<noteq> 0 then 1 else 0)\<rparr>"
  have s2: "looks (g1\<lparr>link := (link g1)(?n \<mapsto> l2)\<rparr>) B s2"
  proof (cases "r_strong r \<noteq> 0")
    case True
    with dec_node_looks [OF s1 nd1 refl, of True True] nd(2) show ?thesis
      by (auto simp: s2_def l2_def B_def [abs_def])
  next
    case False
    then have "link g1 ?n = Some l2" using lnd by (simp add: g1_def l2_def link_of_def)
    with False show ?thesis by (simp add: s2_def fun_upd_idem) (auto intro: looks_weaken [OF s1] simp: B_def)
  qed
  obtain nd2 where nd2: "mget (s_nodes s2) ?n = Some nd2" "link_of nd2 = l2"
    by (rule link_of_state [OF s2, of ?n l2]) simp
  let ?f = "\<lambda>nd. nd\<lparr>n_refs := mdel p (n_refs nd)\<rparr>"
  let ?s3 = "upd_node ?n ?f s2"
  have l3: "link_of (?f nd2) = (link_of nd)\<lparr>l_holders := l_holders (link_of nd) - {p},
      l_strong := l_strong (link_of nd) - (if r_strong r \<noteq> 0 then 1 else 0)\<rparr>"
    using nd2(2) by (auto simp: l2_def link_of_def)
  have s3: "looks (g1\<lparr>link := (link g1)(?n \<mapsto> link_of (?f nd2))\<rparr>) B ?s3"
    using looks_set_node [OF s2 nd2(1), of ?f] by simp
  have "(\<lambda>q. if l_owner (link_of nd) = Some q then insert ?n (asked ?g q) else asked ?g q) = B"
    by (simp add: fun_eq_iff B_def link_of_def)
  with graph_drop_asked [OF refs_ok_graph [OF ok] h lnd l3]
  have ok3: "graph_ok (g1\<lparr>link := (link g1)(?n \<mapsto> link_of (?f nd2)), asked := B\<rparr>)" by (simp add: g1_def)
  have "refs_ok (dec_node ?n False True ?s3)"
  proof (rule dec_node_ok [OF s3 _ refl])
    show "mget (s_nodes ?s3) ?n = Some (?f nd2)" by (simp add: nd2 upd_node_def)
    have "(link_of (?f nd2))\<lparr>l_strong := n_internal_strong (?f nd2) - (if False \<and> True then 1 else 0)\<rparr> =
        link_of (?f nd2)" by (simp add: link_of_def)
    with ok3 show "graph_ok (g1\<lparr>link := (link g1)(?n \<mapsto> link_of (?f nd2)), link := (link (g1\<lparr>link :=
        (link g1)(?n \<mapsto> link_of (?f nd2))\<rparr>))(?n \<mapsto> (link_of (?f nd2))\<lparr>l_strong := n_internal_strong (?f nd2) -
        (if False \<and> True then 1 else 0)\<rparr>), asked := B\<rparr>)" by (simp only: ref_graph.simps) simp
  qed
  then show ?thesis
    by (auto simp: cleanup_ref_def Some Let_def s1_def s2_def
        intro!: refs_ok_marks.deaths refs_ok_marks.dequeue_death_work split: option.split)
qed

lemma inc_ref_failed: "inc_ref p d strong target s = Some (Inl e, s') \<Longrightarrow> s' = s"
  by (auto simp: inc_ref_def dest: inc_node_failed elim!: bind_Some_elim split: sum.splits if_splits)

text \<open>\<open>inc_ref\<close>: the node counts when the reference had no count of that kind, then the reference does.\<close>

lemma inc_ref_looks:
  assumes inc: "inc_ref p d strong target s = Some (Inr u, s')" and r: "ref_of s p d = Some r"
    and l: "looks g B s" and nd: "mget (s_nodes s) (r_node r) = Some nd"
    and l': "l' = (link_of nd)\<lparr>l_strong := n_internal_strong nd + (if strong \<and> r_strong r = 0 then 1 else 0)\<rparr>"
  shows "looks (g\<lparr>hold := \<lambda>q e. if q = p \<and> e = d then Some (r_node r, strong \<or> r_strong r \<noteq> 0) else hold g q e,
    link := (link g)(r_node r \<mapsto> l')\<rparr>) (ask target (r_node r) B) s'"
proof -
  let ?n = "r_node r"
  define f where "f r' = (if strong then r'\<lparr>r_strong := r_strong r + 1\<rparr> else r'\<lparr>r_weak := r_weak r + 1\<rparr>)" for r' :: bref
  define zero where "zero \<longleftrightarrow> (if strong then r_strong r else r_weak r) = 0"
  have lnd: "link g ?n = Some (link_of nd)" by (simp add: looks_fields(4) [OF l] nd)
  obtain s1 where s1: "if zero then inc_node ?n strong True target s = Some (Inr (), s1) else s1 = s"
    and s': "s' = upd_ref p d f s1" and r1: "ref_of s1 p d = Some r"
  proof (cases zero)
    case True
    with inc r obtain s1 where s1: "inc_node ?n strong True target s = Some (Inr (), s1)"
      by (auto simp: inc_ref_def zero_def elim!: bind_Some_elim split: sum.splits if_splits)
    from ref_frame.any_inc_node [OF s1 r] have "ref_of s1 p d = Some r" .
    with True inc r s1 show ?thesis
      by (intro that [of s1]) (auto simp: inc_ref_def zero_def f_def [abs_def] elim!: bind_Some_elim split: if_splits)
  next
    case False
    with inc r show ?thesis
      by (intro that [of s]) (auto simp: inc_ref_def zero_def f_def [abs_def] elim!: bind_Some_elim split: if_splits)
  qed
  have counted: "looks (g\<lparr>link := (link g)(?n \<mapsto> l')\<rparr>) (ask target ?n B) s1"
  proof (cases zero)
    case True
    with s1 have "inc_node ?n strong True target s = Some (Inr (), s1)" by simp
    from inc_node_looks [OF l this] nd True show ?thesis by (auto simp: l' zero_def split: if_splits)
  next
    case False
    then have "l' = link_of nd" by (auto simp: l' zero_def link_of_def)
    with lnd s1 False show ?thesis
      by (auto simp: fun_upd_idem ask_def intro!: looks_weaken [OF l] split: option.split)
  qed
  have fr: "r_node (f r) = r_node r" "r_strong (f r) \<noteq> 0 \<longleftrightarrow> strong \<or> r_strong r \<noteq> 0" by (auto simp: f_def)
  have "looks (g\<lparr>link := (link g)(?n \<mapsto> l'),
      hold := \<lambda>q e. if q = p \<and> e = d then Some (?n, strong \<or> r_strong r \<noteq> 0) else hold g q e\<rparr>) (ask target ?n B) s'"
    unfolding s' fr(2) [symmetric] using looks_upd_ref [where f = f, OF counted r1 fr(1)] by (simp cong: if_cong)
  then show ?thesis by (auto simp: looks_def)
qed

lemma inc_ref_ok:
  assumes inc: "inc_ref p d strong target s = Some (res, s')" and ok: "refs_ok s"
    and target: "\<And>q t r nd. target = Some (q, t) \<Longrightarrow> ref_of s p d = Some r \<Longrightarrow>
      mget (s_nodes s) (r_node r) = Some nd \<Longrightarrow> n_proc nd = Some q"
  shows "refs_ok s'"
proof (cases res)
  case (Inl e)
  with inc ok show ?thesis by (auto dest: inc_ref_failed)
next
  case (Inr u)
  from inc obtain r where r: "ref_of s p d = Some r" by (auto simp: inc_ref_def elim!: bind_Some_elim)
  from ref_facts [OF ok r] obtain nd where nd: "mget (s_nodes s) (r_node r) = Some nd"
    and h: "hold (graph_of s) p d = Some (r_node r, r_strong r \<noteq> 0)"
    and lnd: "link (graph_of s) (r_node r) = Some (link_of nd)" by metis
  let ?g = "graph_of s"
  let ?g' = "?g\<lparr>hold := \<lambda>q e. if q = p \<and> e = d then Some (r_node r, strong \<or> r_strong r \<noteq> 0) else hold ?g q e,
    link := (link ?g)(r_node r \<mapsto> (link_of nd)\<lparr>l_strong := n_internal_strong nd +
      (if strong \<and> r_strong r = 0 then 1 else 0)\<rparr>)\<rparr>"
  have ok': "graph_ok ?g'"
    by (rule graph_set_strong [OF refs_ok_graph [OF ok] h lnd, where new = "strong \<or> r_strong r \<noteq> 0"])
      (simp add: link_of_def)
  have same: "?g'\<lparr>asked := (\<lambda>q. queue_nodes q s)\<rparr> = ?g'" by (rule ref_graph.equality) (simp_all add: fun_eq_iff)
  have "looks ?g' (ask target (r_node r) (\<lambda>q. queue_nodes q s)) s'"
    by (rule inc_ref_looks [OF inc [unfolded Inr] r refs_ok_looks [OF ok] nd refl])
  then show ?thesis
    by (rule looks_asked_ok [where B = "\<lambda>q. queue_nodes q s"])
      (use ok' same target [OF _ r nd] in \<open>auto simp: ask_def link_of_def split: option.splits if_splits\<close>)
qed

lemma asked_idem: "asked g = B \<Longrightarrow> g\<lparr>asked := B\<rparr> = g"
  by auto

lemma dec_ref_strong_ok:
  assumes ok: "refs_ok s" and r: "ref_of s p d = Some r" and one: "r_strong r = 1"
  shows "refs_ok (dec_node (r_node r) True True (upd_ref p d (\<lambda>r. r\<lparr>r_strong := r_strong r - 1\<rparr>) s))"
proof -
  from ref_facts [OF ok r] obtain nd where nd: "mget (s_nodes s) (r_node r) = Some nd"
    and h: "hold (graph_of s) p d = Some (r_node r, r_strong r \<noteq> 0)"
    and lnd: "link (graph_of s) (r_node r) = Some (link_of nd)" by metis
  let ?g = "graph_of s" and ?f = "\<lambda>r. r\<lparr>r_strong := r_strong r - 1\<rparr>"
  let ?h = "\<lambda>q e. if q = p \<and> e = d then Some (r_node r, False) else hold ?g q e"
  have l: "looks (?g\<lparr>hold := ?h\<rparr>) (\<lambda>q. queue_nodes q s) (upd_ref p d ?f s)"
    using looks_upd_ref [where f = ?f, OF refs_ok_looks [OF ok] r] one by (simp cong: if_cong)
  let ?l = "(link_of nd)\<lparr>l_strong := n_internal_strong nd - 1\<rparr>"
  have ok': "graph_ok (?g\<lparr>hold := ?h, link := (link ?g)(r_node r \<mapsto> ?l)\<rparr>)"
    by (rule graph_set_strong [OF refs_ok_graph [OF ok] h lnd, where new = False])
      (simp add: one link_of_def)
  have "mget (s_nodes (upd_ref p d ?f s)) (r_node r) = Some nd" by (simp add: upd_ref_def upd_proc_def nd)
  moreover have "graph_ok (?g\<lparr>hold := ?h, link := (link ?g)(r_node r \<mapsto> ?l), asked := (\<lambda>q. queue_nodes q s)\<rparr>)"
    using ok' by (subst asked_idem) (simp_all add: fun_eq_iff)
  ultimately show ?thesis by (intro dec_node_ok [OF l _ refl]) simp_all
qed

lemma dec_ref_ok:
  assumes dec: "dec_ref p d strong s = Some (res, s')" and ok: "refs_ok s"
  shows "refs_ok s'"
proof (cases "ref_of s p d")
  case None
  with dec ok show ?thesis by (simp add: dec_ref_def)
next
  case (Some r)
  have keep: "refs_ok (upd_ref p d (\<lambda>r. r\<lparr>r_weak := r_weak r - 1\<rparr>) s)"
    by (rule upd_ref_same_ok [OF ok]) simp_all
  have lower: "refs_ok (upd_ref p d (\<lambda>r. r\<lparr>r_strong := r_strong r - 1\<rparr>) s)" if "r_strong r > 1"
  proof -
    have "(\<lambda>q e. if q = p \<and> e = d then Some (r_node r, True) else hold (graph_of s) q e) = hold (graph_of s)"
      using Some that by (auto simp: fun_eq_iff)
    with looks_upd_ref [where f = "\<lambda>r. r\<lparr>r_strong := r_strong r - 1\<rparr>", OF refs_ok_looks [OF ok] Some] that
    show ?thesis by (intro refs_ok_frame [OF ok]) (simp cong: if_cong)
  qed
  show ?thesis
    using ok dec Some keep lower dec_ref_strong_ok [OF ok Some]
    by (auto simp: dec_ref_def Let_def elim!: bind_Some_elim intro!: cleanup_ref_ok split: if_splits)
qed

text \<open>The descriptor a new reference gets is not in use.\<close>

lemma lowest_free_new:
  assumes "lowest_free first us = Some d" "sorted us" "distinct us" "\<forall>u \<in> set us. first \<le> u"
  shows "d \<notin> set us \<and> first \<le> d"
  using assms
proof (induction first us rule: lowest_free.induct)
  case (2 desc used us)
  show ?case
  proof (cases "used > desc")
    case True
    with 2 show ?thesis by auto
  next
    case False
    with 2 have used: "used = desc" "unat used + 1 < 2 ^ 32" "lowest_free (used + 1) us = Some d"
      by (auto split: if_splits)
    have less: "used < u" if "u \<in> set us" for u using 2(3,4) that by (auto simp: order_less_le)
    then have "\<forall>u \<in> set us. used + 1 \<le> u" by (simp add: inc_le)
    with 2(1) [OF False used(2) used(3)] 2(3,4) have "d \<notin> set us" "used + 1 \<le> d" by auto
    moreover have "used < used + 1" using used(2) by (simp add: word_less_nat_alt unat_word_ariths)
    ultimately show ?thesis using used(1) by auto
  qed
qed simp

lemma looks_add_ref:
  assumes l: "looks g B s" and pr: "mget (s_procs s) p = Some pr" and r: "r_strong r = 0"
  shows "looks (g\<lparr>hold := \<lambda>q e. if q = p \<and> e = d then Some (r_node r, False) else hold g q e,
      desc := \<lambda>q m. if q = p \<and> m = n then Some d else desc g q m\<rparr>) B
    (upd_proc p (\<lambda>pr. pr\<lparr>p_refs := mput d r (p_refs pr), p_by_node := mput n d (p_by_node pr)\<rparr>) s)"
proof -
  note fields = looks_proc_fields [OF l pr]
  have "looks (g\<lparr>hold := \<lambda>q e. if q = p \<and> e = d then Some (r_node r, False) else hold g q e,
      desc := \<lambda>q m. if q = p \<and> m = n then Some d else desc g q m, own := own g\<rparr>) B
    (upd_proc p (\<lambda>pr. pr\<lparr>p_refs := mput d r (p_refs pr), p_by_node := mput n d (p_by_node pr)\<rparr>) s)"
    by (rule looks_proc [OF l pr])
      (use fields(4) r in \<open>auto simp: fun_eq_iff fields(1-3) proc_nodes_def\<close>)
  then show ?thesis by simp
qed

lemma add_ref_ok:
  assumes ok: "refs_ok s" and pr: "mget (s_procs s) p = Some pr" and nd: "mget (s_nodes s) n = Some nd"
    and new: "mget (p_refs pr) d = None" "mget (p_by_node pr) n = None" and r: "r_strong r = 0" "r_node r = n"
  shows "refs_ok (upd_node n (\<lambda>nd. nd\<lparr>n_refs := mput p () (n_refs nd)\<rparr>)
    (upd_proc p (\<lambda>pr. pr\<lparr>p_refs := mput d r (p_refs pr), p_by_node := mput n d (p_by_node pr)\<rparr>) s))"
    (is "refs_ok (upd_node n ?f ?s1)")
proof -
  let ?g = "graph_of s"
  let ?h = "\<lambda>q e. if q = p \<and> e = d then Some (n, False) else hold ?g q e"
    and ?d = "\<lambda>q m. if q = p \<and> m = n then Some d else desc ?g q m"
  have s1: "looks (?g\<lparr>hold := ?h, desc := ?d\<rparr>) (\<lambda>q. queue_nodes q s) ?s1"
    using looks_add_ref [OF refs_ok_looks [OF ok] pr r(1), where d = d and n = n] unfolding r(2) .
  have nd1: "mget (s_nodes ?s1) n = Some nd" by (simp add: nd upd_proc_def)
  have "looks (?g\<lparr>hold := ?h, desc := ?d, link := (link ?g)(n \<mapsto> link_of (?f nd))\<rparr>) (\<lambda>q. queue_nodes q s)
      (upd_node n ?f ?s1)"
    using looks_set_node [OF s1 nd1, of ?f] by simp
  then show ?thesis
  proof (rule looks_refs_ok)
    have "graph_ok (?g\<lparr>hold := ?h, desc := ?d, link := (link ?g)(n \<mapsto> link_of (?f nd))\<rparr>)"
    proof (rule graph_add [OF refs_ok_graph [OF ok], of p d n "link_of nd"])
      show "hold ?g p d = None" "desc ?g p n = None" "link ?g n = Some (link_of nd)" "p \<in> alive ?g"
        using pr nd new by (simp_all add: ref_of_def)
      have "link_of (?f nd) = (link_of nd)\<lparr>l_holders := insert p (l_holders (link_of nd))\<rparr>"
        by (simp add: link_of_def)
      then show "?g\<lparr>hold := ?h, desc := ?d, link := (link ?g)(n \<mapsto> link_of (?f nd))\<rparr> =
          ?g\<lparr>hold := ?h, desc := ?d,
             link := (link ?g)(n \<mapsto> (link_of nd)\<lparr>l_holders := insert p (l_holders (link_of nd))\<rparr>)\<rparr>" by simp
    qed
    then show "graph_ok (?g\<lparr>hold := ?h, desc := ?d, link := (link ?g)(n \<mapsto> link_of (?f nd)),
        asked := (\<lambda>q. queue_nodes q s)\<rparr>)"
      by (subst asked_idem) (simp_all add: fun_eq_iff)
  qed
qed

lemma inc_ref_or_undo_ok:
  assumes inc: "inc_ref_or_undo p d created strong target s = Some (res, s')" and ok: "refs_ok s"
    and target: "\<And>q t r nd. target = Some (q, t) \<Longrightarrow> ref_of s p d = Some r \<Longrightarrow>
      mget (s_nodes s) (r_node r) = Some nd \<Longrightarrow> n_proc nd = Some q"
  shows "refs_ok s'"
proof -
  from inc obtain re s1 where i: "inc_ref p d strong target s = Some (re, s1)"
    and s': "s' = s1 \<or> s' = cleanup_ref p d s1"
    by (auto simp: inc_ref_or_undo_def elim!: bind_Some_elim split: sum.splits if_splits)
  have "refs_ok s1" by (rule inc_ref_ok [OF i ok target])
  with s' show ?thesis by (auto intro: cleanup_ref_ok)
qed

lemma new_descriptor:
  assumes "lowest_free first (filter (\<lambda>d. first \<le> d) (mkeys (p_refs pr))) = Some d" "msorted (p_refs pr)"
  shows "mget (p_refs pr) d = None"
proof -
  have "d \<notin> set (filter (\<lambda>d. first \<le> d) (mkeys (p_refs pr))) \<and> first \<le> d"
    by (rule lowest_free_new [OF assms(1)]) (use assms(2) in \<open>auto simp: msorted_def sorted_wrt_filter strict_sorted_iff\<close>)
  then show ?thesis by (auto simp: mget_None)
qed

lemma inc_ref_for_node_ok:
  assumes inc: "inc_ref_for_node p n strong target s = Some (res, s')" and ok: "refs_ok s"
    and nd: "mget (s_nodes s) n = Some nd" and target: "\<And>q t. target = Some (q, t) \<Longrightarrow> n_proc nd = Some q"
  shows "refs_ok s'"
proof (cases "mget (s_procs s) p")
  case None
  with inc ok show ?thesis by (simp add: inc_ref_for_node_def)
next
  case (Some pr)
  note fields = looks_proc_fields [OF refs_ok_looks [OF ok] Some]
  show ?thesis
  proof (cases "mget (p_by_node pr) n")
    case None
    with inc Some nd obtain first d where
      d: "lowest_free first (filter (\<lambda>d. first \<le> d) (mkeys (p_refs pr))) = Some d" and
      i: "inc_ref_or_undo p d True strong target (upd_node n (\<lambda>nd. nd\<lparr>n_refs := mput p () (n_refs nd)\<rparr>)
        (upd_proc p (\<lambda>pr. pr\<lparr>p_refs := mput d \<lparr>r_node = n, r_strong = 0, r_weak = 0, r_death = None\<rparr> (p_refs pr),
           p_by_node := mput n d (p_by_node pr)\<rparr>) s)) = Some (res, s')"
      by (auto simp: inc_ref_for_node_def Let_def upd_proc_def elim!: bind_Some_elim split: if_splits)
    show ?thesis
    proof (rule inc_ref_or_undo_ok [OF i])
      show "refs_ok (upd_node n (\<lambda>nd. nd\<lparr>n_refs := mput p () (n_refs nd)\<rparr>)
        (upd_proc p (\<lambda>pr. pr\<lparr>p_refs := mput d \<lparr>r_node = n, r_strong = 0, r_weak = 0, r_death = None\<rparr> (p_refs pr),
           p_by_node := mput n d (p_by_node pr)\<rparr>) s))"
        by (rule add_ref_ok [OF ok Some nd new_descriptor [OF d fields(6)] None]) simp_all
    qed (use nd target Some in \<open>auto simp: ref_of_def upd_node_def upd_proc_def\<close>)
  next
    case (Some d)
    with inc \<open>mget (s_procs s) p = Some pr\<close> have i: "inc_ref_or_undo p d False strong target s = Some (res, s')"
      by (simp add: inc_ref_for_node_def)
    have "desc (graph_of s) p n = Some d" using Some \<open>mget (s_procs s) p = Some pr\<close> by simp
    then have "\<exists>st. hold (graph_of s) p d = Some (n, st)" using graph_okD(1) [OF refs_ok_graph [OF ok]] by blast
    then have "r_node r = n" if "ref_of s p d = Some r" for r using that by simp
    with nd target show ?thesis by (intro inc_ref_or_undo_ok [OF i ok]) auto
  qed
qed

end
