(* ===== verification/Machine.thy ===== *)
theory Machine
  imports Buffers "HOL-Library.Multiset"
begin

text \<open>
  The driver as a state machine. A step is one stretch of code that holds the driver lock: an entry
  point called by the host, an ioctl up to its end or to where its read gives up the lock, or a
  blocked read going on (condition variables may wake spuriously, so any blocked read may). Between
  steps time passes and the guests do what they like. \<open>G p\<close> is the guest process behind the handle
  \<open>p\<close>. The host maps a receive memory at least as long as the mapping it announces.
\<close>

record 'g machine =
  m_state :: bstate
  m_guest :: 'g
  m_blocked :: "read_wait list"

definition machine_init :: "'g \<Rightarrow> 'g machine" where
  "machine_init g = \<lparr>m_state = state_default, m_guest = g, m_blocked = []\<rparr>"

text \<open>The order in which a \<open>HashMap\<close> yields its entries.\<close>

definition reorders :: "('a list \<Rightarrow> 'a list) \<Rightarrow> bool" where
  "reorders ord \<longleftrightarrow> (\<forall>xs. mset (ord xs) = mset xs)"

definition settle :: "read_wait list \<Rightarrow> progress \<Rightarrow> read_wait list" where
  "settle ws pg = (case pg of Blocked w _ \<Rightarrow> ws @ [w] | _ \<Rightarrow> ws)"

inductive driver_step :: "(proc_id \<Rightarrow> 'g guest) \<Rightarrow> 'g machine \<Rightarrow> 'g machine \<Rightarrow> bool" for G where
  tick: "s_clock (m_state M) \<le> now \<Longrightarrow>
    driver_step G M (M\<lparr>m_state := (m_state M)\<lparr>s_clock := now\<rparr>, m_guest := g\<rparr>)"
| step_open: "driver_open d creds (m_state M) = Some (p, eff, s) \<Longrightarrow> driver_step G M (M\<lparr>m_state := s\<rparr>)"
| step_nonblocking: "set_nonblocking p b (m_state M) = (eff, s) \<Longrightarrow> driver_step G M (M\<lparr>m_state := s\<rparr>)"
| step_notifier: "set_notifier p n (m_state M) = (eff, s) \<Longrightarrow> driver_step G M (M\<lparr>m_state := s\<rparr>)"
| step_mmap: "len \<le> length mem \<Longrightarrow> driver_mmap p vm len writable mem (m_state M) = (res, eff, s) \<Longrightarrow>
    driver_step G M (M\<lparr>m_state := s\<rparr>)"
| step_poll: "driver_poll p t (m_state M) = (res, eff, s) \<Longrightarrow> driver_step G M (M\<lparr>m_state := s\<rparr>)"
| step_flush: "reorders ord \<Longrightarrow>
    driver_flush ord p (m_state M) = Some (res, eff, s) \<Longrightarrow> driver_step G M (M\<lparr>m_state := s\<rparr>)"
| step_interrupt: "interrupt p t (m_state M) = (eff, s) \<Longrightarrow> driver_step G M (M\<lparr>m_state := s\<rparr>)"
| step_release: "reorders ord \<Longrightarrow> driver_release ord p (m_state M) = Some (eff, s) \<Longrightarrow>
    driver_step G M (M\<lparr>m_state := s\<rparr>)"
| step_reject: "reject_delivery p t ptr x (m_state M) = Some (res, eff, s) \<Longrightarrow>
    driver_step G M (M\<lparr>m_state := s\<rparr>)"
| step_start_trace: "start_trace (m_state M) = (eff, s) \<Longrightarrow> driver_step G M (M\<lparr>m_state := s\<rparr>)"
| step_capture_trace: "capture_trace descr code (m_state M) = (eff, s) \<Longrightarrow> driver_step G M (M\<lparr>m_state := s\<rparr>)"
| step_take_trace: "take_trace (m_state M) = (records, eff, s) \<Longrightarrow> driver_step G M (M\<lparr>m_state := s\<rparr>)"
| step_pending_trace: "reorders pord \<Longrightarrow> pending_trace pord (m_state M) = Some (snap, eff, s) \<Longrightarrow>
    driver_step G M (M\<lparr>m_state := s\<rparr>)"
| step_shadow: "driver_shadow p handle sink ch (m_state M) = (sres, eff, s) \<Longrightarrow>
    driver_step G M (M\<lparr>m_state := s\<rparr>)"
| step_ioctl: "ioctl_parking (G p) p t cmd arg park (m_state M) (m_guest M) = Some (pg, s, g) \<Longrightarrow>
    driver_step G M \<lparr>m_state = s, m_guest = g, m_blocked = settle (m_blocked M) pg\<rparr>"
| step_resume: "w \<in> set (m_blocked M) \<Longrightarrow>
    resume_read (G (rw_proc w)) w (m_state M) (m_guest M) = Some (pg, s, g) \<Longrightarrow>
    driver_step G M \<lparr>m_state = s, m_guest = g, m_blocked = settle (remove1 w (m_blocked M)) pg\<rparr>"
| step_forward: "forward_inbound_transaction (G p) p t inbound tr (m_state M) (m_guest M) =
      Some (res, eff, s, g) \<Longrightarrow>
    driver_step G M (M\<lparr>m_state := s, m_guest := g\<rparr>)"

inductive reachable :: "(proc_id \<Rightarrow> 'g guest) \<Rightarrow> 'g machine \<Rightarrow> bool" for G where
  reach_init: "reachable G (machine_init g)"
| reach_step: "reachable G M \<Longrightarrow> driver_step G M M' \<Longrightarrow> reachable G M'"

inductive_cases driver_stepE: "driver_step G M M'"

text \<open>An invariant: it holds at first and the entry points keep it.\<close>

locale driver_inv = driver_ops +
  assumes initially: "I state_default"
begin

lemma pair_results:
  "set_nonblocking p b s = (eff, s') \<Longrightarrow> I s \<Longrightarrow> I s'" "set_notifier p n s = (eff, s') \<Longrightarrow> I s \<Longrightarrow> I s'"
  "interrupt p t s = (eff, s') \<Longrightarrow> I s \<Longrightarrow> I s'" "start_trace s = (eff, s') \<Longrightarrow> I s \<Longrightarrow> I s'"
  "capture_trace descr code s = (eff, s') \<Longrightarrow> I s \<Longrightarrow> I s'"
  using set_nonblocking [of s p b] set_notifier [of s p n] interrupt [of s p t] start_trace [of s]
    capture_trace [of s descr code]
  by simp_all

lemma triple_results:
  "driver_poll p t s = (bres, eff, s') \<Longrightarrow> I s \<Longrightarrow> I s'" "take_trace s = (records, eff, s') \<Longrightarrow> I s \<Longrightarrow> I s'"
  "driver_shadow p handle sink ch s = (nres, eff, s') \<Longrightarrow> I s \<Longrightarrow> I s'"
  "driver_mmap p vm len writable mem s = (ures, eff, s') \<Longrightarrow> len \<le> length mem \<Longrightarrow> I s \<Longrightarrow> I s'"
  using driver_poll [of s p t] take_trace [of s] driver_shadow [of s p handle sink ch]
    driver_mmap [of len mem s p vm writable]
  by simp_all

lemma step_keeps: "driver_step G M M' \<Longrightarrow> I (m_state M) \<Longrightarrow> I (m_state M')"
  by (erule driver_stepE)
    (simp_all add: clock pair_results triple_results, (blast intro: pair_results triple_results driver_open
      driver_flush driver_release reject_delivery pending_trace ioctl_parking resume_read
      forward_inbound_transaction)+)

lemma reachable_keeps: "reachable G M \<Longrightarrow> I (m_state M)"
  by (induction rule: reachable.induct) (auto simp: machine_init_def initially intro: step_keeps)

end

interpretation buffers_kept: driver_inv buffers_safe
  by unfold_locales (simp add: buffers_safe_def state_default_def)

end
