(* ===== verification/RefSteps.thy ===== *)
theory RefSteps
  imports Refs Machine
begin

text \<open>
  Nodes and processes in the reference graph: creating a node, offering it to another process,
  reporting it to its owner, and the end of a process. Together with the operations on handles
  (theory Refs) this is what every entry point of the driver needs to keep \<open>refs_ok\<close>.
\<close>

section \<open>Nodes come and go\<close>

lemma new_node_looks:
  assumes ok: "refs_ok s" and new: "new_node p ptr cookie flags s = Some (n, s')"
  shows "refs_ok s' \<and> (\<exists>nd. mget (s_nodes s') n = Some nd \<and> n_proc nd = Some p)"
proof -
  from new obtain pr where pr: "mget (s_procs s) p = Some pr" by (auto simp: new_node_def elim!: bind_Some_elim)
  let ?g = "graph_of s" and ?Q = "\<lambda>q. queue_nodes q s"
  show ?thesis
  proof (cases "mget (p_nodes pr) ptr")
    case (Some m)
    then have "own ?g p ptr = Some m" by (simp add: pr)
    from graph_okD(5) [OF refs_ok_graph [OF ok] this] new Some pr ok show ?thesis
      by (auto simp: new_node_def link_of_def)
  next
    case None
    let ?nd = "node_new p (p_context pr) ptr cookie flags"
    let ?s1 = "s\<lparr>s_next_id := n, s_nodes := mput n ?nd (s_nodes s)\<rparr>"
    from new pr None have n: "n = s_next_id s + 1"
      and s': "s' = upd_proc p (\<lambda>pr. pr\<lparr>p_nodes := mput ptr n (p_nodes pr)\<rparr>) ?s1"
      by (auto simp: new_node_def next_id_def elim!: bind_Some_elim)
    let ?l = "\<lparr>l_owner = Some p, l_ptr = ptr, l_holders = {}, l_strong = 0\<rparr>"
    let ?own = "\<lambda>q a. if q = p \<and> a = ptr then Some n else own ?g q a"
    have s1: "looks (?g\<lparr>link := (link ?g)(n \<mapsto> ?l), used := n\<rparr>) ?Q ?s1"
      by (rule looksI) (use ok in \<open>auto simp: refs_ok_def tables_sorted_def fun_eq_iff ref_of_def queue_nodes_def
          link_of_def node_new_def\<close>)
    have pr1: "mget (s_procs ?s1) p = Some pr" by (simp add: pr)
    note fields = looks_proc_fields [OF s1 pr1]
    have "looks (?g\<lparr>link := (link ?g)(n \<mapsto> ?l), used := n, hold := hold ?g, desc := desc ?g, own := ?own\<rparr>) ?Q s'"
      unfolding s' by (rule looks_proc [OF s1 pr1])
        (use fields(4) in \<open>auto simp: fun_eq_iff pr ref_of_def proc_nodes_def\<close>)
    then have l: "looks (?g\<lparr>own := ?own, link := (link ?g)(n \<mapsto> ?l), used := n\<rparr>) ?Q s'" by (auto simp: looks_def)
    have "graph_ok (?g\<lparr>own := ?own, link := (link ?g)(n \<mapsto> ?l), used := n\<rparr>)"
      by (rule graph_new [OF refs_ok_graph [OF ok] _ _ refl]) (simp_all add: pr n)
    then have "refs_ok s'" by (intro looks_refs_ok [OF l]) (subst asked_idem, simp_all add: fun_eq_iff)
    then show ?thesis by (auto simp: s' upd_proc_def node_new_def)
  qed
qed

lemma offer_ok:
  assumes "new_node q ptr cookie flags s = Some (n, s1)"
    "inc_ref_for_node p n strong (Some (q, t)) s1 = Some (rd, s')" "refs_ok s"
  shows "refs_ok s'"
  using new_node_looks [OF assms(3,1)] by (auto intro: inc_ref_for_node_ok [OF assms(2)])

lemma node_work_shape:
  assumes "node_work p n out s = Some (out', s')" "mget (s_nodes s) n = Some nd"
  shows "\<exists>nd'. s' = (if \<not> node_weak nd \<and> \<not> node_strong nd
      then remove_node n (upd_proc p (\<lambda>pr. pr\<lparr>p_nodes := mdel (n_ptr nd) (p_nodes pr)\<rparr>) (upd_node n (\<lambda>_. nd') s))
      else upd_node n (\<lambda>_. nd') s) \<and> same_links nd nd'"
  using assms
  by (auto simp: node_work_def Let_def elim!: bind_Some_elim split: if_splits)
    (rule exI, rule conjI, rule refl, simp add: same_links_def)+

text \<open>A node that a process was asked to report goes only if it has no holder.\<close>

lemma node_work_ok:
  assumes ok: "refs_ok s" and asked: "\<And>nd. mget (s_nodes s) n = Some nd \<Longrightarrow> n_proc nd = Some p \<or> n_proc nd = None"
    and work: "node_work p n out s = Some (out', s')"
  shows "refs_ok s'"
proof (cases "mget (s_nodes s) n")
  case None
  with work ok show ?thesis by (simp add: node_work_def)
next
  case (Some nd)
  let ?g = "graph_of s" and ?Q = "\<lambda>q. queue_nodes q s"
  from node_work_shape [OF work Some] obtain nd' where same: "same_links nd nd'" and s': "s' = (if \<not> node_weak nd \<and> \<not> node_strong nd
      then remove_node n (upd_proc p (\<lambda>pr. pr\<lparr>p_nodes := mdel (n_ptr nd) (p_nodes pr)\<rparr>) (upd_node n (\<lambda>_. nd') s))
      else upd_node n (\<lambda>_. nd') s)"
    by auto
  have link: "link_of nd' = link_of nd" using same by (simp add: same_links_def link_of_def)
  have s1: "looks ?g ?Q (upd_node n (\<lambda>_. nd') s)"
    using looks_set_node [OF refs_ok_looks [OF ok] Some, of "\<lambda>_. nd'"] Some link by (simp add: fun_upd_idem)
  show ?thesis
  proof (cases "\<not> node_weak nd \<and> \<not> node_strong nd")
    case True
    then have none: "n_refs nd = []" by (simp add: node_weak_def)
    let ?own = "\<lambda>q a. if q = p \<and> a = n_ptr nd then None else own ?g q a"
    have l: "looks (?g\<lparr>own := ?own, link := (link ?g)(n := None)\<rparr>) ?Q s'"
      using looks_del_node [OF looks_disown [OF s1, of p "n_ptr nd"], of n] True s' by simp
    have "graph_ok (?g\<lparr>own := ?own, link := (link ?g)(n := None)\<rparr>)"
    proof (rule graph_remove [OF refs_ok_graph [OF ok], of n "link_of nd", OF _ _ _ refl])
      show "link ?g n = Some (link_of nd)" "l_holders (link_of nd) = {}" using Some none by (simp_all add: link_of_def)
      fix q a m assume own: "?own q a = Some m"
      then have o: "own ?g q a = Some m" by (simp split: if_splits)
      from graph_okD(5) [OF refs_ok_graph [OF ok] o] own Some asked [OF Some] show "own ?g q a = Some m \<and> m \<noteq> n"
        using o by (auto simp: link_of_def split: if_splits)
    qed
    then show ?thesis by (intro looks_refs_ok [OF l]) (subst asked_idem, simp_all add: fun_eq_iff)
  next
    case False
    with s1 s' show ?thesis by (auto intro: refs_ok_frame [OF ok])
  qed
qed

section \<open>A process goes\<close>

interpretation looks_reply: reply_ops "looks g B" for g B
proof
  show "looks g B (upd_thread p t ht s)"
    if "looks g B s" "\<And>th. node_works (t_todo (ht th)) \<subseteq> node_works (t_todo th)" for s p t ht
    unfolding upd_thread_def by (rule looks_upd_proc [OF that(1)]) (rule same_tables_thread [OF that(2)])
  show "looks g B (upd_proc p (\<lambda>pr. pr\<lparr>p_outstanding := ko (p_outstanding pr)\<rparr>) s)" if "looks g B s" for s p ko
    by (rule looks_upd_proc [OF that]) (simp add: same_tables_def proc_nodes_def)
  show "looks g B (upd_buffer p off m s)" if "looks g B s" for s p off m
    unfolding upd_buffer_def by (rule looks_upd_proc [OF that]) (simp add: same_tables_def proc_nodes_def)
qed (auto intro: looks_cong simp: upd_txn_def)

lemma node_release_looks:
  assumes l: "looks g B s" and rel: "node_release n s = Some s'" and lk: "link g n = Some k"
  shows "l_holders k = {} \<and> looks (g\<lparr>link := (link g)(n := None)\<rparr>) B s' \<or>
    looks (g\<lparr>link := (link g)(n \<mapsto> k\<lparr>l_owner := None\<rparr>)\<rparr>) B s'"
proof -
  obtain nd where nd: "mget (s_nodes s) n = Some nd" by (rule link_of_state [OF l lk])
  define s1 where "s1 = release_work (map WTransaction (n_async_todo nd))
    (upd_node n (\<lambda>nd. nd\<lparr>n_async_todo := [], n_work_queued := None\<rparr>) s)"
  have s1: "looks g B s1"
    unfolding s1_def by (intro looks_reply.release_work looks_upd_node [OF l]) (simp add: same_links_def)
  obtain nd1 where nd1: "mget (s_nodes s1) n = Some nd1" "link_of nd1 = k" by (rule link_of_state [OF s1 lk])
  let ?f = "\<lambda>nd. nd\<lparr>n_proc := None, n_local_strong := 0, n_local_weak := 0\<rparr>"
  have "looks (g\<lparr>link := (link g)(n \<mapsto> link_of (?f nd1))\<rparr>) B (upd_node n ?f s1)"
    by (rule looks_set_node [OF s1 nd1(1)])
  also have "link_of (?f nd1) = k\<lparr>l_owner := None\<rparr>" using nd1(2) by (auto simp: link_of_def)
  finally have s2: "looks (g\<lparr>link := (link g)(n \<mapsto> k\<lparr>l_owner := None\<rparr>)\<rparr>) B (upd_node n ?f s1)" .
  show ?thesis
  proof (cases "n_refs nd1 = []")
    case True
    then have "s' = remove_node n s1" using rel nd nd1(1) by (simp add: node_release_def s1_def)
    with looks_del_node [OF s1, of n] True nd1(2) show ?thesis by (auto simp: link_of_def)
  next
    case False
    then have "notify_holders n (mkeys (n_refs nd1)) (upd_node n ?f s1) = Some s'"
      using rel nd nd1(1) by (simp add: node_release_def s1_def)
    from looks_reply.notify_holders [OF this s2] show ?thesis ..
  qed
qed

text \<open>The nodes \<open>ns\<close> were those of \<open>p\<close>, which owns nothing any more.\<close>

definition disowned :: "proc_id \<Rightarrow> node_id list \<Rightarrow> bstate \<Rightarrow> bool" where
  "disowned p ns s \<longleftrightarrow> refs_ok s \<and> (\<forall>a. own (graph_of s) p a = None) \<and>
     (\<forall>n k. n \<in> set ns \<longrightarrow> link (graph_of s) n = Some k \<longrightarrow> l_owner k = Some p \<or> l_owner k = None)"

lemma node_release_disowned:
  assumes rel: "node_release n s = Some s'" and dis: "disowned p (n # ns) s"
  shows "disowned p ns s'"
proof (cases "link (graph_of s) n")
  case None
  with rel dis show ?thesis by (simp add: node_release_def disowned_def)
next
  case (Some k)
  let ?g = "graph_of s" and ?Q = "\<lambda>q. queue_nodes q s"
  have ok: "graph_ok ?g" and l: "looks ?g ?Q s" and none: "\<And>a. own ?g p a = None"
    and owner: "l_owner k = Some p \<or> l_owner k = None"
    using dis Some by (auto simp: disowned_def intro: refs_ok_graph refs_ok_looks)
  have unowned: "own ?g q a \<noteq> Some n" for q a
  proof
    assume o: "own ?g q a = Some n"
    from graph_okD(5) [OF ok o] Some owner none o show False by auto
  qed
  have keep: "disowned p ns s'" if s': "looks (?g\<lparr>link := (link ?g)(n := x)\<rparr>) ?Q s'"
    and ok': "graph_ok (?g\<lparr>link := (link ?g)(n := x)\<rparr>)" and x: "x = None \<or> x = Some (k\<lparr>l_owner := None\<rparr>)" for x
  proof -
    have "refs_ok s'" by (rule looks_refs_ok [OF s']) (subst asked_idem, simp_all add: fun_eq_iff ok')
    moreover have "own (graph_of s') p a = None" for a using looks_fields(3) [OF s'] none [of a] by simp
    moreover have "link (graph_of s') = (link ?g)(n := x)" using looks_fields(4) [OF s'] by simp
    ultimately show ?thesis using dis x by (auto simp: disowned_def simp del: graph_of_fields split: if_splits)
  qed
  from node_release_looks [OF l rel Some] show ?thesis
  proof
    assume a: "l_holders k = {} \<and> looks (?g\<lparr>link := (link ?g)(n := None)\<rparr>) ?Q s'"
    have "graph_ok (?g\<lparr>own := own ?g, link := (link ?g)(n := None)\<rparr>)"
      by (rule graph_remove [OF ok Some _ _ refl]) (use a unowned in auto)
    with a show ?thesis by (intro keep) auto
  next
    assume "looks (?g\<lparr>link := (link ?g)(n \<mapsto> k\<lparr>l_owner := None\<rparr>)\<rparr>) ?Q s'"
    with graph_orphan [OF ok Some unowned refl] show ?thesis by (intro keep) auto
  qed
qed

lemma release_nodes_disowned: "release_nodes ns s = Some s' \<Longrightarrow> disowned p ns s \<Longrightarrow> refs_ok s'"
  by (induction ns arbitrary: s)
    (auto elim!: bind_Some_elim dest: node_release_disowned simp: disowned_def [of p "[]"])

lemma disown_all_ok:
  assumes pr: "mget (s_procs s) p = Some pr"
    and rel: "release_nodes (map snd (p_nodes pr)) (upd_proc p (\<lambda>pr. pr\<lparr>p_nodes := []\<rparr>) s) = Some s'"
    and ok: "refs_ok s"
  shows "refs_ok s'"
proof (rule release_nodes_disowned [OF rel])
  let ?g = "graph_of s" and ?Q = "\<lambda>q. queue_nodes q s" and ?s = "upd_proc p (\<lambda>pr. pr\<lparr>p_nodes := []\<rparr>) s"
  let ?own = "\<lambda>q a. if q = p then None else own ?g q a"
  note fields = looks_proc_fields [OF refs_ok_looks [OF ok] pr]
  have "looks (?g\<lparr>hold := hold ?g, desc := desc ?g, own := ?own\<rparr>) ?Q ?s"
    by (rule looks_proc [OF refs_ok_looks [OF ok] pr])
      (use fields(4) in \<open>auto simp: fun_eq_iff pr ref_of_def proc_nodes_def\<close>)
  then have l: "looks (?g\<lparr>own := ?own\<rparr>) ?Q ?s" by simp
  have "graph_ok (?g\<lparr>own := ?own\<rparr>)"
    by (rule graph_disown [OF refs_ok_graph [OF ok]]) (simp split: if_splits)
  then have "refs_ok ?s" by (intro looks_refs_ok [OF l]) (subst asked_idem, simp_all add: fun_eq_iff)
  moreover have "own (graph_of ?s) p a = None" for a by (simp add: mget_upd_proc pr)
  moreover have "l_owner k = Some p"
    if "n \<in> set (map snd (p_nodes pr))" "link (graph_of ?s) n = Some k" for n k
  proof -
    from that(1) obtain a where "(a, n) \<in> set (p_nodes pr)" by auto
    then have "own ?g p a = Some n" using msorted_distinct [OF fields(7)] by (simp add: pr) (simp add: mget_def)
    from graph_okD(5) [OF refs_ok_graph [OF ok] this] that(2) show ?thesis
      by (auto simp: looks_fields(4) [OF l, symmetric] simp del: graph_of_fields)
  qed
  ultimately show "disowned p (map snd (p_nodes pr)) ?s" by (auto simp: disowned_def simp del: graph_of_fields)
qed

lemma proc_del_ok:
  assumes pr: "mget (s_procs s) p = Some pr" and gone: "p_refs pr = []" "p_nodes pr = []" and ok: "refs_ok s"
  shows "refs_ok (s\<lparr>s_procs := mdel p (s_procs s)\<rparr>)" (is "refs_ok ?s")
proof -
  let ?g = "graph_of s" and ?Q = "\<lambda>q. if q = p then {} else queue_nodes q s"
  have "p_by_node pr = []"
  proof (rule mget_all_None)
    fix n
    have "desc ?g p n \<noteq> Some d" for d
      unfolding graph_okD(1) [OF refs_ok_graph [OF ok]] using gone by (simp add: pr ref_of_def)
    then show "mget (p_by_node pr) n = None" by (cases "mget (p_by_node pr) n") (auto simp: pr)
  qed
  then have "looks (?g\<lparr>alive := alive ?g - {p}\<rparr>) ?Q ?s"
    by (intro looksI) (use ok gone in \<open>auto simp: refs_ok_def tables_sorted_def fun_eq_iff ref_of_def queue_nodes_def pr\<close>)
  then show ?thesis
  proof (rule looks_refs_ok)
    have "graph_ok (?g\<lparr>alive := alive ?g - {p}, used := used ?g, asked := ?Q\<rparr>)"
      by (rule graph_alive [OF refs_ok_graph [OF ok]])
        (use graph_okD(9) [OF refs_ok_graph [OF ok]] gone in \<open>auto simp: pr ref_of_def\<close>)
    also have "?g\<lparr>alive := alive ?g - {p}, used := used ?g, asked := ?Q\<rparr> = ?g\<lparr>alive := alive ?g - {p}, asked := ?Q\<rparr>"
      by (rule ref_graph.equality) simp_all
    finally show "graph_ok (?g\<lparr>alive := alive ?g - {p}, asked := ?Q\<rparr>)" .
  qed
qed

lemma proc_add_ok:
  assumes new: "new_proc c creds s = Some (p, s')" and ok: "refs_ok s"
  shows "refs_ok s'"
proof -
  let ?g = "graph_of s" and ?Q = "\<lambda>q. queue_nodes q s"
  from new have p: "p = s_next_id s + 1"
    and s': "s' = s\<lparr>s_next_id := p, s_procs := mput p (proc_new c creds) (s_procs s)\<rparr>"
    by (auto simp: new_proc_def next_id_def elim!: bind_Some_elim)
  have none: "mget (s_procs s) p = None" using graph_okD(9) [OF refs_ok_graph [OF ok], of p] p by (cases "mget (s_procs s) p") auto
  have "looks (?g\<lparr>alive := insert p (alive ?g), used := p\<rparr>) ?Q s'"
    unfolding s' by (intro looksI) (use ok none in \<open>auto simp: refs_ok_def tables_sorted_def fun_eq_iff ref_of_def
        queue_nodes_def proc_new_def proc_nodes_def\<close>)
  then show ?thesis
  proof (rule looks_refs_ok)
    show "graph_ok (?g\<lparr>alive := insert p (alive ?g), used := p, asked := ?Q\<rparr>)"
      by (rule graph_alive [OF refs_ok_graph [OF ok]])
        (use graph_okD(9) [OF refs_ok_graph [OF ok]] p in \<open>auto simp: le_Suc_eq\<close>)
  qed
qed

lemma next_id_ok:
  assumes drawn: "next_id s = Some (i, s')" and ok: "refs_ok s"
  shows "refs_ok s'"
proof -
  let ?g = "graph_of s" and ?Q = "\<lambda>q. queue_nodes q s"
  from drawn have i: "s_next_id s \<le> i" and s': "s' = s\<lparr>s_next_id := i\<rparr>" by (auto simp: next_id_def elim!: bind_Some_elim)
  have "looks (?g\<lparr>used := i\<rparr>) ?Q s'"
    unfolding s' by (intro looksI) (use ok in \<open>auto simp: refs_ok_def tables_sorted_def fun_eq_iff ref_of_def queue_nodes_def\<close>)
  then show ?thesis
  proof (rule looks_refs_ok)
    have "graph_ok (?g\<lparr>asked := ?Q, used := i\<rparr>)" by (rule graph_asked [OF refs_ok_graph [OF ok]]) (use i in auto)
    also have "?g\<lparr>asked := ?Q, used := i\<rparr> = ?g\<lparr>used := i, asked := ?Q\<rparr>"
      by (rule ref_graph.equality) (simp_all add: fun_eq_iff)
    finally show "graph_ok (?g\<lparr>used := i, asked := ?Q\<rparr>)" .
  qed
qed

lemma refs_ok_cong:
  "refs_ok s \<Longrightarrow> s_procs s' = s_procs s \<Longrightarrow> s_nodes s' = s_nodes s \<Longrightarrow> s_next_id s' = s_next_id s \<Longrightarrow> refs_ok s'"
  by (rule refs_ok_frame, assumption, rule looks_cong [OF refs_ok_looks])

lemma refs_ok_upd_proc: "refs_ok s \<Longrightarrow> (\<And>pr. same_tables pr (f pr)) \<Longrightarrow> refs_ok (upd_proc p f s)"
  by (rule refs_ok_frame, assumption, rule looks_upd_proc [OF refs_ok_looks])

lemma refs_ok_init: "refs_ok state_default"
  by (auto simp: refs_ok_def tables_sorted_def state_default_def ref_of_def queue_nodes_def intro!: graph_okI)

lemma inc_node_local_ok:
  assumes inc: "inc_node n strong False None s = Some (res, s')" and ok: "refs_ok s"
  shows "refs_ok s'"
proof (cases res)
  case (Inl e)
  with inc ok show ?thesis by (auto dest: inc_node_failed)
next
  case (Inr u)
  from inc_node_looks [OF refs_ok_looks [OF ok] inc [unfolded Inr]] obtain nd
    where nd: "mget (s_nodes s) n = Some nd" and l: "looks ((graph_of s)\<lparr>link := (link (graph_of s))
      (n \<mapsto> (link_of nd)\<lparr>l_strong := n_internal_strong nd + (if strong \<and> False then 1 else 0)\<rparr>)\<rparr>)
      (ask None n (\<lambda>q. queue_nodes q s)) s'" .
  have "link (graph_of s) n = Some ((link_of nd)\<lparr>l_strong := n_internal_strong nd\<rparr>)"
    using nd by (simp add: link_of_def)
  with l show ?thesis by (intro refs_ok_frame [OF ok]) (simp add: fun_upd_idem ask_def [abs_def])
qed

lemma node_work_popped_ok:
  assumes asked: "n \<in> queue_nodes p s" and ok: "refs_ok s"
    and work: "node_work p n out (pop_work p t from_thread s) = Some (out', s')"
  shows "refs_ok s'"
proof -
  have "looks (graph_of s) (\<lambda>q. queue_nodes q s) (pop_work p t from_thread s)"
    unfolding pop_work_def Let_def
    by (auto simp: still_proc_def intro!: looks_reply.thread looks.proc_queue refs_ok_looks [OF ok]
        dest: node_works_tl [THEN subsetD] split: if_splits)
  note l = this
  from refs_ok_frame [OF ok l] show ?thesis
  proof (rule node_work_ok [OF _ _ work])
    fix nd assume "mget (s_nodes (pop_work p t from_thread s)) n = Some nd"
    then have "link (graph_of s) n = Some (link_of nd)" unfolding looks_fields(4) [OF l] by simp
    with graph_okD(6) [OF refs_ok_graph [OF ok]] asked show "n_proc nd = Some p \<or> n_proc nd = None"
      by (fastforce simp: link_of_def)
  qed
qed

interpretation refs_ok: driver_inv refs_ok
proof
  show "refs_ok (upd_thread p t ht s)"
    if "refs_ok s" "\<And>th. node_works (t_todo (ht th)) \<subseteq> node_works (t_todo th)" for s ht p t
    by (rule refs_ok_frame [OF that(1) looks_reply.thread [OF refs_ok_looks [OF that(1)] that(2)]])
  show "refs_ok (upd_buffer p off m s)" if "refs_ok s" for s m p off
    unfolding upd_buffer_def by (rule refs_ok_upd_proc [OF that]) (simp add: same_tables_def proc_nodes_def)
  show "refs_ok (upd_proc p hf s)" if "refs_ok s" "\<And>pr. still_flags (hf pr) = still_flags pr" for s hf p
    using still_flags_fields [OF that(2)]
    by (intro refs_ok_upd_proc [OF that(1)]) (simp add: same_tables_def proc_nodes_def)
  show "refs_ok (upd_ref p desc (\<lambda>r. r\<lparr>r_death := dd\<rparr>) s)" if "refs_ok s" for s p desc dd
    by (rule upd_ref_same_ok [OF that]) simp_all
  show "refs_ok (upd_proc p (\<lambda>pr. pr\<lparr>p_threads := mdel t (p_threads pr), p_waiting := kw (p_waiting pr)\<rparr>) s)"
    if "refs_ok s" for s p t kw
    by (rule refs_ok_upd_proc [OF that]) (auto simp: same_tables_def proc_nodes_def split: if_splits)
  show "refs_ok (upd_proc p (\<lambda>pr. pr\<lparr>p_threads := mput t (thread_new cv) (p_threads pr)\<rparr>) s)"
    if "refs_ok s" for s p t cv
    by (rule refs_ok_upd_proc [OF that]) (auto simp: same_tables_def proc_nodes_def thread_new_def split: if_splits)
  show "refs_ok s'" if "inc_ref_for_node p n strong None s = Some (rd, s')" "mget (s_nodes s) n \<noteq> None" "refs_ok s"
    for p n strong s rd s' using that by (auto intro: inc_ref_for_node_ok)
  show "refs_ok s'" if "inc_ref p desc strong None s = Some (ru, s')" "refs_ok s" for p desc strong s ru s'
    by (rule inc_ref_ok [OF that]) simp
  show "refs_ok (s'\<lparr>s_txns := mput x tx (s_txns s')\<rparr>)" if "next_id s = Some (x, s')" "refs_ok s" for s x s' tx
    by (rule refs_ok_cong [OF next_id_ok [OF that]]) simp_all
  show "refs_ok s'" if "new_node p ptr cookie flags s = Some (n, s')" "refs_ok s" for p ptr cookie flags s n s'
    using new_node_looks [OF that(2,1)] by simp
qed (erule (3) proc_del_ok | (erule refs_ok_cong; simp add: upd_txn_def) | (erule refs_ok_upd_proc; simp add: same_tables_def proc_nodes_def) |
    rule refs_ok_init | (erule dec_node_local_ok; simp) | erule cleanup_ref_ok | erule (1) inc_node_local_ok |
    erule (1) dec_ref_ok | erule (1) next_id_ok | erule (2) offer_ok | erule (2) node_work_popped_ok |
    erule (2) disown_all_ok | erule (1) proc_add_ok)+

end
