(* ===== verification/Scenario.thy ===== *)
theory Scenario
  imports RefSteps
begin

text \<open>
  A run of the driver with two processes, on concrete inputs: process 1 opens the device, becomes the
  context manager (its node is number 2) and maps 64 bytes; process 3 opens the device, maps 64 bytes
  and acquires handle 0; then it calls the manager. The states along it are written out, and each is
  reached by the steps of the machine. The examples of the other theories start from here.
\<close>

section \<open>Steps with known results\<close>

definition after_open :: "device \<Rightarrow> credentials \<Rightarrow> 'g machine \<Rightarrow> 'g machine" where
  "after_open d creds M =
     (case driver_open d creds (m_state M) of Some (_, _, s) \<Rightarrow> M\<lparr>m_state := s\<rparr> | None \<Rightarrow> M)"

definition after_mmap :: "proc_id \<Rightarrow> u64 \<Rightarrow> byte list \<Rightarrow> 'g machine \<Rightarrow> 'g machine" where
  "after_mmap p vm mem M = M\<lparr>m_state := snd (snd (driver_mmap p vm (length mem) False mem (m_state M)))\<rparr>"

definition after_ioctl ::
  "(proc_id \<Rightarrow> 'g guest) \<Rightarrow> proc_id \<Rightarrow> tid \<Rightarrow> u32 \<Rightarrow> byte list \<Rightarrow> 'g machine \<Rightarrow> 'g machine" where
  "after_ioctl G p t cmd arg M =
     (case ioctl_parking (G p) p t cmd arg None (m_state M) (m_guest M) of
        Some (pg, s, g) \<Rightarrow> \<lparr>m_state = s, m_guest = g, m_blocked = settle (m_blocked M) pg\<rparr>
      | None \<Rightarrow> M)"

lemma reachable_after:
  assumes "reachable G M"
  shows "reachable G (after_open d creds M)" "reachable G (after_mmap p vm mem M)"
    "reachable G (after_ioctl G p t cmd arg M)"
proof -
  show "reachable G (after_mmap p vm mem M)"
    unfolding after_mmap_def
    by (cases "driver_mmap p vm (length mem) False mem (m_state M)")
      (auto intro: reach_step [OF assms] step_mmap [OF order.refl])
qed (use assms in \<open>auto simp: after_open_def after_ioctl_def split: option.split
  intro: reach_step step_open step_ioctl\<close>)

section \<open>The run\<close>

text \<open>A guest whose memory reads come from a script, and which has no files.\<close>

definition script :: "proc_id \<Rightarrow> byte list guest" where
  "script p = \<lparr>g_copy_from_user = (\<lambda>_ n g. (Inr (take n g), drop n g)), g_copy_to_user = (\<lambda>_ _ g. (Inr (), g)),
     g_get_file = (\<lambda>_ g. (Inl EBADF, g)), g_install_file = (\<lambda>_ g. (Inl EBADF, g)),
     g_can_install = (\<lambda>_ g. (True, g)), g_delivered = (\<lambda>_ _ g. g), g_close_fd = (\<lambda>_ g. g)\<rparr>"

definition root_creds :: credentials where
  "root_creds = \<lparr>cr_pid = 1, cr_euid = 0, cr_security_context = None\<rparr>"

definition user_creds :: credentials where
  "user_creds = \<lparr>cr_pid = 3, cr_euid = 10, cr_security_context = None\<rparr>"

text \<open>\<open>BC_ACQUIRE\<close> of handle 0, and the argument of a \<open>BINDER_WRITE_READ\<close> that only writes \<open>n\<close> bytes.\<close>

definition acquire_mgr :: "byte list" where
  "acquire_mgr = [5, 99, 4, 64, 0, 0, 0, 0]"

definition write_arg :: "byte \<Rightarrow> byte list" where
  "write_arg n = [n, 0, 0, 0, 0, 0, 0, 0, 0, 0, 0, 0, 0, 0, 0, 0, 0, 0, 0, 0, 0, 0, 0, 0,
    0, 0, 0, 0, 0, 0, 0, 0, 0, 0, 0, 0, 0, 0, 0, 0, 0, 0, 0, 0, 0, 0, 0, 0]"

definition mgr_proc :: bproc where
  "mgr_proc = (proc_new 0 root_creds)\<lparr>p_threads := [(10, (thread_new 0)\<lparr>t_looper_need_return := False\<rparr>)],
     p_nodes := [(0, 2)], p_alloc := Some (new_allocator 4096 64), p_receive := Some (replicate 64 0)\<rparr>"

definition mgr_node :: node where
  "mgr_node = (node_new 1 0 0 0 0)\<lparr>n_local_strong := 1, n_local_weak := 1, n_has_strong := True, n_has_weak := True\<rparr>"

definition client_proc :: bproc where
  "client_proc = (proc_new 0 user_creds)\<lparr>p_alloc := Some (new_allocator 8192 64), p_receive := Some (replicate 64 0)\<rparr>"

definition run_state :: bstate where
  "run_state = state_default\<lparr>
     s_contexts := [\<lparr>c_name = device_path Binder, c_mgr_node = Some 2, c_mgr_uid = Some 0\<rparr>],
     s_procs := [(1, mgr_proc), (3, client_proc)], s_nodes := [(2, mgr_node)], s_next_id := 3,
     s_condvars := 1\<rparr>"

definition opened :: "byte list \<Rightarrow> byte list machine" where
  "opened g = \<lparr>m_state = run_state, m_guest = g, m_blocked = []\<rparr>"

definition held_state :: bstate where
  "held_state = run_state\<lparr>
     s_procs := [(1, mgr_proc), (3, client_proc\<lparr>
       p_threads := [(30, (thread_new 1)\<lparr>t_looper_need_return := False\<rparr>)],
       p_refs := [(0, \<lparr>r_node = 2, r_strong = 1, r_weak = 0, r_death = None\<rparr>)], p_by_node := [(2, 0)]\<rparr>)],
     s_nodes := [(2, mgr_node\<lparr>n_internal_strong := 1, n_refs := [(3, ())]\<rparr>)], s_condvars := 2\<rparr>"

definition held :: "byte list \<Rightarrow> byte list machine" where
  "held g = \<lparr>m_state = held_state, m_guest = g, m_blocked = []\<rparr>"

lemmas state_simps = run_state_def held_state_def mgr_proc_def mgr_node_def client_proc_def proc_new_def
  node_new_def thread_new_def root_creds_def user_creds_def extended_error_default_def state_default_def

lemmas table_simps = upd_proc_def upd_thread_def upd_node_def upd_ref_def mmod_def mget_def thread_of_def
  ref_of_def context_at_def upd_context_def

lemmas lock_simps = unlock_def take_wakes_def wakes_empty_def deliver_wakes_def end_ioctl_def settle_def

lemmas open_simps = after_open_def driver_open_def context_index_def machine_init_def new_proc_def next_id_def
  u64_inc_def after_mmap_def driver_mmap_def

lemmas ioctl_simps = after_ioctl_def ioctl_parking_def ioc_size_def thread_or_create_def uapi_consts dispatch_def
  set_context_manager_def new_node_def next_id_def u32_inc_def u64_inc_def flat_binder_object_default_def

lemmas write_simps = write_arg_def write_read_ioctl_def write_phase_def write_read_decode_def
  write_read_encode_def field_defs slice_def put_eqs splice_def u64_add_def usize_add_def read_user_def
  script_def thread_write.simps command_payload_size_def execute_command_def

lemmas ref_simps = refs_command_def inc_ref_for_node_def is_context_manager_def inc_ref_or_undo_def inc_ref_def
  inc_node_def

lemma run_opened:
  "after_mmap 3 8192 (replicate 64 0) (after_open Binder user_creds (after_mmap 1 4096 (replicate 64 0)
     (after_ioctl script 1 10 BINDER_SET_CONTEXT_MGR [0, 0, 0, 0]
       (after_open Binder root_creds (machine_init g))))) = opened g"
  by (simp add: opened_def state_simps table_simps lock_simps open_simps ioctl_simps)

lemma run_held:
  "after_ioctl script 3 30 BINDER_WRITE_READ (write_arg 8) (opened (acquire_mgr @ g)) = held g"
  by (simp add: opened_def held_def acquire_mgr_def state_simps table_simps
      lock_simps ioctl_simps write_simps ref_simps)

lemma reachable_opened: "reachable script (opened g)"
  unfolding run_opened [symmetric] by (intro reachable_after reach_init)

lemma reachable_held: "reachable script (held g)"
  unfolding run_held [symmetric] by (intro reachable_after reachable_opened)

text \<open>\<open>BC_TRANSACTION\<close> with code 7 to handle 0, and the eight bytes of its data.\<close>

definition call_mgr :: "byte list" where
  "call_mgr = [0, 99, 64, 64, 0, 0, 0, 0, 0, 0, 0, 0, 0, 0, 0, 0, 0, 0, 0, 0,
    7, 0, 0, 0, 0, 0, 0, 0, 0, 0, 0, 0, 0, 0, 0, 0,
    8, 0, 0, 0, 0, 0, 0, 0, 0, 0, 0, 0, 0, 0, 0, 0, 0, 0, 0, 0, 0, 0, 0, 0, 0, 0, 0, 0, 0, 0, 0, 0,
    1, 2, 3, 4, 5, 6, 7, 8]"

definition called_buffer :: buffer where
  "called_buffer = (new_buffer 8 8 0 False 3)\<lparr>b_txn := Some 5, b_target_node := Some 2\<rparr>"

definition called_txn :: txn where
  "called_txn = \<lparr>x_from = Some (3, 30), x_from_parent = None, x_to_proc = Some 1, x_to_thread = None,
     x_to_parent = None, x_code = 7, x_flags = 0, x_sender_euid = 10, x_sender = user_creds,
     x_delegated = False, x_target_node = Some 2, x_buffer = Some 0, x_security_ctx = 0, x_fixups = []\<rparr>"

definition called_state :: bstate where
  "called_state = held_state\<lparr>
     s_procs := [(1, mgr_proc\<lparr>p_todo := [WTransaction 5],
         p_alloc := Some ((new_allocator 4096 64)\<lparr>free_map := [(8, 56)], buffers := [(0, called_buffer)]\<rparr>),
         p_receive := Some ([1, 2, 3, 4, 5, 6, 7, 8] @ replicate 56 0), p_outstanding := 1\<rparr>),
       (3, client_proc\<lparr>
         p_threads := [(30, (thread_new 1)\<lparr>t_looper_need_return := False, t_todo := [WTransactionComplete],
           t_stack := Some 5, t_ee := \<lparr>ee_id = 4, ee_command = BR_OK, ee_param = 0\<rparr>\<rparr>)],
         p_refs := [(0, \<lparr>r_node = 2, r_strong = 1, r_weak = 0, r_death = None\<rparr>)], p_by_node := [(2, 0)]\<rparr>)],
     s_nodes := [(2, mgr_node\<lparr>n_internal_strong := 1, n_local_strong := 2, n_refs := [(3, ())]\<rparr>)],
     s_txns := [(5, called_txn)], s_next_id := 5\<rparr>"

definition called :: "byte list \<Rightarrow> byte list machine" where
  "called g = \<lparr>m_state = called_state, m_guest = g, m_blocked = []\<rparr>"

lemmas call_simps = transaction_data_decode_def transaction_def transaction_inner_def sender_of_def
  call_target_def call_node_def get_ref_def inc_node_def is_context_manager_def transaction_to_def
  begin_transaction_def secctx_of_def secctx_space_def allocate_target_def alloc_of_def buffer_of_def
  upd_buffer_def txn_new_def copy_transaction_def read_into_def place_secctx_def accepts_fds_def
  copy_objects.simps write_memory_def memory_write_def upd_txn_def finish_call_def
  enqueue_deferred_thread_work_def proc_transaction_def is_oneway_def select_thread_def
  enqueue_proc_work_def wakeup_thread_def thread_exists_def set_ee_def td_handle_def user_address_def alloc_eval

lemmas abort_simps = abort_transaction_def free_buffer_failed_def free_buffer_def free_buf_def clear_freed_def
  next_async_def release_target_node_def dec_node_def dec_counts_def block_before_def fail_inval_def fail_def
  finish_oneway_def enqueue_thread_work_def wake_thread_def wake_waiter_def mdel_def upd_shadow_def

lemma run_called: "after_ioctl script 3 30 BINDER_WRITE_READ (write_arg 68) (held (call_mgr @ g)) = called g"
  by (simp add: held_def called_def called_state_def called_txn_def called_buffer_def call_mgr_def state_simps
      table_simps lock_simps ioctl_simps write_simps call_simps)

lemma reachable_called: "reachable script (called g)"
  unfolding run_called [symmetric] by (intro reachable_after reachable_held)

end
