(* ===== verification/Handles.thy ===== *)
theory Handles
  imports Scenario
begin

text \<open>
  Handles and nodes: what the reference graph of theory RefGraph means for the tables of the driver
  in every reachable state, and what the operations on handles do to it.
\<close>

section \<open>In every reachable state\<close>

text \<open>Property C1. In every reachable state the tables of the driver form a consistent reference
  graph: the two handle tables of a process are inverse to each other, every handle has its node and
  the node knows the holder, every holder has a handle, the internal strong count of a node is the
  number of processes that hold it strongly, what a process owns says so, and every id in use was
  drawn from the counter.\<close>

theorem reachable_refs_ok:
  assumes "reachable G M"
  shows "refs_ok (m_state M)"
  using assms by (rule refs_ok.reachable_keeps)

theorem reachable_refs_ok_witness:
  "reachable script (held []) \<and> ref_of (m_state (held [])) 3 0 \<noteq> None \<and> refs_ok (m_state (held []))"
  using reachable_refs_ok [OF reachable_held]
  by (simp add: reachable_held) (simp add: held_def state_simps table_simps)





section \<open>New handles\<close>

lemma lowest_free_least:
  assumes "lowest_free first us = Some d" "sorted us" "distinct us" "\<forall>u \<in> set us. first \<le> u" "first \<le> e" "e < d"
  shows "e \<in> set us"
  using assms
proof (induction first us rule: lowest_free.induct)
  case (2 desc used us)
  show ?case
  proof (cases "used > desc")
    case True
    with 2 show ?thesis by auto
  next
    case False
    with 2 have used: "used = desc" "unat used + 1 < 2 ^ 32" "lowest_free (used + 1) us = Some d"
      by (auto split: if_splits)
    have "\<forall>u \<in> set us. used < u" using 2(3,4) by (auto simp: order_less_le)
    then have "\<forall>u \<in> set us. used + 1 \<le> u" by (simp add: inc_le)
    with 2(1) [OF False used(2,3)] 2(3,4,7) have "used + 1 \<le> e \<Longrightarrow> e \<in> set us" by auto
    moreover have "used + 1 \<le> e" if "e \<noteq> used" using 2(6) that used(1) by (simp add: inc_le order_less_le)
    ultimately show ?thesis by auto
  qed
qed auto

text \<open>Property C31. A process that gets its first handle to a node gets the least descriptor it does not
  use, 0 being kept for the context manager.\<close>

theorem new_handle_least:
  assumes "refs_ok s" "mget (s_procs s) p = Some pr" "mget (p_by_node pr) n = None"
    "is_context_manager n s = Some mgr" "inc_ref_for_node p n strong target s = Some (Inr d, s')"
  shows "mget (p_refs pr) d = None \<and> (d = 0 \<longrightarrow> mgr) \<and>
    (\<forall>e. (e = 0 \<longrightarrow> mgr) \<longrightarrow> e < d \<longrightarrow> mget (p_refs pr) e \<noteq> None)"
proof -
  define first :: u32 where "first = (if mgr then 0 else 1)"
  let ?us = "filter (\<lambda>d. first \<le> d) (mkeys (p_refs pr))"
  have srt: "msorted (p_refs pr)" using looks_proc_fields(6) [OF refs_ok_looks [OF assms(1)] assms(2)] .
  have d: "lowest_free first ?us = Some d"
    using assms(2-5) by (auto simp: inc_ref_for_node_def inc_ref_or_undo_def first_def Let_def
        elim!: bind_Some_elim split: if_splits sum.splits)
  have us: "sorted ?us" "distinct ?us" "\<forall>u \<in> set ?us. first \<le> u"
    using srt by (auto simp: msorted_def sorted_wrt_filter strict_sorted_iff)
  from lowest_free_new [OF d us] have "first \<le> d" by simp
  then have "d = 0 \<longrightarrow> mgr" by (auto simp: first_def split: if_splits)
  moreover have "mget (p_refs pr) e \<noteq> None" if "e = 0 \<longrightarrow> mgr" "e < d" for e
  proof -
    have "first \<le> e" using that(1) by (auto simp: first_def word_le_nat_alt unat_gt_0 Suc_le_eq)
    from lowest_free_least [OF d us this that(2)] show ?thesis unfolding mget_in_keys by simp
  qed
  ultimately show ?thesis using new_descriptor [OF d srt] by blast
qed

theorem new_handle_least_witness:
  "refs_ok run_state \<and> mget (p_refs client_proc) 0 = None \<and>
   (\<exists>s'. inc_ref_for_node 3 2 True None run_state = Some (Inr 0, s'))"
proof -
  have ok: "refs_ok run_state" using refs_ok.reachable_keeps [OF reachable_opened] by (simp add: opened_def)
  have pr: "mget (s_procs run_state) 3 = Some client_proc" "mget (p_by_node client_proc) 2 = None"
    "is_context_manager 2 run_state = Some True"
    by (simp_all add: run_state_def client_proc_def proc_new_def mget_def is_context_manager_def context_at_def
        mgr_node_def node_new_def)
  obtain s' where s': "inc_ref_for_node 3 2 True None run_state = Some (Inr 0, s')"
    by (simp add: ref_simps state_simps table_simps u32_inc_def)
  show ?thesis using new_handle_least [OF ok pr s'] ok s' by blast
qed

section \<open>Handles come and go\<close>



end
