(* ===== verification/Calls.thy ===== *)
theory Calls
  imports Handles
begin

text \<open>
  Transactions: the receive buffers they live in, what a failed one leaves behind, who gets the
  failure of a call, and the order of the one-way transactions of a node.
\<close>

section \<open>Receive buffers\<close>

text \<open>Property C2. In every reachable state every live buffer of a process lies inside its receive
  memory and overlaps no other live buffer of it, whatever the guests sent.\<close>

theorem reachable_buffers_safe:
  assumes "reachable G M" "mget (s_procs (m_state M)) p = Some pr" "p_alloc pr = Some a"
    "mget (buffers a) off = Some b"
  shows "(\<exists>mem. p_receive pr = Some mem \<and> off + b_size b \<le> length mem) \<and>
    (\<forall>off' b'. mget (buffers a) off' = Some b' \<longrightarrow> off' \<noteq> off \<longrightarrow>
       off + b_size b \<le> off' \<or> off' + b_size b' \<le> off)"
proof -
  have "buffers_safe (m_state M)" using assms(1) by (rule buffers_kept.reachable_keeps)
  with assms(2) have "map_ok (p_alloc pr) (p_receive pr)" by (simp add: buffers_safe_def)
  with assms(3) obtain mem where inv: "alloc_inv a" and mem: "p_receive pr = Some mem" "a_size a \<le> length mem"
    by (auto simp: map_ok_def split: option.splits)
  have "off + b_size b \<le> length mem" using alloc_inv_bound [OF inv block_buffer [OF assms(4)]] mem(2) by simp
  moreover have "off + b_size b \<le> off' \<or> off' + b_size b' \<le> off"
    if "mget (buffers a) off' = Some b'" "off' \<noteq> off" for off' b'
    using alloc_inv_disjoint [OF inv] block_buffer [OF assms(4)] block_buffer [OF that(1)] that(2)
    by (metis linorder_neqE_nat)
  ultimately show ?thesis using mem(1) by blast
qed

theorem reachable_buffers_safe_witness:
  "\<exists>pr a. mget (s_procs (m_state (called []))) 1 = Some pr \<and> p_alloc pr = Some a \<and>
     mget (buffers a) 0 = Some called_buffer \<and> (\<exists>mem. p_receive pr = Some mem \<and> 0 + b_size called_buffer \<le> length mem)"
proof -
  obtain pr a where "mget (s_procs (m_state (called []))) 1 = Some pr" "p_alloc pr = Some a"
    "mget (buffers a) 0 = Some called_buffer"
    by (simp add: called_def called_state_def mget_def)
  with reachable_buffers_safe [OF reachable_called this] show ?thesis by blast
qed

section \<open>Failed transactions\<close>

definition within :: "txn_id set \<Rightarrow> bstate \<Rightarrow> bool" where
  "within X s \<longleftrightarrow> txn_ids s \<subseteq> X"

interpretation within: copy_ops "within X" for X
  unfolding within_def by (rule txn_within.copy_ops_axioms)

lemma within_mono: "within X s \<Longrightarrow> X \<subseteq> Y \<Longrightarrow> within Y s"
  by (auto simp: within_def)

lemma abort_transaction_within:
  assumes "abort_transaction target x off s = Some s'" "within X s"
  shows "within (X - {x}) s'"
proof -
  let ?s = "upd_shadow (shadow_failed x) (upd_txn x (\<lambda>tx. tx\<lparr>x_buffer := None\<rparr>) s)"
  have "within (X - {x}) (?s\<lparr>s_txns := mdel x (s_txns ?s)\<rparr>)"
    using assms(2) by (auto simp: within_def txn_ids_def upd_txn_def upd_shadow_def)
  moreover have "free_buffer_failed target off (?s\<lparr>s_txns := mdel x (s_txns ?s)\<rparr>) = Some s'"
    using assms(1) by (simp add: abort_transaction_def Let_def)
  ultimately show ?thesis using within.free_buffer_failed by blast
qed

lemma begin_transaction_within:
  assumes "begin_transaction p t tr reply oneway delegated sender extra target tt tn s = Some (res, s')" "within X s"
  shows "case res of Inl f \<Rightarrow> within X s' | Inr (ctx, x, off, sus) \<Rightarrow> within (insert x X) s'"
proof -
  have "s_txns s1 = s_txns s" if "allocate_target tr e oneway pid target s = (r, s1)" for e pid r s1
    using that by (auto simp: allocate_target_def Let_def split: option.splits prod.splits)
  then have alloc: "within X s1" if "allocate_target tr e oneway pid target s = (r, s1)" for e pid r s1
    using that assms(2) by (simp add: within_def txn_ids_def)
  have add: "within (insert x X) (upd_buffer q off m (s1\<lparr>s_next_id := i, s_txns := mput x tx (s_txns s1)\<rparr>))"
    if "within X s1" for q off m s1 i x tx using that by (auto simp: within_def txn_ids_def)
  show ?thesis
    using assms
    by (auto simp: begin_transaction_def Let_def next_id_def elim!: bind_Some_elim dest!: alloc
        intro!: add within.release_target_node split: option.splits prod.splits sum.splits)
qed

text \<open>A failed step after the copy aborts the transaction.\<close>

lemma finish_aborts:
  assumes "within X s" "node_works [complete] = {}"
  shows "finish_reply G p t tr target tid orig x off complete sh s g = Some (Inl f, s', g') \<Longrightarrow> within (X - {x}) s'"
    "finish_call p t target tt x off complete s = Some (Inl f, s') \<Longrightarrow> within (X - {x}) s'"
    "finish_oneway p t target x off complete s = Some (Inl f, s') \<Longrightarrow> within (X - {x}) s'"
  using assms
  by (auto simp: finish_reply_def finish_call_def finish_oneway_def Let_def elim!: bind_Some_elim
      abort_transaction_within dest!: within.proc_transaction
      intro!: within.remove_last_complete within.enqueue_thread_work within.enqueue_deferred
        within.pop_transaction within.thread within.txn_upd split: sum.splits if_splits option.splits)

text \<open>Property C6. A transaction that fails after its target was found leaves no transaction record
  behind, whichever of its steps fails.\<close>

theorem failed_transaction_leaves_none:
  assumes "transaction_to G p t tr reply oneway delegated sender extra target tt tn irt s g = Some (Inl f, s', g')"
  shows "txn_ids s' \<subseteq> txn_ids s"
proof -
  from assms obtain begun s1 where begun:
    "begin_transaction p t tr reply oneway delegated sender extra target tt tn s = Some (begun, s1)"
    by (auto simp: transaction_to_def elim!: bind_Some_elim)
  show ?thesis
  proof (cases begun)
    case (Inl e)
    with begin_transaction_within [OF begun, of "txn_ids s"] assms begun show ?thesis
      by (simp add: transaction_to_def within_def)
  next
    case (Inr r)
    then obtain ctx x off sus where r: "begun = Inr (ctx, x, off, sus)" by (cases r) auto
    define X where "X = insert x (txn_ids s)"
    have s1: "within X s1"
      using begin_transaction_within [OF begun, of "txn_ids s"] r by (simp add: within_def X_def)
    have "within (X - {x}) s'"
      using assms begun r s1
      by (auto simp: transaction_to_def Let_def elim!: bind_Some_elim abort_transaction_within
            finish_aborts [rotated 2]
          dest!: within.copy_transaction [where X = X] within.trace_sent [where X = X]
            within.shadow_call [where X = X]
          split: sum.splits if_splits option.splits)
    then show ?thesis by (auto simp: within_def X_def)
  qed
qed

theorem failed_transaction_leaves_none_witness:
  "\<exists>s' g'. transaction_to (script 3) 3 30 (transaction_data_default\<lparr>td_offsets_size := 1\<rparr>) False False False user_creds
      0 1 None (Some 2) None held_state [] = Some (Inl fail_inval, s', g') \<and> txn_ids s' \<subseteq> txn_ids held_state"
proof -
  obtain s' g' where run: "transaction_to (script 3) 3 30 (transaction_data_default\<lparr>td_offsets_size := 1\<rparr>) False False
      False user_creds 0 1 None (Some 2) None held_state [] = Some (Inl fail_inval, s', g')"
    by (simp add: transaction_data_default_def state_simps table_simps call_simps abort_simps next_id_def u64_inc_def)
  with failed_transaction_leaves_none [OF run] show ?thesis by blast
qed

section \<open>The failure of a call\<close>

lemma thread_of_free_transaction [simp]: "thread_of (free_transaction x s) p t = thread_of s p t"
proof -
  have "thread_of (upd_proc q f s) p t = thread_of s p t" if "\<And>pr. p_threads (f pr) = p_threads pr" for q f s
    by (cases "mget (s_procs s) p") (auto simp: thread_of_def mget_upd_proc that)
  moreover have "thread_of (upd_shadow h s) p t = thread_of s p t" "thread_of (upd_trace k s) p t = thread_of s p t"
    "thread_of (s\<lparr>s_txns := xs\<rparr>) p t = thread_of s p t" for h k xs s
    by (simp_all add: thread_of_def upd_shadow_def upd_trace_def)
  ultimately show ?thesis
    by (auto simp: free_transaction_def upd_buffer_def Let_def split: option.split)
qed

text \<open>\<open>xs\<close> leads from a failed transaction up to \<open>y\<close> along calls whose callers are gone.\<close>

fun climbs :: "bstate \<Rightarrow> txn_id list \<Rightarrow> txn_id \<Rightarrow> bool" where
  "climbs s [] y = True"
| "climbs s (x # xs) y \<longleftrightarrow>
     (\<exists>tx. mget (s_txns s) x = Some tx \<and> live_caller s tx = None \<and>
        x_from_parent tx = Some (case xs of [] \<Rightarrow> y | z # _ \<Rightarrow> z)) \<and> climbs s xs y"

lemma live_caller_free [simp]: "live_caller (free_transaction x s) tx = live_caller s tx"
  by (auto simp: live_caller_def thread_exists_def split: option.split)

lemma climbs_free: "x \<notin> set xs \<Longrightarrow> climbs (free_transaction x s) xs y = climbs s xs y"
  by (induction xs) (auto simp: s_txns_free_transaction)


lemma thread_of_pop:
  "thread_of s p t = Some th \<Longrightarrow> mget (s_txns s) y = Some ty \<Longrightarrow>
   thread_of (pop_transaction p t y s) p t =
     Some (th\<lparr>t_stack := if t_stack th = Some y then x_from_parent ty else t_stack th\<rparr>)"
  by (auto simp: pop_transaction_def thread_of_def upd_thread_def upd_proc_def upd_txn_def Let_def elim!: bind_Some_elim split: option.splits)

lemma thread_of_upd_thread [simp]:
  "thread_of (upd_thread p t f s) p t = map_option f (thread_of s p t)"
  by (auto simp: thread_of_def upd_thread_def upd_proc_def bind_map_option split: option.splits bind_splits)

lemma thread_of_wake:
  "map_option (\<lambda>th. (t_todo th, t_reply_error th, t_stack th)) (thread_of (wake_thread p t s) p t) =
   map_option (\<lambda>th. (t_todo th, t_reply_error th, t_stack th)) (thread_of s p t)"
  by (auto simp: wake_thread_def wake_waiter_def upd_thread_def upd_proc_def thread_of_def Let_def split: option.splits prod.splits bind_splits)
lemma s_txns_wake [simp]: "s_txns (wake_thread p t s) = s_txns s" "s_txns (enqueue_thread_work p t w s) = s_txns s"
  by (auto simp: enqueue_thread_work_def wake_thread_def wake_waiter_def upd_thread_def upd_proc_def Let_def
      split: option.split prod.splits)

lemma txn_ids_fail: "txn_ids (fail_caller p t x cmd s) = txn_ids s"
  by (auto simp: fail_caller_def pop_transaction_def txn_ids_def upd_txn_def Let_def split: option.split)

lemma fail_caller_thread:
  assumes "mget (s_txns s) y = Some ty" "thread_of s p t = Some th" "t_reply_error th = None"
  shows "map_option (\<lambda>th. (t_todo th, t_reply_error th, t_stack th)) (thread_of (fail_caller p t y cmd s) p t) =
    Some (t_todo th @ [WReturnError cmd ReplySlot], Some cmd, if t_stack th = Some y then x_from_parent ty else t_stack th)"
  using assms by (simp add: fail_caller_def thread_of_pop enqueue_thread_work_def thread_exists_def thread_of_wake)

text \<open>Property C7. The failure of a call goes to the nearest caller that still lives: that thread gets
  the error once, at the end of its work list, its stack is popped, and every transaction on the way is freed.\<close>

theorem failure_reaches_nearest_caller:
  assumes "climbs s xs y" "distinct (xs @ [y])" "mget (s_txns s) y = Some ty" "live_caller s ty = Some (p, t)"
    "thread_of s p t = Some th" "t_reply_error th = None"
  shows "map_option (\<lambda>th. (t_todo th, t_reply_error th, t_stack th))
      (thread_of (send_failed_reply (hd (xs @ [y])) cmd s) p t) =
        Some (t_todo th @ [WReturnError cmd ReplySlot], Some cmd,
          if t_stack th = Some y then x_from_parent ty else t_stack th) \<and>
    txn_ids (send_failed_reply (hd (xs @ [y])) cmd s) = txn_ids s - set (xs @ [y])"
  using assms
proof (induction xs arbitrary: s)
  case Nil
  then show ?case by (subst (1 2) send_failed_reply.simps) (simp add: fail_caller_thread txn_ids_fail)
next
  case (Cons x xs)
  then obtain tx where "mget (s_txns s) x = Some tx" "live_caller s tx = None"
    "x_from_parent tx = Some (hd (xs @ [y]))" by (cases xs) auto
  then have "send_failed_reply x cmd s = send_failed_reply (hd (xs @ [y])) cmd (free_transaction x s)"
    by (subst send_failed_reply.simps) simp
  with Cons.IH [of "free_transaction x s"] Cons.prems show ?case
    by (auto simp: climbs_free s_txns_free_transaction)
qed
theorem failure_reaches_nearest_caller_witness:
  "let s = called_state\<lparr>s_txns := [(5, called_txn), (6, called_txn\<lparr>x_from := Some (9, 90), x_from_parent := Some 5\<rparr>)]\<rparr> in
   climbs s [6] 5 \<and> map_option (\<lambda>th. (t_todo th, t_reply_error th, t_stack th))
     (thread_of (send_failed_reply 6 BR_DEAD_REPLY s) 3 30) =
       Some ([WTransactionComplete, WReturnError BR_DEAD_REPLY ReplySlot], Some BR_DEAD_REPLY, None) \<and>
   txn_ids (send_failed_reply 6 BR_DEAD_REPLY s) = {}"
proof -
  let ?s = "called_state\<lparr>s_txns := [(5, called_txn), (6, called_txn\<lparr>x_from := Some (9, 90), x_from_parent := Some 5\<rparr>)]\<rparr>"
  let ?th = "(thread_new 1)\<lparr>t_looper_need_return := False, t_todo := [WTransactionComplete],
           t_stack := Some 5, t_ee := \<lparr>ee_id = 4, ee_command = BR_OK, ee_param = 0\<rparr>\<rparr>"
  have s: "climbs ?s [6] 5" "distinct ([6] @ [5 :: nat])" "mget (s_txns ?s) 5 = Some called_txn" "live_caller ?s called_txn = Some (3, 30)"
    "thread_of ?s 3 30 = Some ?th" "t_reply_error ?th = None"
    by (simp_all add: called_state_def called_txn_def live_caller_def thread_exists_def thread_of_def mget_def
        client_proc_def mgr_proc_def thread_new_def)
  show ?thesis using failure_reaches_nearest_caller [OF s, where cmd = BR_DEAD_REPLY] s(1)
    by (simp add: thread_new_def called_txn_def txn_ids_def called_state_def)
qed

section \<open>One-way transactions\<close>

definition async_of :: "bstate \<Rightarrow> node_id \<Rightarrow> (bool \<times> txn_id list) option" where
  "async_of s n = map_option (\<lambda>nd. (n_has_async nd, n_async_todo nd)) (mget (s_nodes s) n)"

definition queue_of :: "bstate \<Rightarrow> proc_id \<Rightarrow> work list option" where
  "queue_of s p = map_option p_todo (mget (s_procs s) p)"

lemma s_nodes_upd_proc [simp]: "s_nodes (upd_proc p f s) = s_nodes s" "s_nodes (upd_thread p t h s) = s_nodes s"
  by (simp_all add: upd_proc_def upd_thread_def)

lemma queue_of_upd_proc: "(\<And>pr. p_todo (f pr) = p_todo pr) \<Longrightarrow> queue_of (upd_proc p f s) q = queue_of s q"
  by (auto simp: queue_of_def mget_upd_proc option.map_comp comp_def)

lemma queue_of_thread [simp]: "queue_of (upd_thread p t h s) q = queue_of s q"
  by (simp add: upd_thread_def queue_of_upd_proc)

lemma queue_of_fields [simp]:
  "queue_of (s\<lparr>s_resumes := r\<rparr>) q = queue_of s q" "queue_of (s\<lparr>s_notifications := k\<rparr>) q = queue_of s q"
  "queue_of (s\<lparr>s_wakes := w\<rparr>) q = queue_of s q" "queue_of (upd_node n h s) q = queue_of s q"
  by (simp_all add: queue_of_def upd_node_def)

lemma wake_waiter_frame [simp]:
  "s_nodes (wake_waiter p t s) = s_nodes s" "queue_of (wake_waiter p t s) q = queue_of s q"
  by (auto simp: wake_waiter_def queue_of_upd_proc Let_def split: option.split)

lemma wake_thread_frame [simp]:
  "s_nodes (wake_thread p t s) = s_nodes s" "queue_of (wake_thread p t s) q = queue_of s q"
  by (auto simp: wake_thread_def Let_def split: option.split)

lemma wakeup_proc_frame [simp]:
  "s_nodes (wakeup_proc p s) = s_nodes s" "queue_of (wakeup_proc p s) q = queue_of s q"
  by (auto simp: wakeup_proc_def wakeup_thread_def select_thread_def queue_of_upd_proc split: option.split list.split)

lemma thread_of_upd_proc: "(\<And>pr. p_threads (f pr) = p_threads pr) \<Longrightarrow> thread_of (upd_proc q f s) p t = thread_of s p t"
  by (cases "mget (s_procs s) p") (auto simp: thread_of_def mget_upd_proc)

lemma thread_of_fields [simp]:
  "thread_of (upd_node n h s) p t = thread_of s p t" "thread_of (s\<lparr>s_notifications := k\<rparr>) p t = thread_of s p t"
  by (simp_all add: thread_of_def upd_node_def)

lemma todo_of_enqueue:
  "map_option t_todo (thread_of (enqueue_thread_work p t w s) p t) = map_option (\<lambda>th. t_todo th @ [w]) (thread_of s p t)"
  using thread_of_wake [of p t "upd_thread p t (\<lambda>th. th\<lparr>t_todo := t_todo th @ [w], t_process_todo := True\<rparr>) s",
      THEN arg_cong [where f = "map_option fst"]]
  by (auto simp: enqueue_thread_work_def thread_exists_def option.map_comp comp_def)

lemma async_of_mark:
  "async_of (upd_node n (\<lambda>nd. nd\<lparr>n_has_async := b\<rparr>) s) n = map_option (\<lambda>(_, q). (b, q)) (async_of s n)"
  "async_of (upd_node n (\<lambda>nd. nd\<lparr>n_async_todo := n_async_todo nd @ xs\<rparr>) s) n =
     map_option (\<lambda>(b, q). (b, q @ xs)) (async_of s n)"
  by (auto simp: async_of_def upd_node_def option.map_comp comp_def)

lemma s_nodes_enqueue [simp]: "s_nodes (enqueue_thread_work p t w s) = s_nodes s"
  "s_nodes (enqueue_proc_work p w s) = s_nodes s" "s_nodes (wakeup_thread p tt s) = s_nodes s"
  by (auto simp: enqueue_thread_work_def enqueue_proc_work_def wakeup_thread_def split: option.split)

lemma async_of_queues [simp]:
  "async_of (upd_proc p f s) n = async_of s n" "async_of (enqueue_thread_work p t w s) n = async_of s n"
  "async_of (enqueue_proc_work p w s) n = async_of s n" "async_of (wakeup_thread p tt s) n = async_of s n"
  by (simp_all add: async_of_def)

lemma queue_of_enqueue [simp]:
  "queue_of (wakeup_thread p tt s) q = queue_of s q"
  "queue_of (enqueue_proc_work p w s) p = map_option (\<lambda>ws. ws @ [w]) (queue_of s p)"
   apply (simp add: wakeup_thread_def split: option.split)
  by (simp add: enqueue_proc_work_def queue_of_def mget_upd_proc option.map_comp comp_def)

definition waiters_live :: "proc_id \<Rightarrow> bstate \<Rightarrow> bool" where
  "waiters_live p s \<longleftrightarrow> (\<forall>pr. mget (s_procs s) p = Some pr \<longrightarrow> (\<forall>t \<in> set (p_waiting pr). mget (p_threads pr) t \<noteq> None))"

text \<open>Property C15. A one-way transaction to a node that already has one outstanding waits: it goes to the end
  of the node's queue and no work queue changes.  Otherwise the node is marked busy and the transaction is queued
  for the owner at once, for a waiting thread if there is one.\<close>

theorem oneway_waits_its_turn:
  assumes "proc_transaction x p None s = Some (Inr (), s')" "mget (s_txns s) x = Some tx" "is_oneway tx"
    "x_target_node tx = Some n" "async_of s n = Some (busy, q)" "waiters_live p s"
  shows "if busy
    then async_of s' n = Some (True, q @ [x]) \<and> (\<forall>r t. queue_of s' r = queue_of s r \<and> thread_of s' r t = thread_of s r t)
    else async_of s' n = Some (True, q) \<and>
      (queue_of s' p = map_option (\<lambda>ws. ws @ [WTransaction x]) (queue_of s p) \<or>
       (\<exists>t. map_option t_todo (thread_of s' p t) = map_option (\<lambda>th. t_todo th @ [WTransaction x]) (thread_of s p t) \<and>
          thread_of s p t \<noteq> None))"
proof -
  obtain nd where nd: "mget (s_nodes s) n = Some nd" "n_has_async nd = busy" using assms(5) by (auto simp: async_of_def)
  note sent = assms(1-5) nd
  show ?thesis
  proof (cases busy)
    case True
    with sent show ?thesis
      by (auto simp: proc_transaction_def async_of_mark(2) queue_of_upd_proc thread_of_upd_proc elim!: bind_Some_elim
          split: if_splits)
  next
    case False
    define s1 where "s1 = upd_node n (\<lambda>nd. nd\<lparr>n_has_async := True\<rparr>) s"
    have s1: "async_of s1 n = Some (True, q)" "queue_of s1 r = queue_of s r" "thread_of s1 r t = thread_of s r t" for r t
      using assms(5) by (simp_all add: s1_def async_of_mark)
    have same: "s_procs s1 = s_procs s" by (simp add: s1_def upd_node_def)
    obtain pr where pr: "mget (s_procs s) p = Some pr"
      using sent False by (auto simp: proc_transaction_def elim!: bind_Some_elim split: if_splits)
    show ?thesis
    proof (cases "p_waiting pr")
      case Nil
      then have "select_thread p s1 = (None, s1)" using pr same by (simp add: select_thread_def)
      with sent False s1 pr same show ?thesis
        by (auto simp: proc_transaction_def s1_def [symmetric]
           queue_of_upd_proc elim!: bind_Some_elim)
    next
      case (Cons t ts)
      then have "select_thread p s1 = (Some t, upd_proc p (\<lambda>pr. pr\<lparr>p_waiting := ts\<rparr>) s1)" 
        using pr same by (simp add: select_thread_def)
      moreover have "thread_of s p t \<noteq> None" using Cons pr assms(6) by (auto simp: waiters_live_def thread_of_def)
      ultimately show ?thesis using sent False s1 pr same
        by (auto simp: proc_transaction_def s1_def [symmetric]
           queue_of_upd_proc thread_of_upd_proc todo_of_enqueue thread_exists_def elim!: bind_Some_elim
           intro!: exI [of _ t])
    qed
  qed
qed

definition busy_state :: bstate where
  "busy_state = called_state\<lparr>s_nodes := [(2, mgr_node\<lparr>n_has_async := True, n_async_todo := [4]\<rparr>)],
     s_txns := [(5, called_txn), (6, called_txn\<lparr>x_flags := 1\<rparr>)]\<rparr>"

theorem oneway_waits_its_turn_witness:
  "\<exists>s'. proc_transaction 6 1 None busy_state = Some (Inr (), s') \<and> async_of s' 2 = Some (True, [4, 6]) \<and>
     queue_of s' 1 = Some [WTransaction 5]"
proof -
  have s: "mget (s_txns busy_state) 6 = Some (called_txn\<lparr>x_flags := 1\<rparr>)" "is_oneway (called_txn\<lparr>x_flags := 1\<rparr>)"
    "x_target_node (called_txn\<lparr>x_flags := 1\<rparr>) = Some 2" "async_of busy_state 2 = Some (True, [4])"
    "waiters_live 1 busy_state" and q: "queue_of busy_state 1 = Some [WTransaction 5]"
    by (simp_all add: busy_state_def called_state_def called_txn_def mget_def is_oneway_def async_of_def queue_of_def
        waiters_live_def mgr_proc_def proc_new_def uapi_consts)
  obtain s' where run: "proc_transaction 6 1 None busy_state = Some (Inr (), s')"
    by (simp add: busy_state_def called_state_def called_txn_def state_simps table_simps ioctl_simps write_simps call_simps u32_inc_def uapi_consts)
  show ?thesis using oneway_waits_its_turn [OF run s] run q by auto
qed





definition oneway_call :: "byte \<Rightarrow> byte list" where
  "oneway_call offsets_size = [0, 99, 64, 64, 0, 0, 0, 0, 0, 0, 0, 0, 0, 0, 0, 0, 0, 0, 0, 0,
    7, 0, 0, 0, 1, 0, 0, 0, 0, 0, 0, 0, 0, 0, 0, 0,
    0, 0, 0, 0, 0, 0, 0, 0, offsets_size, 0, 0, 0, 0, 0, 0, 0, 0, 0, 0, 0, 0, 0, 0, 0, 0, 0, 0, 0, 0, 0, 0, 0]"

definition oneway_twice :: "byte list machine" where
  "oneway_twice = after_ioctl script 3 30 BINDER_WRITE_READ (write_arg 68)
     (after_ioctl script 3 30 BINDER_WRITE_READ (write_arg 68) (held (oneway_call 0 @ oneway_call 1)))"

text \<open>Property C17. The mark of a node is not only cleared by the buffer of its outstanding transaction: a second
  one-way transaction that fails while it is set up frees its own buffer, which clears the mark as well. There is
  a reachable state in which a one-way transaction is outstanding and its node is not marked.\<close>

theorem failed_oneway_clears_mark:
  "reachable script oneway_twice \<and> async_of (m_state oneway_twice) 2 = Some (False, []) \<and>
   queue_of (m_state oneway_twice) 1 = Some [WTransaction 5] \<and>
   map_option is_oneway (mget (s_txns (m_state oneway_twice)) 5) = Some True"
proof -
  have "reachable script oneway_twice" unfolding oneway_twice_def by (intro reachable_after reachable_held)
  moreover have "async_of (m_state oneway_twice) 2 = Some (False, []) \<and>
   queue_of (m_state oneway_twice) 1 = Some [WTransaction 5] \<and>
   map_option is_oneway (mget (s_txns (m_state oneway_twice)) 5) = Some True"
  by (simp add: oneway_twice_def held_def oneway_call_def called_txn_def called_buffer_def async_of_def queue_of_def
      state_simps table_simps lock_simps ioctl_simps write_simps call_simps abort_simps)
  ultimately show ?thesis by blast
qed

end
