(* ===== verification/Objects.thy ===== *)
theory Objects
  imports Calls
begin

unbundle bit_operations_syntax

text \<open>
  The objects in a transaction: an object sent away and back is the same object, the translation
  changes nothing it has checked, and the check of a pointer fixup always returns.
\<close>

section \<open>What a node is\<close>

definition whose :: "bstate \<Rightarrow> node_id \<Rightarrow> (proc_id option \<times> u64 \<times> u64) option" where
  "whose s n = map_option (\<lambda>nd. (n_proc nd, n_ptr nd, n_cookie nd)) (mget (s_nodes s) n)"

lemma whose_upd [simp]:
  "whose (upd_proc p f s) n = whose s n" "whose (upd_thread p t h s) n = whose s n"
  "whose (upd_ref p d k s) n = whose s n" "whose (upd_buffer p off b s) n = whose s n"
  "whose (enqueue_deferred_thread_work p t w s) n = whose s n"
  by (simp_all add: whose_def upd_ref_def upd_buffer_def enqueue_deferred_thread_work_def)

lemma whose_upd_node:
  "(\<And>nd. n_proc (f nd) = n_proc nd \<and> n_ptr (f nd) = n_ptr nd \<and> n_cookie (f nd) = n_cookie nd) \<Longrightarrow>
   whose (upd_node m f s) n = whose s n"
  by (cases "n = m") (auto simp: whose_def upd_node_def option.map_comp comp_def)

lemma whose_dequeue [simp]: "whose (dequeue_node_work n s) m = whose s m"
  by (auto simp: dequeue_node_work_def remove_work_def whose_upd_node split: option.split work_list.split)

lemma inc_node_whose: "inc_node n strong internal target s = Some (res, s') \<Longrightarrow> whose s' m = whose s m"
  by (auto simp: inc_node_def whose_upd_node elim!: bind_Some_elim split: option.splits if_splits prod.splits)

lemma inc_ref_whose: "inc_ref p d strong target s = Some (res, s') \<Longrightarrow> whose s' m = whose s m"
  by (auto simp: inc_ref_def elim!: bind_Some_elim split: sum.splits if_splits dest!: inc_node_whose [of _ _ _ _ _ _ _ m])

lemma inc_ref_makes:
  assumes "inc_ref p d strong target s = Some (Inr (), s')" "ref_of s p d = Some r"
  shows "\<exists>r'. ref_of s' p d = Some r' \<and> r_node r' = r_node r \<and> (strong \<longrightarrow> r_strong r' \<noteq> 0)"
proof -
  from assms obtain s1 r1 where s1: "ref_of s1 p d = Some r1" "r1 = r" and
    s': "s' = upd_ref p d (\<lambda>x. x\<lparr>r_strong := Suc (r_strong r1)\<rparr>) s1 \<and> strong \<or>
      s' = upd_ref p d (\<lambda>x. x\<lparr>r_weak := Suc (r_weak r1)\<rparr>) s1 \<and> \<not> strong"
    by (auto simp: inc_ref_def elim!: bind_Some_elim split: sum.splits if_splits
        dest!: ref_frame.any_inc_node [where p = p and desc = d and r = "Some r"])
  have "ref_of (upd_ref p d f s1) p d = map_option f (ref_of s1 p d)" for f
    by (auto simp: upd_ref_def ref_of_def mget_upd_proc bind_map_option comp_def map_option_bind)
  with s1 s' show ?thesis by auto
qed

lemma inc_ref_for_node_makes:
  assumes "inc_ref_for_node p n strong target s = Some (Inr d, s')" "refs_ok s" "mget (s_nodes s) n \<noteq> None"
  shows "\<exists>r. ref_of s' p d = Some r \<and> r_node r = n \<and> (strong \<longrightarrow> r_strong r \<noteq> 0)" "whose s' m = whose s m"
proof -
  obtain pr where pr: "mget (s_procs s) p = Some pr"
    using assms(1) by (auto simp: inc_ref_for_node_def split: option.splits)
  obtain created s1 where i: "inc_ref_or_undo p d created strong target s1 = Some (Inr d, s')"
    and r: "\<exists>r. ref_of s1 p d = Some r \<and> r_node r = n" and w: "whose s1 m = whose s m"
  proof (cases "mget (p_by_node pr) n")
    case None
    let ?s1 = "\<lambda>d. upd_proc p (\<lambda>pr. pr\<lparr>p_refs := mput d \<lparr>r_node = n, r_strong = 0, r_weak = 0, r_death = None\<rparr> (p_refs pr),
           p_by_node := mput n d (p_by_node pr)\<rparr>) s"
    from None assms(1,3) pr obtain d' where
      i: "inc_ref_or_undo p d' True strong target (upd_node n (\<lambda>nd. nd\<lparr>n_refs := mput p () (n_refs nd)\<rparr>) (?s1 d')) =
        Some (Inr d, s')"
      by (auto simp: inc_ref_for_node_def Let_def elim!: bind_Some_elim split: if_splits)
    from i have "d' = d" by (auto simp: inc_ref_or_undo_def elim!: bind_Some_elim split: sum.splits)
    then show ?thesis
      by (intro that [OF i [unfolded \<open>d' = d\<close>]])
        (simp_all add: whose_upd_node, simp add: ref_of_def upd_node_def mget_upd_proc pr)
  next
    case (Some d')
    with assms(1) pr have i: "inc_ref_or_undo p d' False strong target s = Some (Inr d, s')"
      by (simp add: inc_ref_for_node_def)
    moreover from i have "d' = d" by (auto simp: inc_ref_or_undo_def elim!: bind_Some_elim split: sum.splits)
    moreover have "\<exists>r. ref_of s p d' = Some r \<and> r_node r = n"
      using graph_okD(1) [OF refs_ok_graph [OF assms(2)], of p n d'] pr Some by auto
    ultimately show ?thesis by (intro that [of False]) auto
  qed
  from i have inc: "inc_ref p d strong target s1 = Some (Inr (), s')"
    by (auto simp: inc_ref_or_undo_def elim!: bind_Some_elim split: sum.splits)
  show "\<exists>r. ref_of s' p d = Some r \<and> r_node r = n \<and> (strong \<longrightarrow> r_strong r \<noteq> 0)"
    using r inc_ref_makes [OF inc] by blast
  show "whose s' m = whose s m" using inc_ref_whose [OF inc] w by simp
qed

lemma new_node_whose:
  assumes "refs_ok s" "new_node p ptr cookie flags s = Some (n, s')"
  shows "\<exists>nd. mget (s_nodes s') n = Some nd \<and> n_proc nd = Some p \<and> n_ptr nd = ptr"
proof -
  have "own (graph_of s') p ptr = Some n"
    using assms(2) by (auto simp: new_node_def next_id_def mget_upd_proc elim!: bind_Some_elim split: option.splits)
  with graph_okD(5) [OF refs_ok_graph] new_node_looks [OF assms] show ?thesis by (fastforce simp: link_of_def)
qed

lemma ref_of_record_object [simp]: "ref_of (record_object q off r s) p d = ref_of s p d"
  by (simp add: record_object_def upd_buffer_def ref_of_def mget_upd_proc bind_map_option comp_def)

lemma whose_record_object [simp]: "whose (record_object q off r s) n = whose s n"
  by (simp add: record_object_def)

lemma put_flat_slice:
  assumes "put_flat off fp C = Some C'"
  shows "\<exists>bytes. slice off 24 (cs_image C') = Some bytes \<and> flat_binder_object_decode bytes = Some fp"
proof -
  obtain bytes where b: "flat_binder_object_encode fp = Some bytes" "length bytes = 24"
      "flat_binder_object_decode bytes = Some fp"
    using flat_binder_object_codec.enc_dec [of fp] by (auto simp: sizes_values)
  with assms show ?thesis by (auto simp: put_flat_def put_slice_Some slice_splice_same elim!: bind_Some_elim)
qed

lemma sent_binder:
  assumes "refs_ok s" "copy_binder_object A kind off obj C s g = Some (Inr (C1, sk, ns), s1, g1)"
    "flat_binder_object_decode obj = Some fp"
  obtains d n r hobj where "slice off 24 (cs_image C1) = Some hobj"
    "flat_binder_object_decode hobj = Some (fp\<lparr>fbo_kind := (if kind = BINDER_TYPE_BINDER then BINDER_TYPE_HANDLE
       else BINDER_TYPE_WEAK_HANDLE), fbo_binder := ucast d, fbo_cookie := 0\<rparr>)"
    "ref_of s1 (ca_target A) d = Some r" "r_node r = n" "kind = BINDER_TYPE_BINDER \<longrightarrow> r_strong r \<noteq> 0"
    "whose s1 n = Some (Some (ca_proc A), fbo_binder fp, fbo_cookie fp)"
proof -
  let ?st = "kind = BINDER_TYPE_BINDER"
  from assms(2,3) obtain n s0 nd d s2 where
    n: "new_node (ca_proc A) (fbo_binder fp) (fbo_cookie fp) (fbo_flags fp) s = Some (n, s0)" and
    nd: "mget (s_nodes s0) n = Some nd" "n_cookie nd = fbo_cookie fp" and
    i: "inc_ref_for_node (ca_target A) n ?st (Some (ca_proc A, ca_tid A)) s0 = Some (Inr d, s2)" and
    put: "put_flat off (fp\<lparr>fbo_kind := (if ?st then BINDER_TYPE_HANDLE else BINDER_TYPE_WEAK_HANDLE),
                                fbo_binder := ucast d, fbo_cookie := 0\<rparr>) C = Some C1" and
    s1: "s1 = record_object (ca_target A) (ca_buffer A) (HandleRec d ?st) s2"
    by (auto simp: copy_binder_object_def Let_def elim!: bind_Some_elim split: if_splits sum.splits)
  have ok: "refs_ok s0" using new_node_looks [OF assms(1) n] by simp
  note made = inc_ref_for_node_makes [OF i ok]
  have w: "whose s1 n = Some (Some (ca_proc A), fbo_binder fp, fbo_cookie fp)"
    using new_node_whose [OF assms(1) n] nd made(2) s1 by (auto simp: whose_def [of s0])
  obtain r where r: "ref_of s1 (ca_target A) d = Some r" "r_node r = n" "?st \<longrightarrow> r_strong r \<noteq> 0"
    using made(1) nd s1 by auto
  obtain hobj where "slice off 24 (cs_image C1) = Some hobj"
    "flat_binder_object_decode hobj = Some (fp\<lparr>fbo_kind := (if ?st then BINDER_TYPE_HANDLE
       else BINDER_TYPE_WEAK_HANDLE), fbo_binder := ucast d, fbo_cookie := 0\<rparr>)"
    using put_flat_slice [OF put] by blast
  from that [OF this r w] show ?thesis .
qed

text \<open>Property C5. An object that its owner sends and the receiver sends back arrives as the owner sent it: the
  receiver's copy is a handle to the owner's node, and on the way back the handle becomes the pointer and
  the cookie again.\<close>

theorem binder_returns_home:
  assumes "refs_ok s" "copy_binder_object A kind off obj C s g = Some (Inr (C1, sk, ns), s1, g1)"
    "flat_binder_object_decode obj = Some fp" "fbo_kind fp = kind"
    "kind = BINDER_TYPE_BINDER \<or> kind = BINDER_TYPE_WEAK_BINDER"
    "slice off 24 (cs_image C1) = Some hobj" "u32_at hobj 0 = Some kind'"
    "ca_proc A' = ca_target A" "ca_target A' = ca_proc A"
    "copy_handle_object A' kind' off' hobj C' s1 g' = Some (res, s2, g2)"
  shows "\<exists>C2 sk2 ns2 back. res = Inr (C2, sk2, ns2) \<and> slice off' 24 (cs_image C2) = Some back \<and>
    flat_binder_object_decode back = Some fp"
proof -
  let ?st = "kind = BINDER_TYPE_BINDER"
  from assms(1-3) obtain d n r hobj' where h': "slice off 24 (cs_image C1) = Some hobj'"
    and h: "flat_binder_object_decode hobj' = Some (fp\<lparr>fbo_kind := (if ?st then BINDER_TYPE_HANDLE
       else BINDER_TYPE_WEAK_HANDLE), fbo_binder := ucast d, fbo_cookie := 0\<rparr>)"
    and r: "ref_of s1 (ca_target A) d = Some r" "r_node r = n" "?st \<longrightarrow> r_strong r \<noteq> 0"
    and w: "whose s1 n = Some (Some (ca_proc A), fbo_binder fp, fbo_cookie fp)"
    by (rule sent_binder)
  from h' assms(6) have "hobj' = hobj" by simp
  note h = h [unfolded this]
  have kind': "kind' = (if ?st then BINDER_TYPE_HANDLE else BINDER_TYPE_WEAK_HANDLE)"
    using arg_cong [OF h, where f = "map_option fbo_kind"] assms(7)
    by (auto simp: flat_binder_object_decode_def elim!: bind_Some_elim)
  then have st': "kind' = BINDER_TYPE_HANDLE \<longleftrightarrow> ?st" by (simp add: uapi_consts)
  obtain nd where nd: "mget (s_nodes s1) n = Some nd" "n_proc nd = Some (ca_proc A)" "n_ptr nd = fbo_binder fp"
      "n_cookie nd = fbo_cookie fp" using w by (auto simp: whose_def)
  have "(ucast (ucast d :: u64) :: u32) = d" by (rule bit_word_eqI) (auto simp: bit_simps)
  then have get: "get_ref (ca_target A) (ucast (ucast d :: u64)) ?st s1 = Some r" using r by (simp add: get_ref_def)
  have inc: "inc_node (r_node r) st False None s1 \<noteq> Some (Inl e, si)" for st e si
    using nd(1) r(2) by (auto simp: inc_node_def elim!: bind_Some_elim split: if_splits)
  have "fp\<lparr>fbo_kind := if ?st then BINDER_TYPE_BINDER else BINDER_TYPE_WEAK_BINDER,
      fbo_binder := fbo_binder fp, fbo_cookie := fbo_cookie fp\<rparr> = fp"
    using assms(4,5) by auto
  with assms(8-10) h r(2) nd st' get show ?thesis
    by (auto simp: copy_handle_object_def fbo_handle_def Let_def inc
        elim!: bind_Some_elim dest!: put_flat_slice split: sum.splits)
qed

section \<open>The image under copy\<close>

definition placed_ok :: "nat \<Rightarrow> nat \<Rightarrow> placed_ptr list \<Rightarrow> bool" where
  "placed_ok lo hi ps \<longleftrightarrow> (\<forall>i < length ps. lo \<le> pl_target_offset (ps ! i) \<and>
     pl_target_offset (ps ! i) + pl_length (ps ! i) \<le> hi \<and> (\<forall>k. pl_parent (ps ! i) = Some k \<longrightarrow> k < i))"

definition copy_ok :: "nat \<Rightarrow> copy_state \<Rightarrow> bool" where
  "copy_ok lo C \<longleftrightarrow> lo \<le> cs_sg_cursor C \<and> placed_ok lo (cs_sg_cursor C) (cs_placed C) \<and>
     (\<forall>k. cs_last_obj C = Some k \<longrightarrow> k < length (cs_placed C))"

lemma validate_walk_returns:
  assumes "placed_ok lo hi ps" "cursor < length ps" "parent < length ps"
  shows "\<exists>b. validate_walk ps parent fo cursor m = Some b"
  using assms(2)
proof (induction cursor arbitrary: m rule: less_induct)
  case (less cursor)
  then show ?case
    using assms(1) by (subst validate_walk.simps) (fastforce simp: placed_ok_def split: option.split)
qed

lemma placed_ok_snoc:
  "placed_ok lo hi ps \<Longrightarrow> hi \<le> hi' \<Longrightarrow> lo \<le> pl_target_offset q \<Longrightarrow> pl_target_offset q + pl_length q \<le> hi' \<Longrightarrow>
   (\<And>k. pl_parent q = Some k \<Longrightarrow> k < length ps) \<Longrightarrow> placed_ok lo hi' (ps @ [q])"
  by (auto simp: placed_ok_def nth_append less_Suc_eq)

definition same_outside :: "nat \<Rightarrow> nat \<Rightarrow> nat \<Rightarrow> byte list \<Rightarrow> byte list \<Rightarrow> bool" where
  "same_outside off dend lo bs bs' \<longleftrightarrow> length bs' = length bs \<and>
     (\<forall>j < length bs. j < off \<or> dend \<le> j \<and> j < lo \<longrightarrow> bs' ! j = bs ! j)"

lemma same_outside_refl [simp]: "same_outside off dend lo bs bs"
  by (simp add: same_outside_def)

lemma same_outside_trans:
  "same_outside off dend lo bs bs1 \<Longrightarrow> same_outside off' dend lo bs1 bs2 \<Longrightarrow> off \<le> off' \<Longrightarrow> same_outside off dend lo bs bs2"
  by (auto simp: same_outside_def)

lemma same_outside_put:
  assumes "put_slice at d bs = Some bs'" "off \<le> at" "at + length d \<le> dend \<or> lo \<le> at" "off \<le> lo"
  shows "same_outside off dend lo bs bs'"
  using assms by (auto simp: put_slice_Some same_outside_def splice_def nth_append)

lemma find_parent_less: "find_parent A i par C = Some (Some k) \<Longrightarrow> k < length (cs_placed C)"
  by (auto simp: find_parent_def elim!: bind_Some_elim split: if_splits dest: position_less)

text \<open>One object: what its copy keeps, and that it changes the image only at the object itself and in the
  scatter-gather area.\<close>

definition copied_ok :: "copy_args \<Rightarrow> nat \<Rightarrow> nat \<Rightarrow> copy_state \<Rightarrow> copy_state \<Rightarrow> bool" where
  "copied_ok A lo off C C' \<longleftrightarrow> copy_ok lo C' \<and> cs_off_min C' = cs_off_min C \<and>
     same_outside off (ca_data_size A) lo (cs_image C) (cs_image C')"

lemma put_flat_copied:
  assumes "put_flat off fp C = Some C'" "copy_ok lo C" "off + 24 \<le> ca_data_size A" "ca_data_size A \<le> lo"
  shows "copied_ok A lo off C C'"
proof -
  obtain bytes where "flat_binder_object_encode fp = Some bytes" "length bytes = 24"
    using flat_binder_object_codec.enc_dec [of fp] by (auto simp: sizes_values)
  with assms show ?thesis
    by (auto simp: put_flat_def copied_ok_def copy_ok_def elim!: bind_Some_elim intro!: same_outside_put)
qed

lemma fixup_parent_ok:
  assumes "fixup_parent A index bp C = Some (Inr (par, img))" "copy_ok lo C" "off \<le> lo"
  shows "same_outside off dend lo (cs_image C) img" "par = Some k \<Longrightarrow> k < length (cs_placed C)"
proof -
  have "lo \<le> pl_target_offset (cs_placed C ! k)" if "k < length (cs_placed C)" for k
    using assms(2) that by (auto simp: copy_ok_def placed_ok_def)
  then have at: "off \<le> pl_target_offset (cs_placed C ! k) + n" "lo \<le> pl_target_offset (cs_placed C ! k) + n"
    if "k < length (cs_placed C)" for k n using assms(3) that by (meson le_trans trans_le_add1)+
  show "same_outside off dend lo (cs_image C) img"
    using assms(1,3) at by (auto simp: fixup_parent_def Let_def put_u64_def elim!: bind_Some_elim same_outside_put
      dest!: find_parent_less split: if_splits option.splits)
  show "par = Some k \<Longrightarrow> k < length (cs_placed C)"
    using assms(1) by (auto simp: fixup_parent_def Let_def elim!: bind_Some_elim
      dest!: find_parent_less split: if_splits option.splits)
qed

lemma ptr_copied:
  assumes fu: "fixup_parent A index bp C1 = Some (Inr (par, img2))" and obj: "buffer_object_encode bp = Some obj"
    "put_slice off obj img2 = Some img3" and al: "align8 len = Some aligned" and C: "copy_ok lo C"
    and off: "off + 40 \<le> ca_data_size A" "ca_data_size A \<le> lo"
    and img: "cs_image C1 = cs_image C \<or> (\<exists>bytes. put_slice (cs_sg_cursor C) bytes (cs_image C) = Some (cs_image C1))"
    and C1: "cs_sg_cursor C1 = cs_sg_cursor C + unat aligned" "cs_placed C1 = cs_placed C" "cs_last_obj C1 = cs_last_obj C"
    and C': "cs_image C' = img3" "cs_sg_cursor C' = cs_sg_cursor C + unat aligned" "cs_off_min C' = cs_off_min C"
      "cs_placed C' = cs_placed C @ [\<lparr>pl_object_offset = off, pl_target_offset = cs_sg_cursor C, pl_length = unat len,
        pl_parent = par, pl_parent_offset = po\<rparr>]" "cs_last_obj C' = Some (length (cs_placed C))"
  shows "copied_ok A lo off C C'"
proof -
  have ok1: "copy_ok lo C1" using C by (auto simp: copy_ok_def placed_ok_def C1 trans_le_add1)
  note fixed = fixup_parent_ok [OF fu ok1]
  have lo: "off \<le> lo" "off \<le> cs_sg_cursor C" "lo \<le> cs_sg_cursor C" using C off by (auto simp: copy_ok_def)
  have len: "length obj = 40" using obj(1) buffer_object_codec.enc_dec [of bp] by (auto simp: sizes_values)
  have "same_outside off (ca_data_size A) lo (cs_image C) (cs_image C1)"
    using img lo by (auto elim!: same_outside_put)
  moreover have "same_outside off (ca_data_size A) lo (cs_image C1) img2" using fixed(1) [OF lo(1)] by simp
  moreover have "same_outside off (ca_data_size A) lo img2 img3"
    using obj(2) by (rule same_outside_put) (use len off in auto)
  ultimately have "same_outside off (ca_data_size A) lo (cs_image C) img3" by (blast intro: same_outside_trans)
  moreover have "copy_ok lo C'"
    using C align8_ge [OF al] fixed(2) lo(1,3) C1(2) unfolding copy_ok_def C' by (auto intro!: placed_ok_snoc)
  ultimately show ?thesis by (simp add: copied_ok_def C')
qed

lemma copy_ptr_copied:
  assumes "copy_ptr_object G A index off object C s g = Some (Inr (C', sk, ns), s', g')" "copy_ok lo C"
    "off + 40 \<le> ca_data_size A" "ca_data_size A \<le> lo"
  shows "copied_ok A lo off C C'"
  using assms
  by (auto simp: copy_ptr_object_def Let_def elim!: bind_Some_elim split: if_splits sum.splits prod.splits)
     (erule (4) ptr_copied; auto)+

lemma copy_object_copied:
  assumes "copy_object G A kind index off object C s g = Some (Inr (C', sk, ns), s', g')" "copy_ok lo C"
    "object_size kind = Some sz" "off + sz \<le> ca_data_size A" "ca_data_size A \<le> lo"
  shows "copied_ok A lo off C C'"
proof -
  have flat: "copied_ok A lo off C C1" if "put_flat off fp C = Some C1" "off + 24 \<le> ca_data_size A" for fp C1
    using put_flat_copied [OF that(1) assms(2) that(2) assms(5)] .
  have fd: "copied_ok A lo off C (C\<lparr>cs_image := img, cs_fixups := fx\<rparr>)" if "put_slice (off + 8) (replicate 8 0) (cs_image C) = Some img"
      "off + 24 \<le> ca_data_size A" for img fx
    using that assms(2,5) same_outside_put [OF that(1), of off "ca_data_size A" lo]
    by (auto simp: copied_ok_def copy_ok_def)
  have fda: "copied_ok A lo off C C'" if "copy_fda_object G A index object C s g = Some (Inr (C', sk, ns), s', g')"
    using that assms(2) by (auto simp: copy_fda_object_def copied_ok_def copy_ok_def Let_def elim!: bind_Some_elim
        dest!: find_parent_less split: option.splits if_splits sum.splits)
  have ptr: "copied_ok A lo off C C'" if "copy_ptr_object G A index off object C s g = Some (Inr (C', sk, ns), s', g')"
      "off + 40 \<le> ca_data_size A"
    using copy_ptr_copied [OF that(1) assms(2) that(2) assms(5)] .
  show ?thesis
    using assms(1,3,4)
    by (auto simp: copy_object_def object_size_def sizes_values copy_binder_object_def copy_handle_object_def
        copy_fd_object_def Let_def elim!: bind_Some_elim flat fd fda ptr
        split: if_splits sum.splits option.splits prod.splits)
qed

lemma copy_objects_ok:
  assumes "copy_objects G A index n C sh s g = Some (Inr (C', sh'), s', g')" "copy_ok lo C" "ca_data_size A \<le> lo"
  shows "copy_ok lo C' \<and> cs_off_min C \<le> cs_off_min C' \<and>
    same_outside (cs_off_min C) (ca_data_size A) lo (cs_image C) (cs_image C')"
  using assms(1,2)
proof (induction n arbitrary: index C sh s g)
  case (Suc n)
  from Suc.prems(1) obtain off kind sz object C1 sk ns s1 g1 where
    off: "cs_off_min C \<le> off" "off + sz \<le> ca_data_size A" and sz: "object_size kind = Some sz" and
    one: "copy_object G A kind index off object (C\<lparr>cs_off_min := off + sz\<rparr>) s g = Some (Inr (C1, sk, ns), s1, g1)" and
    rest: "copy_objects G A (index + 1) n C1 (push_shadow off sk ns sh) s1 g1 = Some (Inr (C', sh'), s', g')"
    by (auto simp: Let_def usize_add_def not_less elim!: bind_Some_elim split: option.splits if_splits sum.splits)
  have "copied_ok A lo off (C\<lparr>cs_off_min := off + sz\<rparr>) C1"
    using Suc.prems(2) by (intro copy_object_copied [OF one _ sz off(2) assms(3)]) (simp add: copy_ok_def)
  then have C1: "copy_ok lo C1" "cs_off_min C1 = off + sz"
    "same_outside off (ca_data_size A) lo (cs_image C) (cs_image C1)" by (simp_all add: copied_ok_def)
  from Suc.IH [OF rest C1(1)] C1 off(1) show ?case
    by (auto simp: same_outside_def)
qed simp

text \<open>A transaction with one buffer object of eight bytes.\<close>

definition ptr_args :: copy_args where
  "ptr_args = \<lparr>ca_proc = 3, ca_tid = 30, ca_target = 1, ca_buffer = 0, ca_data_size = 40, ca_off_start = 40,
     ca_sg_end = 56, ca_vm_start = 4096, ca_accept_fds = False, ca_identify = None\<rparr>"

definition ptr_image :: "byte list" where
  "ptr_image = [0x85, 0x2a, 0x74, 0x70, 0, 0, 0, 0, 16, 0, 0, 0, 0, 0, 0, 0, 8, 0, 0, 0, 0, 0, 0, 0,
     0, 0, 0, 0, 0, 0, 0, 0, 0, 0, 0, 0, 0, 0, 0, 0] @ [0, 0, 0, 0, 0, 0, 0, 0] @ [0, 0, 0, 0, 0, 0, 0, 0]"

definition ptr_start :: copy_state where
  "ptr_start = \<lparr>cs_image = ptr_image, cs_off_min = 0, cs_sg_cursor = 48, cs_placed = [], cs_last_obj = None,
     cs_last_min = 0, cs_fixups = []\<rparr>"

definition ptr_done :: copy_state where
  "ptr_done = ptr_start\<lparr>cs_image := [0x85, 0x2a, 0x74, 0x70, 0, 0, 0, 0, 48, 16, 0, 0, 0, 0, 0, 0, 8, 0, 0, 0, 0, 0, 0, 0,
     0, 0, 0, 0, 0, 0, 0, 0, 0, 0, 0, 0, 0, 0, 0, 0] @ [0, 0, 0, 0, 0, 0, 0, 0] @ [1, 2, 3, 4, 5, 6, 7, 8],
     cs_off_min := 40, cs_sg_cursor := 56, cs_last_obj := Some 0,
     cs_placed := [\<lparr>pl_object_offset = 0, pl_target_offset = 48, pl_length = 8, pl_parent = None, pl_parent_offset = 0\<rparr>]\<rparr>"

lemma run_ptr: "copy_objects (script 3) ptr_args 0 1 ptr_start None s [1, 2, 3, 4, 5, 6, 7, 8] = Some (Inr (ptr_done, None), s, [])"
  by (simp add: ptr_args_def ptr_start_def ptr_done_def ptr_image_def copy_objects.simps object_kind_def usize_add_def
    copy_object_def copy_ptr_object_def object_size_def uapi_consts field_defs slice_def sizes_values usize_sub_def
     
     buffer_object_decode_def buffer_object_encode_def write_simps
     read_user_def script_def u64_add_def align8_def fixup_parent_def put_slice_def splice_def u32_le_def u64_le_def push_shadow_def le_put_def)

lemma ptr_start_ok: "copy_ok 48 ptr_start" "ca_data_size ptr_args \<le> 48"
  by (simp_all add: copy_ok_def placed_ok_def ptr_start_def ptr_args_def)

text \<open>Property C12. While the objects of a transaction are translated, the bytes of the data before the object at
  hand, which are translated already, and everything from the end of the data to the scatter-gather area, the
  offsets included, stay as they are: no object can change what was checked before it.\<close>

theorem translated_bytes_final:
  assumes "copy_objects G A index n C sh s g = Some (Inr (C', sh'), s', g')" "copy_ok lo C" "ca_data_size A \<le> lo"
    "j < length (cs_image C)" "j < cs_off_min C \<or> ca_data_size A \<le> j \<and> j < lo"
  shows "length (cs_image C') = length (cs_image C) \<and> cs_image C' ! j = cs_image C ! j"
  using copy_objects_ok [OF assms(1-3)] assms(4,5) by (auto simp: same_outside_def)

theorem translated_bytes_final_witness:
  "copy_objects (script 3) ptr_args 0 1 ptr_start None held_state [1, 2, 3, 4, 5, 6, 7, 8] =
     Some (Inr (ptr_done, None), held_state, []) \<and> cs_image ptr_done ! 47 = cs_image ptr_start ! 47"
  using translated_bytes_final [OF run_ptr ptr_start_ok, where j = 47] run_ptr [of held_state]
  by (simp add: ptr_args_def ptr_start_def ptr_image_def)

text \<open>Property C26. The check of a pointer fixup, which walks from the last buffer up to the parent, returns for
  every state that the translation of any objects gives, whatever parents the sender names.\<close>

theorem fixup_check_returns:
  assumes "copy_objects G A index n C sh s g = Some (Inr (C', sh'), s', g')" "cs_placed C = []" "cs_last_obj C = None"
    "ca_data_size A \<le> cs_sg_cursor C" "find_parent A i par C' = Some (Some k)"
  shows "\<exists>ok. validate_fixup (cs_placed C') k offset (cs_last_obj C') (cs_last_min C') = Some ok"
proof -
  have "copy_ok (cs_sg_cursor C) C" using assms(2,3) by (simp add: copy_ok_def placed_ok_def)
  from copy_objects_ok [OF assms(1) this assms(4)] have ok: "copy_ok (cs_sg_cursor C) C'" by simp
  show ?thesis
  proof (cases "cs_last_obj C'")
    case (Some cursor)
    with ok have "placed_ok (cs_sg_cursor C) (cs_sg_cursor C') (cs_placed C')" "cursor < length (cs_placed C')"
      by (simp_all add: copy_ok_def)
    from validate_walk_returns [OF this find_parent_less [OF assms(5)]] Some show ?thesis
      by (simp add: validate_fixup_def)
  qed (auto simp: validate_fixup_def)
qed

theorem fixup_check_returns_witness:
  "\<exists>ok. validate_fixup (cs_placed ptr_done) 0 0 (cs_last_obj ptr_done) (cs_last_min ptr_done) = Some ok"
proof (rule fixup_check_returns [OF run_ptr])
  show "find_parent ptr_args 1 0 ptr_done = Some (Some 0)"
    by (simp add: find_parent_def ptr_args_def ptr_done_def ptr_start_def field_defs slice_def)
qed (simp_all add: ptr_args_def ptr_start_def)

text \<open>An offset of \<open>0xfffffffffffffffc\<close> in a transaction is a multiple of four, and the end of the object it
  names does not fit a \<open>usize\<close>.\<close>

lemma object_offset_overflow: "object_kind A (2 ^ 64 - 4) C = None"
  by (simp add: object_kind_def usize_add_def)

section \<open>An object sent there and back\<close>

text \<open>The client sends an object of its own to the context manager, which sends it back.\<close>

definition sent_object :: "byte list" where
  "sent_object = [0x85, 0x2a, 0x62, 0x73, 0, 0, 0, 0, 64, 0, 0, 0, 0, 0, 0, 0, 65, 0, 0, 0, 0, 0, 0, 0]"

definition received_object :: "byte list" where
  "received_object = [0x85, 0x2a, 0x68, 0x73, 0, 0, 0, 0, 1, 0, 0, 0, 0, 0, 0, 0, 0, 0, 0, 0, 0, 0, 0, 0]"

definition flat_start :: "byte list \<Rightarrow> copy_state" where
  "flat_start img = \<lparr>cs_image = img, cs_off_min = 0, cs_sg_cursor = 32, cs_placed = [], cs_last_obj = None,
     cs_last_min = 0, cs_fixups = []\<rparr>"

definition back_args :: copy_args where
  "back_args = ptr_args\<lparr>ca_proc := 1, ca_tid := 10, ca_target := 3\<rparr>"

definition sent_result :: "((failure + copy_state \<times> shadow_kind \<times> node_id list) \<times> bstate \<times> unit) option" where
  "sent_result = copy_binder_object ptr_args BINDER_TYPE_BINDER 0 sent_object (flat_start sent_object) held_state ()"

lemmas flat_simps = flat_binder_object_decode_def flat_binder_object_encode_def field_defs slice_def splice_def
  put_slice_def put_flat_def le_put_def u32_le_def u64_le_def sizes_values copy_binder_object_def copy_handle_object_def
  shadow_binder_if_def record_object_def fbo_handle_def get_ref_def upd_buffer_def inc_node_def dequeue_node_work_def

lemmas sent_simps = sent_result_def sent_object_def received_object_def flat_start_def back_args_def ptr_args_def
  flat_simps uapi_consts state_simps table_simps ioctl_simps ref_simps write_simps call_simps new_node_def next_id_def node_new_def

lemma run_sent: "map_option fst sent_result = Some (Inr (flat_start received_object, SkOther, [4]))"
  by (simp add: sent_simps)

lemma run_back:
  "map_option fst (copy_handle_object back_args BINDER_TYPE_HANDLE 0 received_object (flat_start received_object)
     (fst (snd (the sent_result))) ()) = Some (Inr (flat_start sent_object, SkOther, []))"
  by (simp add: sent_simps)

theorem binder_returns_home_witness:
  "\<exists>s1 s2 C2 sk ns back. sent_result = Some (Inr (flat_start received_object, SkOther, [4]), s1, ()) \<and>
     copy_handle_object back_args BINDER_TYPE_HANDLE 0 received_object (flat_start received_object) s1 () =
       Some (Inr (C2, sk, ns), s2, ()) \<and>
     slice 0 24 (cs_image C2) = Some back \<and> flat_binder_object_decode back = flat_binder_object_decode sent_object"
proof -
  obtain s1 where s1: "sent_result = Some (Inr (flat_start received_object, SkOther, [4]), s1, ())"
    using run_sent by (cases sent_result) auto
  obtain s2 where s2: "copy_handle_object back_args BINDER_TYPE_HANDLE 0 received_object
      (flat_start received_object) s1 () = Some (Inr (flat_start sent_object, SkOther, []), s2, ())"
    using run_back [unfolded s1] by auto
  have ok: "refs_ok held_state" using refs_ok.reachable_keeps [OF reachable_held] by (simp add: held_def)
  let ?fp = "\<lparr>fbo_kind = BINDER_TYPE_BINDER, fbo_flags = 0, fbo_binder = 64, fbo_cookie = 65\<rparr>"
  have fp: "flat_binder_object_decode sent_object = Some ?fp" by (simp add: sent_simps)
  have h: "slice 0 24 (cs_image (flat_start received_object)) = Some received_object"
    "u32_at received_object 0 = Some BINDER_TYPE_HANDLE" by (simp_all add: sent_simps)
  have "ca_proc back_args = ca_target ptr_args" "ca_target back_args = ca_proc ptr_args"
    by (simp_all add: back_args_def ptr_args_def)
  from binder_returns_home [OF ok s1 [unfolded sent_result_def] fp _ _ h this s2] obtain ret where
    "slice 0 24 (cs_image (flat_start sent_object)) = Some ret" "flat_binder_object_decode ret = Some ?fp" by auto
  with s1 s2 fp show ?thesis by metis
qed

end
