(* ===== verification/Streams.thy ===== *)
theory Streams
  imports Objects
begin

unbundle bit_operations_syntax

text \<open>
  The two directions of \<open>BINDER_WRITE_READ\<close>: what a write consumes, what a read writes, when it sleeps,
  who wakes it, and that it returns.
\<close>

section \<open>The command stream\<close>









section \<open>What a read writes\<close>









text \<open>The room is computed by subtracting what is there from the size of the buffer. A buffer shorter than the
  leading \<open>BR_NOOP\<close> has less than that when there is work to deliver.\<close>

lemma short_read_underflow:
  assumes "mget (s_procs s) p = Some pr" "mget (p_threads pr) t = Some th" "t_todo th \<noteq> []" "capacity < 4"
  shows "read_pass G p t w 0 capacity (u32_le BR_NOOP) s g = None"
  using assms by (subst read_pass.simps) (simp add: usize_sub_def)

section \<open>Sleeping and waking\<close>



lemma wakes_upd_proc [simp]:
  "s_wakes (upd_proc p f s) = s_wakes s" "s_resumes (upd_proc p f s) = s_resumes s"
  "s_notifications (upd_proc p f s) = s_notifications s"
  by (simp_all add: upd_proc_def)





lemma thread_of_wakes [simp]:
  "thread_of (s\<lparr>s_wakes := w\<rparr>) p t = thread_of s p t" "thread_of (s\<lparr>s_resumes := r\<rparr>) p t = thread_of s p t"
  by (simp_all add: thread_of_def)

text \<open>Property C10. Work for a process with waiting threads wakes one of them: the first in the queue leaves it,
  and when the lock is given up its condition variable is signalled, or its continuation is run if it is
  parked.\<close>

theorem waiting_thread_woken:
  assumes "mget (s_procs s) p = Some pr" "p_waiting pr = t # ts" "thread_of s p t = Some th" "t \<notin> set ts"
    "unlock (wakeup_proc p s) = (eff, s')"
  shows "(case t_parked th of None \<Rightarrow> NotifyOne (t_wait th) | Some r \<Rightarrow> RunResume r) \<in> set eff \<and>
    map_option p_waiting (mget (s_procs s') p) = Some ts \<and> map_option t_parked (thread_of s' p t) = Some None"
  using assms
  by (auto simp: wakeup_proc_def select_thread_def wakeup_thread_def wake_thread_def wake_waiter_def unlock_def
      take_wakes_def deliver_wakes_def Let_def upd_thread_def mget_upd_proc thread_of_def filter_id_conv
      split: option.splits if_splits prod.splits)

theorem waiting_thread_woken_witness:
  "\<exists>eff s'. unlock (wakeup_proc 1 (called_state\<lparr>s_procs := [(1, mgr_proc\<lparr>p_waiting := [10]\<rparr>)]\<rparr>)) = (eff, s') \<and>
     NotifyOne 0 \<in> set eff"
proof -
  let ?s = "called_state\<lparr>s_procs := [(1, mgr_proc\<lparr>p_waiting := [10]\<rparr>)]\<rparr>"
  let ?th = "(thread_new 0)\<lparr>t_looper_need_return := False\<rparr>"
  obtain eff s' where run: "unlock (wakeup_proc 1 ?s) = (eff, s')" by (cases "unlock (wakeup_proc 1 ?s)")
  have s: "mget (s_procs ?s) 1 = Some (mgr_proc\<lparr>p_waiting := [10]\<rparr>)" "p_waiting (mgr_proc\<lparr>p_waiting := [10]\<rparr>) = 10 # []"
    "thread_of ?s 1 10 = Some ?th" "10 \<notin> set ([] :: tid list)"
    by (simp_all add: mget_def thread_of_def mgr_proc_def)
  from waiting_thread_woken [OF s run] run show ?thesis by (auto simp: thread_new_def)
qed

section \<open>A read returns\<close>

definition behind :: "proc_id \<Rightarrow> tid \<Rightarrow> (bstate \<times> bstate) set" where
  "behind p t = inv_image (less_than <*lex*> less_than) (\<lambda>s. (card (txn_ids s), queued p t s))"

lemma wf_behind: "wf (behind p t)"
  unfolding behind_def by (intro wf_inv_image wf_lex_prod wf_less_than)

lemma behind_trans: "(a, b) \<in> behind p t \<Longrightarrow> (b, c) \<in> behind p t \<Longrightarrow> (a, c) \<in> behind p t"
  by (auto simp: behind_def)

lemma item_behind:
  assumes "mget (s_procs s) p = Some pr" "mget (p_threads pr) t = Some th" "t_todo th \<noteq> [] \<or> p_todo pr \<noteq> []"
    "do_work G p t w out (pop_work p t (t_todo th \<noteq> []) s) g = Some (False, out', s', g')"
  shows "(s', s) \<in> behind p t"
  using pop_work_queued [OF assms(1-3)] do_work_progress [OF assms(4)] by (auto simp: behind_def)

lemma retry_behind:
  assumes "read_pass G p t w start capacity out s g = Some (Retry, out', s', g')"
  shows "s' = s \<or> (s', s) \<in> behind p t"
proof -
  have "case (Retry, out', s', g') of (pass, _, s', _) \<Rightarrow> pass = Retry \<longrightarrow> s' = s \<or> (s', s) \<in> behind p t"
    using assms
  proof (rule read_pass_rule [where P = "\<lambda>out s g (pass, _, s', _). pass = Retry \<longrightarrow> s' = s \<or> (s', s) \<in> behind p t"])
    fix out s g and pr :: bproc and th :: thread and g1 stop out1 s1 g2 and r :: "pass \<times> byte list \<times> bstate \<times> 'a"
    assume "mget (s_procs s) p = Some pr" "mget (p_threads pr) t = Some th" "t_todo th \<noteq> [] \<or> w \<and> p_todo pr \<noteq> []"
      "do_work G p t (hd (if t_todo th \<noteq> [] then t_todo th else p_todo pr)) out
        (pop_work p t (t_todo th \<noteq> []) s) g1 = Some (stop, out1, s1, g2)"
      and rest: "if stop then r = (PassDone, out1, s1, g2)
        else (case r of (pass, _, s', _) \<Rightarrow> pass = Retry \<longrightarrow> s' = s1 \<or> (s', s1) \<in> behind p t)"
    then have "\<not> stop \<Longrightarrow> (s1, s) \<in> behind p t" by (auto intro: item_behind)
    with rest show "case r of (pass, _, s', _) \<Rightarrow> pass = Retry \<longrightarrow> s' = s \<or> (s', s) \<in> behind p t"
      by (auto split: if_splits intro: behind_trans)
  qed auto
  then show ?thesis by simp
qed

text \<open>A thread that was told to look at its work list, and the list is empty.\<close>

definition spins :: "proc_id \<Rightarrow> tid \<Rightarrow> bstate \<Rightarrow> bool" where
  "spins p t s \<longleftrightarrow> (\<exists>th. thread_of s p t = Some th \<and> t_process_todo th \<and> t_todo th = [])"

lemma pass_behind:
  assumes "read_pass G p t w start capacity out s g = Some (Retry, out', s', g')" "has_work p t w s" "\<not> spins p t s"
  shows "(s', s) \<in> behind p t"
proof -
  from assms(1) obtain pr th where pr: "mget (s_procs s) p = Some pr" "mget (p_threads pr) t = Some th"
    by (subst (asm) read_pass.simps) (auto split: option.splits)
  show ?thesis
  proof (cases "t_todo th = [] \<and> (p_todo pr = [] \<or> \<not> w)")
    case True
    with assms(2,3) pr have "t_looper_need_return th" by (auto simp: has_work_def spins_def thread_of_def)
    with assms(1) pr True show ?thesis by (subst (asm) read_pass.simps) auto
  next
    case False
    let ?w = "hd (if t_todo th \<noteq> [] then t_todo th else p_todo pr)"
    from assms(1) pr False obtain out1 s1 g1 g2 where
      item: "do_work G p t ?w out (pop_work p t (t_todo th \<noteq> []) s) g1 = Some (False, out1, s1, g2)"
      and rest: "read_pass G p t w start capacity out1 s1 g2 = Some (Retry, out', s', g')"
      by (subst (asm) read_pass.simps)
        (auto simp: Let_def split: if_splits prod.splits elim!: bind_Some_elim)
    have "(s1, s) \<in> behind p t" using False by (intro item_behind [OF pr _ item]) auto
    with retry_behind [OF rest] show ?thesis by (auto intro: behind_trans)
  qed
qed

text \<open>Going round once: the pass wrote nothing and the read starts over.\<close>

inductive round :: "'g guest \<Rightarrow> proc_id \<Rightarrow> tid \<Rightarrow> nat \<Rightarrow> nat \<Rightarrow>
    bool \<times> bool \<times> byte list \<times> bstate \<times> 'g \<Rightarrow> bool \<times> bool \<times> byte list \<times> bstate \<times> 'g \<Rightarrow> bool"
  for G p t start capacity where
  "has_work p t w s \<Longrightarrow>
   read_pass G p t w start capacity out (clear_looper_waiting p t s) g = Some (Retry, out1, s1, g1) \<Longrightarrow>
   read_setup p t s1 = (Inr (w', n'), s2) \<Longrightarrow>
   round G p t start capacity (w, n, out, s, g) (w', n', out1, s2, g1)"

inductive_simps round_simps: "round G p t start capacity (w, n, out, s, g) c"

text \<open>Neither spinning nor a panic in the pass ahead.\<close>

definition sound_round :: "'g guest \<Rightarrow> proc_id \<Rightarrow> tid \<Rightarrow> nat \<Rightarrow> nat \<Rightarrow> bool \<times> bool \<times> byte list \<times> bstate \<times> 'g \<Rightarrow> bool" where
  "sound_round G p t start capacity = (\<lambda>(w, n, out, s, g). \<not> spins p t s \<and>
     (has_work p t w s \<longrightarrow> read_pass G p t w start capacity out (clear_looper_waiting p t s) g \<noteq> None))"

lemma clear_looper_frame [simp]:
  "has_work p t w (clear_looper_waiting p t s) = has_work p t w s" "spins p t (clear_looper_waiting p t s) = spins p t s"
  "txn_ids (clear_looper_waiting p t s) = txn_ids s" "queued p t (clear_looper_waiting p t s) = queued p t s"
  by (auto simp: clear_looper_waiting_def has_work_def spins_def txn_ids_def thread_of_def queued_def upd_thread_def
      mget_upd_proc split: option.splits elim!: bind_Some_elim)

lemma round_behind:
  assumes "round G p t start capacity (w, n, out, s, g) (w', n', out', s', g')" "\<not> spins p t s"
  shows "(s', s) \<in> behind p t"
proof -
  from assms(1) obtain s1 where "has_work p t w s" and
    pass: "read_pass G p t w start capacity out (clear_looper_waiting p t s) g = Some (Retry, out', s1, g')"
    and su: "read_setup p t s1 = (Inr (w', n'), s')"
    by (auto simp: round_simps)
  then have "(s1, clear_looper_waiting p t s) \<in> behind p t" using assms(2) by (intro pass_behind [OF pass]) auto
  moreover have "txn_ids s' = txn_ids s1" "queued p t s' = queued p t s1"
    using su by (auto simp: read_setup_def Let_def txn_ids_def queued_upd_thread split: if_splits)
  ultimately show ?thesis by (simp add: behind_def)
qed

text \<open>Property C11. A read returns: as long as the rounds it makes are sound, it ends, sleeps or fails after finitely
  many of them.\<close>

theorem read_returns:
  assumes "\<And>c. (round G p t start capacity)\<^sup>*\<^sup>* (w, n, out, s, g) c \<Longrightarrow> sound_round G p t start capacity c"
  shows "\<exists>r. read_loop G p t start capacity park w n out s g = Some r"
  using assms
proof (induction s arbitrary: w n out g rule: wf_induct_rule [OF wf_behind [of p t]])
  case (1 s)
  from 1(2) have here: "sound_round G p t start capacity (w, n, out, s, g)" by blast
  show ?case
  proof (cases "has_work p t w s \<and> thread_exists p t s")
    case True
    with here obtain pass out1 s1 g1 where
      pass: "read_pass G p t w start capacity out (clear_looper_waiting p t s) g = Some (pass, out1, s1, g1)"
      by (auto simp: sound_round_def)
    obtain res s2 where su: "read_setup p t s1 = (res, s2)" by (cases "read_setup p t s1")
    show ?thesis
    proof (cases "pass = Retry \<and> (\<exists>x. res = Inr x)")
      case True
      then obtain w' n' where res: "pass = Retry" "res = Inr (w', n')" by auto
      then have r: "round G p t start capacity (w, n, out, s, g) (w', n', out1, s2, g1)"
        using \<open>has_work p t w s \<and> thread_exists p t s\<close> pass su by (simp add: round_simps)
      have "\<exists>r. read_loop G p t start capacity park w' n' out1 s2 g1 = Some r"
        using 1(1) [OF round_behind [OF r]] 1(2) here converse_rtranclp_into_rtranclp [of "round G p t start capacity", OF r]
        by (auto simp: sound_round_def)
      with res pass su \<open>has_work p t w s \<and> thread_exists p t s\<close> show ?thesis
        by (subst read_loop.simps) (auto simp: thread_exists_def)
    next
      case False
      with pass su \<open>has_work p t w s \<and> thread_exists p t s\<close> show ?thesis
        by (subst read_loop.simps) (cases pass; cases res; auto simp: thread_exists_def)
    qed
  next
    case False
    then show ?thesis
      by (subst read_loop.simps) (auto simp: thread_exists_def has_work_def thread_of_def split: option.splits prod.splits)
  qed
qed

theorem read_returns_witness:
  "\<exists>r. read_loop (script 3) 3 30 0 256 None False False [12, 114, 0, 0] called_state [] = Some r"
proof (rule read_returns)
  have quietly: "\<not> has_work 3 30 False called_state" "\<not> spins 3 30 called_state"
    by (simp_all add: has_work_def spins_def thread_of_def called_state_def mget_def client_proc_def thread_new_def)
  fix c
  assume "(round (script 3) 3 30 0 256)\<^sup>*\<^sup>* (False, False, [12, 114, 0, 0], called_state, []) c"
  then have "c = (False, False, [12, 114, 0, 0], called_state, [])"
    by (rule converse_rtranclpE) (use quietly in \<open>auto simp: round_simps\<close>)
  with quietly show "sound_round (script 3) 3 30 0 256 c" by (simp add: sound_round_def)
qed

end
