(* ===== verification/Lifecycle.thy ===== *)
theory Lifecycle
  imports Streams
begin

unbundle bit_operations_syntax

text \<open>
  Processes coming and going: what a release leaves behind, who is told of a death, who may be the
  context manager, who may act for a caller, and how the failure of a call is reported.
\<close>

section \<open>Release\<close>

lemma lose_buffers_procs [simp]: "s_procs (lose_buffers bs s) = s_procs s"
  by (induction bs arbitrary: s) (auto simp: lose_buffers_def split: option.split)

lemma unlock_procs: "unlock s = (eff, s') \<Longrightarrow> s_procs s' = s_procs s \<and> s_nodes s' = s_nodes s"
  by (auto simp: unlock_def take_wakes_def)

lemma driver_release_gone: "driver_release ord p s = Some (eff, s') \<Longrightarrow> mget (s_procs s') p = None"
  by (auto simp: driver_release_def release_proc_def Let_def elim!: bind_Some_elim dest!: unlock_procs
      split: option.splits)

text \<open>Property C13. After a process is released nothing in the driver refers to it: it has no entry, no node counts it
  among its holders, and the tables of the others are still consistent.\<close>

theorem release_leaves_nothing:
  assumes "reachable G M" "driver_release ord p (m_state M) = Some (eff, s')"
  shows "mget (s_procs s') p = None \<and> (\<forall>n nd. mget (s_nodes s') n = Some nd \<longrightarrow> p \<notin> set (mkeys (n_refs nd))) \<and> refs_ok s'"
proof -
  have ok: "refs_ok s'" using refs_ok.driver_release [OF assms(2) refs_ok.reachable_keeps [OF assms(1)]] .
  have gone: "mget (s_procs s') p = None" by (rule driver_release_gone [OF assms(2)])
  have "p \<notin> set (mkeys (n_refs nd))" if "mget (s_nodes s') n = Some nd" for n nd
    using graph_okD(3) [OF refs_ok_graph [OF ok], of n "link_of nd" p] that gone by (auto simp: link_of_def)
  with ok gone show ?thesis by blast
qed

theorem release_leaves_nothing_witness:
  "\<exists>eff s'. driver_release id 3 (m_state (held [])) = Some (eff, s') \<and> mget (s_procs s') 3 = None"
proof -
  obtain eff s' where run: "driver_release id 3 (m_state (held [])) = Some (eff, s')"
    by (simp add: held_def driver_release_def release_proc_def state_simps table_simps ref_simps lock_simps ioctl_simps
      write_simps wake_waiter_def release_threads.simps thread_release_def release_work_def drop_manager_def release_nodes.simps
       cleanup_ref_def drop_queues_def dec_node_def dec_counts_def mdel_def)
  with release_leaves_nothing [OF reachable_held run] show ?thesis by blast
qed

section \<open>Death notifications\<close>

definition tables_of :: "bstate \<Rightarrow> proc_id \<Rightarrow> ((u32, bref) omap \<times> (node_id, u32) omap) option" where
  "tables_of s h = map_option (\<lambda>pr. (p_refs pr, p_by_node pr)) (mget (s_procs s) h)"

lemma tables_of_upd_proc:
  "(\<And>pr. p_refs (f pr) = p_refs pr) \<Longrightarrow> (\<And>pr. p_by_node (f pr) = p_by_node pr) \<Longrightarrow>
   tables_of (upd_proc p f s) h = tables_of s h"
  by (auto simp: tables_of_def mget_upd_proc option.map_comp comp_def)

lemma tables_of_queue: "(\<And>pr. still_proc (f pr) = still_proc pr) \<Longrightarrow> tables_of (upd_proc p f s) h = tables_of s h"
  using still_proc_fields(2,3) by (metis tables_of_upd_proc)

interpretation watch_frame: node_reply_closed "\<lambda>s. tables_of s h = X" for h X
  by unfold_locales (auto simp: tables_of_queue,
    auto simp: tables_of_upd_proc upd_thread_def upd_buffer_def, auto simp: tables_of_def)

interpretation holders_frame: reply_ops "\<lambda>s. map_option n_refs (mget (s_nodes s) n) = X" for n X
  by unfold_locales (auto simp: upd_node_def upd_txn_def upd_thread_def upd_buffer_def same_links_def option.map_comp comp_def)

text \<open>What a process queued for itself only grows while others are told.\<close>

definition told :: "proc_id \<Rightarrow> death_id \<Rightarrow> bstate \<Rightarrow> bool" where
  "told h d s \<longleftrightarrow> (\<exists>ws. queue_of s h = Some ws \<and> WDeath d \<in> set ws) \<and>
     map_option d_state (mget (s_deaths s) d) = Some DeadBinder"

lemma s_deaths_wakeup [simp]: "s_deaths (wakeup_proc p s) = s_deaths s"
  by (auto simp: wakeup_proc_def wakeup_thread_def wake_thread_def wake_waiter_def select_thread_def upd_thread_def
      upd_proc_def Let_def split: option.split list.split prod.split)

lemma notify_holder_shape:
  assumes "notify_holder n k s = Some s'"
  shows "s' = s \<or> (\<exists>d. s' = wakeup_proc k (enqueue_proc_work k (WDeath d)
    (upd_death d (\<lambda>de. de\<lparr>d_state := DeadBinder, d_location := Some (Queued (ProcList k))\<rparr>) s)))"
  using assms by (auto simp: notify_holder_def Let_def elim!: bind_Some_elim split: option.splits)

lemma upd_death_facts [simp]:
  "queue_of (upd_death d f s) q = queue_of s q" "s_deaths (upd_death d f s) = mmod d f (s_deaths s)"
  "s_deaths (enqueue_proc_work k w s) = s_deaths s"
  by (simp_all add: queue_of_def upd_death_def enqueue_proc_work_def upd_proc_def)

lemma told_notify: "notify_holder n k s = Some s' \<Longrightarrow> told h d s \<Longrightarrow> told h d s'"
proof -
  have q: "queue_of (enqueue_proc_work k w s) h =
      (if h = k then map_option (\<lambda>ws. ws @ [w]) (queue_of s h) else queue_of s h)" for w s
    by (auto simp: enqueue_proc_work_def queue_of_def mget_upd_proc option.map_comp comp_def)
  show "notify_holder n k s = Some s' \<Longrightarrow> told h d s \<Longrightarrow> told h d s'"
    by (drule notify_holder_shape) (auto simp: told_def q option.map_comp comp_def)
qed

lemma notify_holder_tells:
  assumes "notify_holder n h s = Some s'" "tables_of s h = Some (refs, by_node)" "mget by_node n = Some e"
    "mget refs e = Some r" "r_death r = Some d"
  shows "told h d s'"
  using assms
  by (auto simp: notify_holder_def tables_of_def told_def Let_def elim!: bind_Some_elim)
    (auto simp: queue_of_def)

lemma notify_holders_tell:
  assumes "notify_holders n hs s = Some s'" "tables_of s h = Some (refs, by_node)" "mget by_node n = Some e"
    "mget refs e = Some r" "r_death r = Some d" "h \<in> set hs \<or> told h d s"
  shows "told h d s'"
  using assms(1,2,6)
proof (induction hs arbitrary: s)
  case (Cons k hs)
  from Cons.prems(1) obtain s1 where k: "notify_holder n k s = Some s1" "notify_holders n hs s1 = Some s'"
    by (auto elim!: bind_Some_elim)
  have tables: "tables_of s1 h = Some (refs, by_node)" using watch_frame.notify_holder [OF k(1) Cons.prems(2)] .
  have "h \<in> set hs \<or> told h d s1"
    using Cons.prems(3) notify_holder_tells [OF _ Cons.prems(2) assms(3-5)] told_notify [OF k(1)] k(1) by auto
  then show ?case by (rule Cons.IH [OF k(2) tables])
qed simp

text \<open>Property C14. When the owner of a node goes away, every process that asked to be told of it through one of its
  handles is told: the notification is in its work queue and marked as due.\<close>

theorem death_is_told:
  assumes "refs_ok s" "node_release n s = Some s'" "ref_of s h e = Some r" "r_node r = n" "r_death r = Some d"
  shows "told h d s'"
proof -
  obtain pr nd where pr: "mget (s_procs s) h = Some pr" "mget (p_refs pr) e = Some r" "mget (p_by_node pr) n = Some e"
    and nd: "mget (s_nodes s) n = Some nd" "h \<in> set (mkeys (n_refs nd))"
    using ref_facts [OF assms(1,3)] unfolding assms(4) by metis
  let ?s = "release_work (map WTransaction (n_async_todo nd))
    (upd_node n (\<lambda>nd. nd\<lparr>n_async_todo := [], n_work_queued := None\<rparr>) s)"
  have tables: "tables_of ?s h = Some (p_refs pr, p_by_node pr)"
    by (rule watch_frame.release_work, rule watch_frame.node) (simp add: tables_of_def pr)
  have "map_option n_refs (mget (s_nodes ?s) n) = Some (n_refs nd)"
    by (rule holders_frame.release_work) (simp add: upd_node_def nd)
  then obtain nd' where nd': "mget (s_nodes ?s) n = Some nd'" "n_refs nd' = n_refs nd" by auto
  let ?s2 = "upd_node n (\<lambda>nd. nd\<lparr>n_proc := None, n_local_strong := 0, n_local_weak := 0\<rparr>) ?s"
  have "notify_holders n (mkeys (n_refs nd)) ?s2 = Some s'"
    using assms(2) nd nd' by (auto simp: node_release_def Let_def cong: if_cong split: if_splits)
  moreover have "tables_of ?s2 h = Some (p_refs pr, p_by_node pr)" by (rule watch_frame.node [OF tables])
  ultimately show ?thesis using notify_holders_tell [OF _ _ pr(3,2) assms(5)] nd(2) by blast
qed

text \<open>The client asks to be told when the context manager goes.\<close>

definition request_bytes :: "byte list" where
  "request_bytes = [14, 99, 12, 64, 0, 0, 0, 0, 77, 0, 0, 0, 0, 0, 0, 0]"

definition watched :: "byte list machine" where
  "watched = after_ioctl script 3 30 BINDER_WRITE_READ (write_arg 16) (held request_bytes)"

lemmas watch_simps = watched_def held_def request_bytes_def state_simps table_simps lock_simps ioctl_simps write_simps
  ref_simps u32_inc_def death_command_def request_death_def next_id_def u64_inc_def upd_ref_def with_state_def thread_write.simps

lemma reachable_watched: "reachable script watched"
  unfolding watched_def by (intro reachable_after reachable_held)

lemma watched_ref: "ref_of (m_state watched) 3 0 = Some \<lparr>r_node = 2, r_strong = 1, r_weak = 0, r_death = Some 4\<rparr>"
  by (simp add: watch_simps)

lemma watched_release: "\<exists>s'. node_release 2 (m_state watched) = Some s'"
  by (simp add: watch_simps node_release_def release_work_def notify_holders.simps notify_holder_def upd_death_def
    enqueue_proc_work_def wakeup_proc_def select_thread_def wakeup_thread_def)

theorem death_is_told_witness:
  "\<exists>s'. node_release 2 (m_state watched) = Some s' \<and> told 3 4 s'"
proof -
  from watched_release obtain s' where s': "node_release 2 (m_state watched) = Some s'" by blast
  with death_is_told [OF refs_ok.reachable_keeps [OF reachable_watched] s' watched_ref] show ?thesis by simp
qed

section \<open>The context manager\<close>


lemma context_at_frame [simp]:
  "context_at (upd_node n f s) c = context_at s c" "context_at (upd_proc p h s) c = context_at s c"
  by (simp_all add: context_at_def upd_node_def upd_proc_def)




section \<open>Acting for a caller\<close>

text \<open>Property C28. A call is forwarded under its caller's identity only by a system process, only from the thread that is
  serving that caller's call, and the borrowed identity is gone afterwards.\<close>

theorem forwarding_guarded:
  assumes "forward_inbound_transaction G p t inbound tr s g = Some (Inr (), eff, s', g')"
  shows "(\<exists>pr th x tx off a. mget (s_procs s) p = Some pr \<and> cr_euid (p_creds pr) = 1000 \<and> mget (p_threads pr) t = Some th \<and>
      t_stack th = Some x \<and> mget (s_txns s) x = Some tx \<and> x_to_proc tx = Some p \<and> x_to_thread tx = Some t \<and> \<not> is_oneway tx \<and>
      x_buffer tx = Some off \<and> p_alloc pr = Some a \<and> inbound = vm_start a + of_nat off) \<and>
    map_option t_forwarded (thread_of s' p t) = Some None"
proof -
  from assms obtain sender s1 g1 where who: "inbound_sender p t inbound s = Inr sender"
    and eff: "unlock (upd_thread p t (\<lambda>th. th\<lparr>t_forwarded := None\<rparr>) s1) = (eff, s')" "thread_of s1 p t \<noteq> None"
    by (auto simp: forward_inbound_transaction_def Let_def elim!: bind_Some_elim split: if_splits sum.splits prod.splits)
  have "thread_of s' p t = map_option (\<lambda>th. th\<lparr>t_forwarded := None\<rparr>) (thread_of s1 p t)"
    using eff(1) by (auto simp: unlock_def take_wakes_def thread_of_def upd_thread_def mget_upd_proc bind_map_option
        split: bind_splits)
  with eff(2) have "map_option t_forwarded (thread_of s' p t) = Some None" by auto
  moreover have "\<exists>pr th x tx off a. mget (s_procs s) p = Some pr \<and> cr_euid (p_creds pr) = 1000 \<and> mget (p_threads pr) t = Some th \<and>
      t_stack th = Some x \<and> mget (s_txns s) x = Some tx \<and> x_to_proc tx = Some p \<and> x_to_thread tx = Some t \<and> \<not> is_oneway tx \<and>
      x_buffer tx = Some off \<and> p_alloc pr = Some a \<and> inbound = vm_start a + of_nat off"
    using who by (auto simp: inbound_sender_def u64_add_def elim!: bind_Some_elim split: option.splits if_splits)
  ultimately show ?thesis by blast
qed

definition serving_state :: bstate where
  "serving_state = called_state\<lparr>
     s_procs := mmod 1 (\<lambda>pr. pr\<lparr>p_creds := root_creds\<lparr>cr_euid := 1000\<rparr>,
       p_threads := [(10, (thread_new 0)\<lparr>t_looper_need_return := False, t_stack := Some 5\<rparr>)]\<rparr>) (s_procs called_state),
     s_txns := [(5, called_txn\<lparr>x_to_thread := Some 10\<rparr>)]\<rparr>"

theorem forwarding_guarded_witness:
  "\<exists>eff s'. forward_inbound_transaction (script 1) 1 10 4096 transaction_data_default serving_state [] = Some (Inr (), eff, s', []) \<and>
     map_option t_forwarded (thread_of s' 1 10) = Some None"
proof -
  obtain eff s' where run: "forward_inbound_transaction (script 1) 1 10 4096 transaction_data_default serving_state [] =
      Some (Inr (), eff, s', [])"
    by (simp add: forward_inbound_transaction_def inbound_sender_def serving_state_def called_state_def called_txn_def
      transaction_data_default_def
      state_simps table_simps lock_simps ioctl_simps write_simps call_simps abort_simps uapi_consts)
  with forwarding_guarded [OF run] show ?thesis by blast
qed

section \<open>Errors of a call\<close>

text \<open>Reading a thread's extended error gives what the last transaction left there, once: the next read gives
  no error.\<close>

lemma extended_error_once:
  assumes "get_extended_error p t arg s = Some (arg1, s1)" "thread_of s p t = Some th" "length arg = 12"
    "get_extended_error p t arg s1 = Some (arg2, s2)"
  shows "u32_at arg1 0 = Some (ee_id (t_ee th)) \<and> u32_at arg1 4 = Some (ee_command (t_ee th)) \<and>
    i32_at arg1 8 = Some (ee_param (t_ee th)) \<and>
    u32_at arg2 0 = Some 0 \<and> u32_at arg2 4 = Some BR_OK \<and> i32_at arg2 8 = Some 0"
  using assms
  by (auto simp: get_extended_error_def Let_def set_ee_def put_u32_def put_i32_def put_slice_Some u32_at_def i32_at_def slice_splices
     elim!: bind_Some_elim)

theorem extended_error_once_witness:
  "\<exists>arg1 s1 arg2 s2. get_extended_error 3 30 (replicate 12 0) called_state = Some (arg1, s1) \<and> u32_at arg1 0 = Some 4 \<and>
     get_extended_error 3 30 (replicate 12 0) s1 = Some (arg2, s2) \<and> u32_at arg2 0 = Some 0"
proof -
  let ?r = "the (get_extended_error 3 30 (replicate 12 0) called_state)"
  let ?th = "(thread_new 1)\<lparr>t_looper_need_return := False, t_todo := [WTransactionComplete],
           t_stack := Some 5, t_ee := \<lparr>ee_id = 4, ee_command = BR_OK, ee_param = 0\<rparr>\<rparr>"
  have r1: "get_extended_error 3 30 (replicate 12 0) called_state = Some (fst ?r, snd ?r)"
    by (simp add: get_extended_error_def called_state_def state_simps table_simps put_eqs set_ee_def)
  obtain arg2 s2 where r2: "get_extended_error 3 30 (replicate 12 0) (snd ?r) = Some (arg2, s2)"
    by (simp add: get_extended_error_def called_state_def state_simps table_simps put_eqs set_ee_def)
  have th: "thread_of called_state 3 30 = Some ?th" by (simp add: called_state_def thread_of_def mget_def client_proc_def)
  have "u32_at (fst ?r) 0 = Some 4" "u32_at arg2 0 = Some 0" using extended_error_once [OF r1 th _ r2] by simp_all
  with r1 r2 show ?thesis by blast
qed

lemma thread_of_wake_thread:
  "thread_of (wake_thread p t s) p t = map_option (\<lambda>th. th\<lparr>t_parked := None\<rparr>) (thread_of s p t)"
  by (auto simp: wake_thread_def wake_waiter_def upd_thread_def upd_proc_def thread_of_def Let_def
      split: option.splits prod.splits bind_splits)

text \<open>Property C30. A call that fails says why: its thread has the error to read, at the end of its work list, and its
  extended error names the transaction, the return command and the reason.\<close>

theorem failed_call_reported:
  assumes "next_id s = Some (i, s0)"
    "transaction_inner G p t tr False extra (upd_thread p t (set_ee (of_nat i) BR_OK 0) s0) g = Some (Inl f, None, s1, g1)"
    "thread_of s1 p t = Some th"
  shows "\<exists>s' th'. transaction G p t tr False extra s g = Some (s', g1) \<and> thread_of s' p t = Some th' \<and>
    t_return_error th' = Some (fl_cmd f) \<and> t_todo th' = t_todo th @ [WReturnError (fl_cmd f) ReturnSlot] \<and>
    t_ee th' = \<lparr>ee_id = of_nat i, ee_command = fl_cmd f, ee_param = fl_param f\<rparr>"
  using assms
  by (auto simp: transaction_def Let_def enqueue_thread_work_def thread_exists_def thread_of_wake_thread set_ee_def)

theorem failed_call_reported_witness:
  "\<exists>s' th'. transaction (script 3) 3 30 (transaction_data_default\<lparr>td_target := 9\<rparr>) False 0 held_state [] = Some (s', []) \<and>
     thread_of s' 3 30 = Some th' \<and> t_return_error th' = Some BR_FAILED_REPLY"
proof -
  let ?s0 = "held_state\<lparr>s_next_id := 4\<rparr>"
  have i: "next_id held_state = Some (4, ?s0)" by (simp add: next_id_def u64_inc_def held_state_def run_state_def)
  let ?s1 = "upd_thread 3 30 (set_ee (of_nat 4) BR_OK 0) ?s0"
  have inner: "transaction_inner (script 3) 3 30 (transaction_data_default\<lparr>td_target := 9\<rparr>) False 0 ?s1 [] =
      Some (Inl (fail BR_FAILED_REPLY EINVAL), None, ?s1, [])"
    by (simp add: transaction_data_default_def state_simps table_simps call_simps uapi_consts)
  obtain th where th: "thread_of ?s1 3 30 = Some th" by (simp add: state_simps table_simps)
  from failed_call_reported [OF i inner th] show ?thesis by (auto simp: fail_def)
qed

text \<open>Property C29. A call to a node whose owner is gone fails with a dead reply, and a process cannot call its own
  node; a call that finds its target has the owner of that node as the target and keeps the node alive by
  one more strong reference.\<close>

theorem call_finds_owner:
  assumes "call_node p handle s = Some (Inr n)" "mget (s_nodes s) n = Some nd"
    "call_target p t handle oneway s = Some (res, s')"
  shows "(n_proc nd = None \<longrightarrow> res = Inl (fail BR_DEAD_REPLY EINVAL)) \<and>
    (n_proc nd = Some p \<longrightarrow> res = Inl (fail BR_FAILED_REPLY EINVAL)) \<and>
    (\<forall>owner tt m. res = Inr (owner, tt, m) \<longrightarrow> m = n \<and> n_proc nd = Some owner \<and> owner \<noteq> p \<and>
       map_option n_local_strong (mget (s_nodes s') n) = Some (n_local_strong nd + 1))"
proof -
  have "res = Inr () \<and> map_option n_local_strong (mget (s_nodes s1) n) = Some (n_local_strong nd + 1)"
    if "inc_node n True False None s = Some (res, s1)" for res s1
    using that assms(2) by (auto simp: inc_node_def upd_node_def elim!: bind_Some_elim)
  then show ?thesis
    using assms
    by (auto simp: call_target_def elim!: bind_Some_elim split: if_splits option.splits sum.splits)
qed

theorem call_finds_owner_witness:
  "\<exists>s'. call_target 3 30 0 False held_state = Some (Inr (1, None, 2), s') \<and>
     map_option n_local_strong (mget (s_nodes s') 2) = Some 2"
proof -
  obtain s' where run: "call_target 3 30 0 False held_state = Some (Inr (1, None, 2), s')"
    by (simp add: state_simps table_simps call_simps u32_inc_def)
  have n: "call_node 3 0 held_state = Some (Inr 2)" by (simp add: state_simps table_simps call_simps)
  have nd: "mget (s_nodes held_state) 2 = Some (mgr_node\<lparr>n_internal_strong := 1, n_refs := [(3, ())]\<rparr>)"
    by (simp add: held_state_def mget_def)
  from call_finds_owner [OF n nd run] run show ?thesis by (auto simp: mgr_node_def)
qed

end
