(* ===== verification/Watching.thy ===== *)
theory Watching
  imports Shadow
begin

text \<open>
  The two observers of the driver: a traced call is recorded once, with its times in order, and the
  channels of the shadow copies are bounded and get one copy per call.
\<close>

section \<open>Traces\<close>

text \<open>Property C39. A traced call that is delivered, answered and read makes one record, complete and with its times in
  order, and leaves nothing pending.\<close>

theorem call_traced:
  assumes "mget (tr_pending t) x = None" "mget (tr_returning t) y = None" "\<not> tc_oneway r"
    "sent \<le> delivered" "delivered \<le> replied" "replied \<le> returned"
    "t' = trace_returned returned y (trace_replied replied x y parent (trace_delivered delivered x tid (trace_sent_at sent x r t)))"
  shows "\<exists>rec d l b. tr_done t' = tr_done t @ [rec] \<and> tc_transaction_id rec = x \<and> tc_to_tid rec = tid \<and>
    tc_delivered rec = Some d \<and> tc_latency rec = Some l \<and> tc_returned rec = Some b \<and> d \<le> l \<and> l \<le> b \<and>
    mget (tr_pending t') x = None \<and> mget (tr_returning t') y = None"
  using assms(3-6) unfolding assms(7)
  by (simp add: trace_sent_at_def trace_delivered_def trace_replied_def trace_returned_def Let_def) linarith

theorem call_traced_witness:
  "tr_done (trace_returned 9 6 (trace_replied 7 5 6 None (trace_delivered 4 5 10 (trace_sent_at 2 5 trace_record_default
     (trace_new 0))))) \<noteq> []"
  using call_traced [of "trace_new 0" 5 6 trace_record_default 2 4 7 9 _ None 10, OF _ _ _ _ _ _ refl]
  by (auto simp: trace_new_def trace_record_default_def)

section \<open>Shadow copies\<close>

definition bounded_channel :: "shadow_channel \<Rightarrow> bool" where
  "bounded_channel ch \<longleftrightarrow> length (ch_copies ch) \<le> ch_capacity ch"

definition channels_ok :: "shadow \<Rightarrow> bool" where
  "channels_ok sh \<longleftrightarrow> (\<forall>sink ch. mget (sh_sinks sh) sink = Some ch \<longrightarrow> bounded_channel ch)"



lemma channels_ok_cong [simp]:
  "channels_ok (sh\<lparr>sh_pending := ps\<rparr>) = channels_ok sh" "channels_ok (sh\<lparr>sh_watched := ws\<rparr>) = channels_ok sh"
  "channels_ok (sh\<lparr>sh_next_seq := q\<rparr>) = channels_ok sh"
  by (simp_all add: channels_ok_def)




text \<open>A watched call is copied once: when it is answered or fails the sink gets one copy of it, and failing
  it again, as freeing the transaction does, sends nothing.\<close>

lemma shadow_copies_once:
  "shadow_failed x (shadow_replied x flags parcel own sh) = shadow_replied x flags parcel own sh \<and>
   shadow_failed x (shadow_failed x sh) = shadow_failed x sh \<and>
   shadow_replied x flags parcel own (shadow_failed x sh) = shadow_failed x sh"
  by (auto simp: shadow_failed_def shadow_replied_def sink_send_def Let_def split: option.split)

end
