(* ===== verification/Utf.thy ===== *)
theory Utf
  imports Prelude
begin

text \<open>
  Strings of the binary XML format (\<open>decode_utf\<close> and \<open>encode_utf\<close> of
  \<^verbatim>\<open>src/crates/aim-android-xml/src/abx.rs\<close>). A Rust \<open>char\<close> is the number of its Unicode scalar
  value and a \<open>String\<close> the list of them; that they are scalar values (\<open>scalar\<close>) is a property of
  such a list, shown of everything the code makes. \<open>encode_utf8\<close>, \<open>encode_utf16\<close> and
  \<open>from_utf16\<close> are the functions of the standard library.
\<close>

type_synonym uchar = nat
type_synonym rstr = "uchar list"

section \<open>Unicode in the standard library\<close>

definition scalar :: "uchar \<Rightarrow> bool" where
  "scalar c \<longleftrightarrow> c < 0xD800 \<or> 0xE000 \<le> c \<and> c < 0x110000"

definition char_from_u32 :: "nat \<Rightarrow> uchar option" where
  "char_from_u32 n = (if scalar n then Some n else None)"

definition encode_utf8 :: "uchar \<Rightarrow> byte list" where
  "encode_utf8 c =
     (if c < 0x80 then [of_nat c]
      else if c < 0x800 then [of_nat (0xC0 + c div 0x40), of_nat (0x80 + c mod 0x40)]
      else if c < 0x10000
        then [of_nat (0xE0 + c div 0x1000), of_nat (0x80 + c div 0x40 mod 0x40),
              of_nat (0x80 + c mod 0x40)]
      else [of_nat (0xF0 + c div 0x40000), of_nat (0x80 + c div 0x1000 mod 0x40),
            of_nat (0x80 + c div 0x40 mod 0x40), of_nat (0x80 + c mod 0x40)])"

definition encode_utf16 :: "uchar \<Rightarrow> nat list" where
  "encode_utf16 c =
     (if c < 0x10000 then [c]
      else [0xD800 + (c - 0x10000) div 0x400, 0xDC00 + (c - 0x10000) mod 0x400])"

abbreviation high_surrogate :: "nat \<Rightarrow> bool" where
  "high_surrogate u \<equiv> 0xD800 \<le> u \<and> u < 0xDC00"

abbreviation low_surrogate :: "nat \<Rightarrow> bool" where
  "low_surrogate u \<equiv> 0xDC00 \<le> u \<and> u < 0xE000"

fun from_utf16 :: "nat list \<Rightarrow> rstr option" where
  "from_utf16 [] = Some []"
| "from_utf16 [u] = (if high_surrogate u \<or> low_surrogate u then None else Some [u])"
| "from_utf16 (u # v # us) =
     (if high_surrogate u then
        if low_surrogate v then
          map_option ((#) (0x10000 + (u - 0xD800) * 0x400 + (v - 0xDC00))) (from_utf16 us)
        else None
      else if low_surrogate u then None
      else map_option ((#) u) (from_utf16 (v # us)))"

section \<open>The string encoding\<close>

text \<open>\<open>cont_byte b j\<close> is the closure \<open>cont\<close>: the six bits of a continuation byte at \<open>j\<close>.\<close>

definition cont_byte :: "byte list \<Rightarrow> nat \<Rightarrow> nat option" where
  "cont_byte b j =
     (if j < length b \<and> (b ! j) AND 0xC0 = 0x80 then Some (unat ((b ! j) AND 0x3F)) else None)"

text \<open>
  One turn of the loop of \<open>decode_utf\<close>: the UTF-16 units of the sequence at the head of the list,
  and how many bytes it has.
\<close>

definition decode_one :: "byte list \<Rightarrow> (nat list \<times> nat) option" where
  "decode_one b =
     (let c = b ! 0 in
      if 0xF0 \<le> c \<and> c \<le> 0xF4 then do {
        c1 \<leftarrow> cont_byte b 1;
        c2 \<leftarrow> cont_byte b 2;
        c3 \<leftarrow> cont_byte b 3;
        ch \<leftarrow> char_from_u32 (push_bit 18 (unat (c AND 7)) OR push_bit 12 c1 OR push_bit 6 c2 OR c3);
        if 0x10000 \<le> ch then Some (encode_utf16 ch, 4) else None
      }
      else if 0x01 \<le> c \<and> c \<le> 0x7F then Some ([unat c], 1)
      else if 0xC0 \<le> c \<and> c \<le> 0xDF then do {
        c1 \<leftarrow> cont_byte b 1;
        Some ([push_bit 6 (unat (c AND 0x1F)) OR c1], 2)
      }
      else if 0xE0 \<le> c \<and> c \<le> 0xEF then do {
        c1 \<leftarrow> cont_byte b 1;
        c2 \<leftarrow> cont_byte b 2;
        Some ([push_bit 12 (unat (c AND 0x0F)) OR push_bit 6 c1 OR c2], 3)
      }
      else None)"

lemma cont_byte_bound: "cont_byte b j = Some c \<Longrightarrow> j < length b"
  by (auto simp: cont_byte_def split: if_splits)

lemma decode_one_length: "b \<noteq> [] \<Longrightarrow> decode_one b = Some (us, n) \<Longrightarrow> 0 < n \<and> n \<le> length b"
  by (auto simp: decode_one_def Let_def Suc_le_eq dest!: cont_byte_bound
      elim!: bind_Some_elim split: if_splits)

function decode_units :: "byte list \<Rightarrow> nat list option" where
  "decode_units b =
     (if b = [] then Some []
      else case decode_one b of
        None \<Rightarrow> None
      | Some (us, n) \<Rightarrow> map_option ((@) us) (decode_units (drop n b)))"
  by auto

termination
  by (relation "measure length") (auto dest: decode_one_length)

declare decode_units.simps [simp del]

definition decode_utf :: "byte list \<Rightarrow> rstr option" where
  "decode_utf b = Option.bind (decode_units b) from_utf16"

definition encode_char :: "uchar \<Rightarrow> byte list" where
  "encode_char c = (if c = 0 then [0xC0, 0x80] else encode_utf8 c)"

definition encode_utf :: "rstr \<Rightarrow> byte list" where
  "encode_utf s = concat (map encode_char s)"

section \<open>Arithmetic of the encoding\<close>

lemma push_or_add: "b < 2 ^ k \<Longrightarrow> push_bit k a OR b = a * 2 ^ k + (b :: nat)"
proof -
  assume "b < 2 ^ k"
  then have b: "take_bit k b = b" by (simp add: take_bit_nat_eq_self_iff)
  have "push_bit k a AND take_bit k b = 0"
    by (rule bit_eqI) (auto simp: bit_simps)
  then have "push_bit k a AND b = 0" by (simp add: b)
  then show ?thesis by (simp add: disjunctive_add_eq_or [symmetric] push_bit_eq_mult)
qed

lemma unat_byte: "n < 256 \<Longrightarrow> unat (of_nat n :: byte) = n"
  by (simp add: unat_of_nat)

lemma cont_bits: "x < 64 \<Longrightarrow>
    (of_nat (0x80 + x) :: byte) AND 0xC0 = 0x80 \<and> unat ((of_nat (0x80 + x) :: byte) AND 0x3F) = x"
proof -
  have "\<forall>x\<in>set [0..<64]. (of_nat (0x80 + x) :: byte) AND 0xC0 = 0x80 \<and>
      unat ((of_nat (0x80 + x) :: byte) AND 0x3F) = x"
    by code_simp
  then show "x < 64 \<Longrightarrow> ?thesis" by simp
qed

lemma lead2_bits: "x < 32 \<Longrightarrow>
    0xC0 \<le> (of_nat (0xC0 + x) :: byte) \<and> (of_nat (0xC0 + x) :: byte) \<le> 0xDF \<and>
    unat ((of_nat (0xC0 + x) :: byte) AND 0x1F) = x"
proof -
  have "\<forall>x\<in>set [0..<32]. 0xC0 \<le> (of_nat (0xC0 + x) :: byte) \<and>
      (of_nat (0xC0 + x) :: byte) \<le> 0xDF \<and> unat ((of_nat (0xC0 + x) :: byte) AND 0x1F) = x"
    by code_simp
  then show "x < 32 \<Longrightarrow> ?thesis" by simp
qed

lemma lead3_bits: "x < 16 \<Longrightarrow>
    0xE0 \<le> (of_nat (0xE0 + x) :: byte) \<and> (of_nat (0xE0 + x) :: byte) \<le> 0xEF \<and>
    unat ((of_nat (0xE0 + x) :: byte) AND 0x0F) = x"
proof -
  have "\<forall>x\<in>set [0..<16]. 0xE0 \<le> (of_nat (0xE0 + x) :: byte) \<and>
      (of_nat (0xE0 + x) :: byte) \<le> 0xEF \<and> unat ((of_nat (0xE0 + x) :: byte) AND 0x0F) = x"
    by code_simp
  then show "x < 16 \<Longrightarrow> ?thesis" by simp
qed

lemma lead4_bits: "x < 5 \<Longrightarrow>
    0xF0 \<le> (of_nat (0xF0 + x) :: byte) \<and> (of_nat (0xF0 + x) :: byte) \<le> 0xF4 \<and>
    unat ((of_nat (0xF0 + x) :: byte) AND 7) = x"
proof -
  have "\<forall>x\<in>set [0..<5]. 0xF0 \<le> (of_nat (0xF0 + x) :: byte) \<and>
      (of_nat (0xF0 + x) :: byte) \<le> 0xF4 \<and> unat ((of_nat (0xF0 + x) :: byte) AND 7) = x"
    by code_simp
  then show "x < 5 \<Longrightarrow> ?thesis" by simp
qed

lemma unat_and_less: "unat (c AND m) \<le> unat (m :: byte)"
  by (metis and.commute word_and_le1 word_le_nat_alt)

lemma cont_byte_less: "cont_byte b j = Some c \<Longrightarrow> c < 64"
  using unat_and_less [of "b ! j" "0x3F"] by (auto simp: cont_byte_def split: if_splits)

lemma cont_byte_encoded: "j < length b \<Longrightarrow> b ! j = of_nat (0x80 + x) \<Longrightarrow> x < 64 \<Longrightarrow>
    cont_byte b j = Some x"
  using cont_bits [of x] by (simp add: cont_byte_def)

section \<open>Reading what was written\<close>

lemma digits3: "(c :: nat) = c div 0x1000 * 0x1000 + (c div 0x40 mod 0x40 * 0x40 + c mod 0x40)"
proof -
  have "c div 0x1000 = c div 0x40 div 0x40" by (simp add: div_mult2_eq [symmetric])
  then show ?thesis
    using div_mult_mod_eq [of c "0x40"] div_mult_mod_eq [of "c div 0x40" "0x40"] by linarith
qed

lemma digits4: "(c :: nat) = c div 0x40000 * 0x40000 + (c div 0x1000 mod 0x40 * 0x1000 +
    (c div 0x40 mod 0x40 * 0x40 + c mod 0x40))"
proof -
  have "c div 0x40000 = c div 0x1000 div 0x40" by (simp add: div_mult2_eq [symmetric])
  then show ?thesis
    using digits3 [of c] div_mult_mod_eq [of "c div 0x1000" "0x40"] by linarith
qed

lemma join4: "a2 < 64 \<Longrightarrow> a1 < 64 \<Longrightarrow> a0 < 64 \<Longrightarrow>
    push_bit 18 a3 OR push_bit 12 a2 OR push_bit 6 a1 OR a0 =
      a3 * 0x40000 + (a2 * 0x1000 + (a1 * 0x40 + (a0 :: nat)))"
  by (simp add: push_or_add or.assoc)

lemma join3: "a1 < 64 \<Longrightarrow> a0 < 64 \<Longrightarrow>
    push_bit 12 a2 OR push_bit 6 a1 OR a0 = a2 * 0x1000 + (a1 * 0x40 + (a0 :: nat))"
  by (simp add: push_or_add or.assoc)

lemma join2: "a0 < 64 \<Longrightarrow> push_bit 6 a1 OR a0 = a1 * 0x40 + (a0 :: nat)"
  by (simp add: push_or_add)

lemma decode_one_ascii:
  assumes "0 < c" "c < 0x80"
  shows "decode_one (of_nat c # b) = Some ([c], 1)"
proof -
  have "unat (of_nat c :: byte) = c" using assms by (simp add: unat_byte)
  then show ?thesis using assms by (simp add: decode_one_def word_le_nat_alt)
qed

lemma decode_one_2:
  assumes "h < 32" "l < 64"
  shows "decode_one (of_nat (0xC0 + h) # of_nat (0x80 + l) # b) = Some ([h * 0x40 + l], 2)"
proof -
  have "unat (of_nat (0xC0 + h) :: byte) = 0xC0 + h" using assms by (intro unat_byte) simp
  then have range: "\<not> (0xF0 :: byte) \<le> of_nat (0xC0 + h)" "\<not> of_nat (0xC0 + h) \<le> (0x7F :: byte)"
    using assms by (auto simp: word_le_nat_alt)
  have "cont_byte (of_nat (0xC0 + h) # of_nat (0x80 + l) # b) 1 = Some l"
    using assms(2) by (intro cont_byte_encoded) auto
  with range lead2_bits [OF assms(1)] assms(2) show ?thesis
    by (simp add: decode_one_def join2 del: of_nat_add)
qed

lemma decode_one_3:
  assumes "h < 16" "m < 64" "l < 64"
  shows "decode_one (of_nat (0xE0 + h) # of_nat (0x80 + m) # of_nat (0x80 + l) # b) =
    Some ([h * 0x1000 + (m * 0x40 + l)], 3)" (is "decode_one ?b = _")
proof -
  have "unat (of_nat (0xE0 + h) :: byte) = 0xE0 + h" using assms by (intro unat_byte) simp
  then have range: "\<not> (0xF0 :: byte) \<le> of_nat (0xE0 + h)" "\<not> of_nat (0xE0 + h) \<le> (0xDF :: byte)"
      "\<not> of_nat (0xE0 + h) \<le> (0x7F :: byte)"
    using assms by (auto simp: word_le_nat_alt)
  have "cont_byte ?b 1 = Some m" "cont_byte ?b 2 = Some l"
    using assms(2,3) by (auto intro!: cont_byte_encoded simp del: of_nat_add)
  with range lead3_bits [OF assms(1)] assms(2,3) show ?thesis
    by (simp add: decode_one_def join3 del: of_nat_add)
qed

lemma decode_one_4:
  assumes "h < 5" "m < 64" "n < 64" "l < 64"
    and c: "c = h * 0x40000 + (m * 0x1000 + (n * 0x40 + l))" "0x10000 \<le> c" "scalar c"
  shows "decode_one (of_nat (0xF0 + h) # of_nat (0x80 + m) # of_nat (0x80 + n) # of_nat (0x80 + l) # b)
    = Some (encode_utf16 c, 4)" (is "decode_one ?b = _")
proof -
  have "cont_byte ?b 1 = Some m" "cont_byte ?b 2 = Some n" "cont_byte ?b 3 = Some l"
    using assms(2-4) by (auto intro!: cont_byte_encoded simp: nth_Cons' simp del: of_nat_add)
  moreover have "char_from_u32 (push_bit 18 h OR push_bit 12 m OR push_bit 6 n OR l) = Some c"
    using assms(2-4) c by (simp add: join4 char_from_u32_def)
  ultimately show ?thesis using lead4_bits [OF assms(1)] c(2)
    by (simp add: decode_one_def del: of_nat_add)
qed

lemma decode_one_encoded:
  assumes "scalar c"
  shows "decode_one (encode_char c @ b) = Some (encode_utf16 c, length (encode_char c))"
proof -
  consider "c = 0" | "0 < c" "c < 0x80" | "0x80 \<le> c" "c < 0x800" | "0x800 \<le> c" "c < 0x10000"
    | "0x10000 \<le> c" "c < 0x110000"
    using assms unfolding scalar_def by linarith
  then show ?thesis
  proof cases
    case 1
    then show ?thesis using decode_one_2 [of 0 0 b] by (simp add: encode_char_def encode_utf16_def)
  next
    case 2
    then show ?thesis
      using decode_one_ascii [of c b] by (simp add: encode_char_def encode_utf8_def encode_utf16_def)
  next
    case 3
    then have "c div 0x40 < 32" by (simp add: div_less_iff_less_mult)
    with 3 show ?thesis using decode_one_2 [of "c div 0x40" "c mod 0x40" b]
      by (simp add: encode_char_def encode_utf8_def encode_utf16_def del: of_nat_add)
  next
    case 4
    then have "c div 0x1000 < 16" by (simp add: div_less_iff_less_mult)
    with 4 show ?thesis
      using decode_one_3 [of "c div 0x1000" "c div 0x40 mod 0x40" "c mod 0x40" b] digits3 [of c]
      by (simp add: encode_char_def encode_utf8_def encode_utf16_def del: of_nat_add)
  next
    case 5
    then have "c div 0x40000 < 5" by (simp add: div_less_iff_less_mult)
    with 5 show ?thesis
      using decode_one_4 [OF _ _ _ _ digits4 _ assms, of b]
      by (simp add: encode_char_def encode_utf8_def del: of_nat_add)
  qed
qed

lemma encode_char_not_Nil [simp]: "encode_char c \<noteq> []"
  by (simp add: encode_char_def encode_utf8_def)

lemma decode_units_encode:
  "list_all scalar s \<Longrightarrow> decode_units (encode_utf s) = Some (concat (map encode_utf16 s))"
proof (induction s)
  case Nil
  then show ?case by (simp add: encode_utf_def decode_units.simps)
next
  case (Cons c s)
  then show ?case
    using decode_one_encoded [of c "encode_utf s"]
    by (simp add: encode_utf_def decode_units.simps [of "encode_char c @ _"])
qed

lemma from_utf16_plain: "\<not> (high_surrogate u \<or> low_surrogate u) \<Longrightarrow>
    from_utf16 (u # us) = map_option ((#) u) (from_utf16 us)"
  by (cases us) auto

lemma from_utf16_encode: "list_all scalar s \<Longrightarrow> from_utf16 (concat (map encode_utf16 s)) = Some s"
proof (induction s)
  case Nil
  then show ?case by simp
next
  case (Cons c s)
  show ?case
  proof (cases "c < 0x10000")
    case True
    with Cons.prems have "encode_utf16 c = [c]" "\<not> (high_surrogate c \<or> low_surrogate c)"
      by (auto simp: encode_utf16_def scalar_def)
    with Cons show ?thesis by (simp add: from_utf16_plain del: de_Morgan_disj)
  next
    case False
    define d where "d = c - 0x10000"
    have "d < 0x400 * 0x400" using False Cons.prems by (auto simp: scalar_def d_def)
    then have "d div 0x400 < 0x400" by (simp add: div_less_iff_less_mult)
    moreover have "0x10000 + d div 0x400 * 0x400 + d mod 0x400 = c"
      using False by (simp add: d_def)
    ultimately show ?thesis using False Cons by (simp add: encode_utf16_def d_def)
  qed
qed

lemma decode_encode_utf: "list_all scalar s \<Longrightarrow> decode_utf (encode_utf s) = Some s"
  by (simp add: decode_utf_def decode_units_encode from_utf16_encode)

section \<open>What the decoder gives\<close>

text \<open>
  The bytes a UTF-16 unit takes when it is written back: a surrogate is half of a character of four
  bytes.
\<close>

definition unit_cost :: "nat \<Rightarrow> nat" where
  "unit_cost u =
     (if 0 < u \<and> u < 0x80 then 1
      else if u < 0x800 \<or> high_surrogate u \<or> low_surrogate u then 2
      else 3)"

lemma length_encode_plain:
  "u < 0x10000 \<Longrightarrow> \<not> (high_surrogate u \<or> low_surrogate u) \<Longrightarrow> length (encode_char u) = unit_cost u"
  by (simp add: encode_char_def encode_utf8_def unit_cost_def)

lemma length_encode_wide: "0x10000 \<le> c \<Longrightarrow> length (encode_char c) = 4"
  by (simp add: encode_char_def encode_utf8_def)

lemma scalar_plain: "u < 0x10000 \<Longrightarrow> \<not> (high_surrogate u \<or> low_surrogate u) \<Longrightarrow> scalar u"
  by (auto simp: scalar_def)

lemma scalar_pair: "high_surrogate u \<Longrightarrow> low_surrogate v \<Longrightarrow>
    scalar (0x10000 + (u - 0xD800) * 0x400 + (v - 0xDC00))"
  by (auto simp: scalar_def)

lemma unit_cost_surrogate: "high_surrogate u \<or> low_surrogate u \<Longrightarrow> unit_cost u = 2"
  by (auto simp: unit_cost_def)

lemma encode_utf_Nil [simp]: "encode_utf [] = []"
  by (simp add: encode_utf_def)

lemma encode_utf_Cons [simp]: "encode_utf (c # s) = encode_char c @ encode_utf s"
  by (simp add: encode_utf_def)

lemma from_utf16_scalar:
  "from_utf16 us = Some s \<Longrightarrow> list_all (\<lambda>u. u < 0x10000) us \<Longrightarrow>
     list_all scalar s \<and> length (encode_utf s) = sum_list (map unit_cost us)"
proof (induction us arbitrary: s rule: from_utf16.induct)
  case 1
  then show ?case by simp
next
  case (2 u)
  then show ?case using scalar_plain [of u] length_encode_plain [of u] by (auto split: if_splits)
next
  case (3 u v us)
  show ?case
  proof (cases "high_surrogate u")
    case True
    with "3.prems" have v: "low_surrogate v" by (simp split: if_splits)
    with True "3.prems" obtain s' where "from_utf16 us = Some s'"
      and "s = (0x10000 + (u - 0xD800) * 0x400 + (v - 0xDC00)) # s'" by auto
    with "3.IH"(1) [OF True v] "3.prems" scalar_pair [OF True v] True v show ?thesis
      by (simp add: length_encode_wide unit_cost_surrogate)
  next
    case False
    with "3.prems" have u: "\<not> (high_surrogate u \<or> low_surrogate u)" by (simp split: if_splits)
    with "3.prems" obtain s' where "from_utf16 (v # us) = Some s'" "s = u # s'"
      by (auto simp: from_utf16_plain simp del: from_utf16.simps)
    with "3.IH"(2) [OF False] "3.prems" u scalar_plain [of u] length_encode_plain [of u]
    show ?thesis by auto
  qed
qed

lemma lead_less: "unat (c AND 7) < 8" "unat (c AND 0x1F) < 32" "unat (c AND 0x0F) < 16"
  for c :: byte
  using unat_and_less [of c 7] unat_and_less [of c "0x1F"] unat_and_less [of c "0x0F"] by auto

lemma encode_utf16_wide:
  assumes "scalar c" "0x10000 \<le> c"
  shows "list_all (\<lambda>u. u < 0x10000) (encode_utf16 c)" "sum_list (map unit_cost (encode_utf16 c)) = 4"
proof -
  have "c - 0x10000 < 0x400 * 0x400" using assms by (auto simp: scalar_def)
  then have d: "(c - 0x10000) div 0x400 < 0x400" by (simp add: div_less_iff_less_mult)
  have m: "(c - 0x10000) mod 0x400 < 0x400" by simp
  from assms(2) d m show "list_all (\<lambda>u. u < 0x10000) (encode_utf16 c)"
    unfolding encode_utf16_def by auto
  from assms(2) d m show "sum_list (map unit_cost (encode_utf16 c)) = 4"
    unfolding encode_utf16_def by (simp add: unit_cost_surrogate)
qed

lemma decode_one_units:
  assumes "decode_one b = Some (us, n)"
  shows "list_all (\<lambda>u. u < 0x10000) us \<and> sum_list (map unit_cost us) \<le> n"
proof -
  define c where "c = b ! 0"
  consider (wide) ch where "scalar ch" "0x10000 \<le> ch" "us = encode_utf16 ch" "n = 4"
    | (one) "1 \<le> c" "c \<le> 0x7F" "us = [unat c]" "n = 1"
    | (two) h l where "h < 32" "l < 64" "us = [push_bit 6 h OR l]" "n = 2"
    | (three) h m l where "h < 16" "m < 64" "l < 64" "us = [push_bit 12 h OR push_bit 6 m OR l]" "n = 3"
  proof (cases "0xF0 \<le> c \<and> c \<le> 0xF4")
    case True
    with assms show ?thesis
      by (auto simp: decode_one_def c_def Let_def char_from_u32_def
          elim!: bind_Some_elim split: if_splits intro: wide)
  next
    case False
    with assms show ?thesis
      by (auto simp: decode_one_def c_def Let_def
          elim!: bind_Some_elim split: if_splits intro: one two three lead_less cont_byte_less)
  qed
  then show ?thesis
  proof cases
    case wide
    then show ?thesis by (simp add: encode_utf16_wide)
  next
    case one
    then have "1 \<le> unat c" "unat c \<le> 0x7F" by (simp_all add: word_le_nat_alt)
    with one show ?thesis by (simp add: unit_cost_def)
  next
    case two
    then show ?thesis by (simp add: join2 unit_cost_def)
  next
    case three
    then show ?thesis by (simp add: join3 unit_cost_def)
  qed
qed

lemma decode_units_bound:
  "decode_units b = Some us \<Longrightarrow>
     list_all (\<lambda>u. u < 0x10000) us \<and> sum_list (map unit_cost us) \<le> length b"
proof (induction b arbitrary: us rule: decode_units.induct)
  case (1 b)
  show ?case
  proof (cases "b = []")
    case True
    with 1 show ?thesis by (simp add: decode_units.simps)
  next
    case False
    with "1.prems" obtain us1 n us2 where one: "decode_one b = Some (us1, n)"
      and rest: "decode_units (drop n b) = Some us2" "us = us1 @ us2"
      by (subst (asm) decode_units.simps) (auto split: option.splits prod.splits)
    with "1.IH" [OF False one refl] decode_one_units [OF one] decode_one_length [OF False one]
    show ?thesis by auto
  qed
qed

text \<open>A decoded string has scalar values only, and written back it is not longer than it was.\<close>

lemma decode_utf_typed:
  "decode_utf b = Some s \<Longrightarrow> list_all scalar s \<and> length (encode_utf s) \<le> length b"
  using from_utf16_scalar decode_units_bound by (force simp: decode_utf_def elim!: bind_Some_elim)

end
