(* ===== verification/Base64.thy ===== *)
theory Base64
  imports Utf
begin

text \<open>
  Base64 (\<^verbatim>\<open>src/crates/aim-android-xml/src/base64.rs\<close>): the standard alphabet, padded, without
  line breaks. The decoder shifts into a 32-bit accumulator and lets old bits fall off its top.
\<close>

unbundle bit_operations_syntax

text \<open>A string literal of the source, as the list of its scalar values.\<close>

definition lit :: "string \<Rightarrow> rstr" where
  "lit s = map of_char s"

definition ALPHABET :: "byte list" where
  "ALPHABET =
     map of_char ''ABCDEFGHIJKLMNOPQRSTUVWXYZabcdefghijklmnopqrstuvwxyz0123456789+/''"

abbreviation pad_char :: uchar where
  "pad_char \<equiv> 61"

text \<open>\<open>slice::chunks(3)\<close> and one turn of the loop of \<open>encode\<close>.\<close>

fun chunks3 :: "'a list \<Rightarrow> 'a list list" where
  "chunks3 (a # b # c # xs) = [a, b, c] # chunks3 xs"
| "chunks3 [] = []"
| "chunks3 [a] = [[a]]"
| "chunks3 [a, b] = [[a, b]]"

definition get_or_zero :: "byte list \<Rightarrow> nat \<Rightarrow> byte" where
  "get_or_zero xs i = (if i < length xs then xs ! i else 0)"

definition chunk_bits :: "byte list \<Rightarrow> u32" where
  "chunk_bits ch =
     push_bit 16 (ucast (ch ! 0)) OR push_bit 8 (ucast (get_or_zero ch 1)) OR
     ucast (get_or_zero ch 2)"

definition encode_chunk :: "byte list \<Rightarrow> rstr" where
  "encode_chunk ch =
     map (\<lambda>i. if i \<le> length ch
              then unat (ALPHABET ! unat (drop_bit (18 - 6 * i) (chunk_bits ch) AND 63))
              else pad_char) [0..<4]"

definition base64_encode :: "byte list \<Rightarrow> rstr" where
  "base64_encode bs = concat (map encode_chunk (chunks3 bs))"

fun decode_loop :: "byte list \<Rightarrow> u32 \<Rightarrow> nat \<Rightarrow> byte list \<Rightarrow> byte list option" where
  "decode_loop [] acc bits out = (if bits < 6 then Some out else None)"
| "decode_loop (c # cs) acc bits out =
     (case position (\<lambda>a. a = c) ALPHABET of
        None \<Rightarrow> None
      | Some v \<Rightarrow>
          let acc = push_bit 6 acc OR of_nat v; bits = bits + 6 in
          if 8 \<le> bits
          then decode_loop cs acc (bits - 8) (out @ [ucast (drop_bit (bits - 8) acc)])
          else decode_loop cs acc bits out)"

definition trim_end :: "uchar \<Rightarrow> rstr \<Rightarrow> rstr" where
  "trim_end c s = rev (dropWhile (\<lambda>x. x = c) (rev s))"

definition base64_decode :: "rstr \<Rightarrow> byte list option" where
  "base64_decode s = decode_loop (concat (map encode_utf8 (trim_end pad_char s))) 0 0 []"

section \<open>Decoding what was encoded\<close>

lemma length_ALPHABET [simp]: "length ALPHABET = 64"
  by (simp add: ALPHABET_def)

lemma ALPHABET_bytes: "ALPHABET =
     [65, 66, 67, 68, 69, 70, 71, 72, 73, 74, 75, 76, 77, 78, 79, 80, 81, 82, 83, 84, 85,
      86, 87, 88, 89, 90, 97, 98, 99, 100, 101, 102, 103, 104, 105, 106, 107, 108, 109,
      110, 111, 112, 113, 114, 115, 116, 117, 118, 119, 120, 121, 122, 48, 49, 50, 51, 52,
      53, 54, 55, 56, 57, 43, 47]"
  by (simp add: ALPHABET_def of_char_def)

lemma ALPHABET_distinct: "distinct ALPHABET"
  by (simp add: ALPHABET_bytes)

lemma ALPHABET_members: "b \<in> set ALPHABET \<Longrightarrow> unat b < 0x80 \<and> unat b \<noteq> pad_char"
  by (auto simp: ALPHABET_bytes)

lemma position_nth: "distinct xs \<Longrightarrow> i < length xs \<Longrightarrow> position (\<lambda>a. a = xs ! i) xs = Some i"
  by (induction xs arbitrary: i) (auto simp: nth_Cons split: nat.splits)

lemma ALPHABET_found: "v < 64 \<Longrightarrow> position (\<lambda>a. a = ALPHABET ! v) ALPHABET = Some v"
  by (simp add: position_nth ALPHABET_distinct)

lemma ALPHABET_ascii: "v < 64 \<Longrightarrow> unat (ALPHABET ! v) < 0x80 \<and> unat (ALPHABET ! v) \<noteq> pad_char"
  using ALPHABET_members [of "ALPHABET ! v"] by simp

text \<open>The sextets of a chunk, and what the decoder makes of the characters for them.\<close>

definition sextet :: "byte list \<Rightarrow> nat \<Rightarrow> u32" where
  "sextet ch i = drop_bit (18 - 6 * i) (chunk_bits ch) AND 63"

lemma sextet_less [simp]: "unat (sextet ch i) < 64"
proof -
  have "sextet ch i \<le> 63" unfolding sextet_def by (metis and.commute word_and_le1)
  then show ?thesis by (simp add: word_le_nat_alt)
qed

definition body :: "byte list \<Rightarrow> byte list" where
  "body ch = map (\<lambda>i. ALPHABET ! unat (sextet ch i)) [0..<Suc (length ch)]"

definition shift_in :: "u32 \<Rightarrow> u32 \<Rightarrow> u32" where
  "shift_in acc v = push_bit 6 acc OR v"

lemma decode_loop_sextet:
  "decode_loop (ALPHABET ! unat (sextet ch i) # cs) acc bits out =
     (let acc = shift_in acc (sextet ch i); bits = bits + 6 in
      if 8 \<le> bits then decode_loop cs acc (bits - 8) (out @ [ucast (drop_bit (bits - 8) acc)])
      else decode_loop cs acc bits out)"
  by (simp add: ALPHABET_found shift_in_def)

lemma sextet_take: "sextet ch i = take_bit 6 (drop_bit (18 - 6 * i) (chunk_bits ch))"
  by (simp add: sextet_def take_bit_eq_mask mask_eq_exp_minus_1)

lemma byte_bit_high: "8 \<le> n \<Longrightarrow> \<not> bit (b :: byte) n"
  by (auto dest: bit_imp_le_length)

lemma byte_bitsI:
  assumes "bit x 0 = bit y 0" "bit x 1 = bit y 1" "bit x 2 = bit y 2" "bit x 3 = bit y 3"
    "bit x 4 = bit y 4" "bit x 5 = bit y 5" "bit x 6 = bit y 6" "bit x 7 = bit y 7"
  shows "x = (y :: byte)"
proof (rule bit_word_eqI)
  fix n :: nat assume "n < LENGTH(8)"
  then have "n \<in> {0, 1, 2, 3, 4, 5, 6, 7}" by auto
  with assms show "bit x n = bit y n" by auto
qed

lemma join_first:
  "ucast (drop_bit 4 (shift_in (shift_in acc (sextet ch 0)) (sextet ch 1))) = ch ! 0"
  by (rule byte_bitsI) (simp_all add: shift_in_def sextet_take chunk_bits_def bit_simps byte_bit_high)

lemma join_second:
  "ucast (drop_bit 2 (shift_in (shift_in acc (sextet ch 1)) (sextet ch 2))) = get_or_zero ch 1"
  by (rule byte_bitsI) (simp_all add: shift_in_def sextet_take chunk_bits_def bit_simps byte_bit_high)

lemma join_third:
  "ucast (shift_in (shift_in acc (sextet ch 2)) (sextet ch 3)) = get_or_zero ch 2"
  by (rule byte_bitsI) (simp_all add: shift_in_def sextet_take chunk_bits_def bit_simps byte_bit_high)

lemma body_lists:
  "body [a] = [ALPHABET ! unat (sextet [a] 0), ALPHABET ! unat (sextet [a] 1)]"
  "body [a, b] = [ALPHABET ! unat (sextet [a, b] 0), ALPHABET ! unat (sextet [a, b] 1),
     ALPHABET ! unat (sextet [a, b] 2)]"
  "body [a, b, c] = [ALPHABET ! unat (sextet [a, b, c] 0), ALPHABET ! unat (sextet [a, b, c] 1),
     ALPHABET ! unat (sextet [a, b, c] 2), ALPHABET ! unat (sextet [a, b, c] 3)]"
  by (simp_all add: body_def numeral_eq_Suc)

lemmas body_simps = body_lists decode_loop_sextet Let_def get_or_zero_def
  join_first [unfolded One_nat_def] join_second [unfolded One_nat_def] join_third

lemma body_3: "length ch = 3 \<Longrightarrow> \<exists>acc'. decode_loop (body ch @ cs) acc 0 out = decode_loop cs acc' 0 (out @ ch)"
proof -
  assume "length ch = 3"
  then obtain a b c where "ch = [a, b, c]" by (auto simp: length_Suc_conv numeral_3_eq_3)
  then show ?thesis
    by (auto simp: body_simps simp del: decode_loop.simps(2))
qed

lemma body_last: "0 < length ch \<Longrightarrow> length ch < 3 \<Longrightarrow> decode_loop (body ch) acc 0 out = Some (out @ ch)"
proof -
  assume "0 < length ch" "length ch < 3"
  then obtain a b where "ch = [a] \<or> ch = [a, b]"
    by (cases ch; cases "tl ch") auto
  then show ?thesis
    by (auto simp: body_simps simp del: decode_loop.simps(2))
qed

text \<open>The characters of an encoding: the bodies of the chunks, and the padding of the last.\<close>

lemma encode_chunk_lists:
  "encode_chunk [a] = map unat (body [a]) @ [pad_char, pad_char]"
  "encode_chunk [a, b] = map unat (body [a, b]) @ [pad_char]"
  "encode_chunk [a, b, c] = map unat (body [a, b, c])"
  by (simp_all add: encode_chunk_def body_lists sextet_def upt_rec numeral_2_eq_2 [symmetric]
      numeral_3_eq_3 [symmetric])

lemma body_ascii: "b \<in> set (body ch) \<Longrightarrow> unat b < 0x80 \<and> unat b \<noteq> pad_char"
  using ALPHABET_ascii by (auto simp: body_def)

lemma body_not_Nil [simp]: "body ch \<noteq> []"
  by (simp add: body_def)

lemma utf8_ascii: "(\<And>b. b \<in> set bs \<Longrightarrow> unat b < 0x80) \<Longrightarrow>
    concat (map encode_utf8 (map unat bs)) = (bs :: byte list)"
  by (induction bs) (auto simp: encode_utf8_def)

lemma trim_end_pads: "pad_char \<notin> set s \<Longrightarrow> trim_end pad_char (s @ replicate n pad_char) = s"
proof -
  assume s: "pad_char \<notin> set s"
  have "dropWhile (\<lambda>x. x = pad_char) (replicate n pad_char @ rev s) = dropWhile (\<lambda>x. x = pad_char) (rev s)"
    by (induction n) auto
  moreover from s have "pad_char \<notin> set (rev s)" by simp
  then have "dropWhile (\<lambda>x. x = pad_char) (rev s) = rev s" by (cases "rev s") auto
  ultimately show ?thesis by (simp add: trim_end_def)
qed

definition bodies :: "byte list \<Rightarrow> byte list" where
  "bodies bs = concat (map body (chunks3 bs))"

lemma bodies_ascii: "b \<in> set (bodies bs) \<Longrightarrow> unat b < 0x80 \<and> unat b \<noteq> pad_char"
  using body_ascii by (auto simp: bodies_def)

lemma encode_bodies: "\<exists>n. base64_encode bs = map unat (bodies bs) @ replicate n pad_char"
proof (induction bs rule: chunks3.induct)
  case (1 a b c xs)
  then show ?case by (auto simp: base64_encode_def bodies_def encode_chunk_lists)
next
  case 2
  then show ?case by (simp add: base64_encode_def bodies_def)
next
  case (3 a)
  show ?case
    by (rule exI [where x = 2])
      (simp add: base64_encode_def bodies_def encode_chunk_lists numeral_2_eq_2)
next
  case (4 a b)
  show ?case
    by (rule exI [where x = 1]) (simp add: base64_encode_def bodies_def encode_chunk_lists)
qed

lemma decode_bodies: "decode_loop (bodies bs) acc 0 out = Some (out @ bs)"
proof (induction bs arbitrary: acc out rule: chunks3.induct)
  case (1 a b c xs)
  then show ?case using body_3 [of "[a, b, c]" "bodies xs" acc out] by (auto simp: bodies_def)
next
  case 2
  then show ?case by (simp add: bodies_def)
qed (simp_all add: bodies_def body_last)

lemma decode_trimmed: "base64_decode s = base64_decode (trim_end pad_char s)"
  by (simp add: base64_decode_def trim_end_def dropWhile_idem)

lemma base64_decode_encode: "base64_decode (base64_encode bs) = Some bs"
proof -
  obtain n where "base64_encode bs = map unat (bodies bs) @ replicate n pad_char"
    using encode_bodies by blast
  moreover have "pad_char \<notin> set (map unat (bodies bs))" using bodies_ascii by auto
  ultimately have "trim_end pad_char (base64_encode bs) = map unat (bodies bs)"
    by (simp add: trim_end_pads)
  moreover have "concat (map encode_utf8 (map unat (bodies bs))) = bodies bs"
    using bodies_ascii by (intro utf8_ascii) blast
  ultimately show ?thesis by (simp add: base64_decode_def decode_bodies del: map_map)
qed

end
