(* ===== verification/Xml.thy ===== *)
theory Xml
  imports Base64
begin

text \<open>
  XML documents and typed attributes (\<^verbatim>\<open>src/crates/aim-android-xml/src/lib.rs\<close>): values, elements,
  the conversion of attribute values to text and back, and the normalization of text events.

  An \<open>f32\<close> or \<open>f64\<close> is its bits, which is what \<open>Value\<close> compares; printing one in decimal and
  reading a decimal one are functions the caller supplies (\<open>fmt\<close>, \<open>parse\<close>). Error messages are
  constructors of \<open>xml_error\<close> with the data the message is made of.
\<close>

type_synonym i64 = "64 word"
type_synonym f32 = "32 word"
type_synonym f64 = "64 word"

datatype xvalue =
    XNull
  | XString rstr
  | XInterned rstr
  | XBytesHex "byte list"
  | XBytesBase64 "byte list"
  | XInt i32
  | XIntHex i32
  | XLong i64
  | XLongHex i64
  | XFloat f32
  | XDouble f64
  | XBool bool

datatype element = Element (el_name: rstr) (el_attrs: "(rstr \<times> xvalue) list") (el_content: "xnode list")
  and xnode = NElement element | NToken u8 "rstr option"

abbreviation TEXT :: u8 where "TEXT \<equiv> 4"
abbreviation CDSECT :: u8 where "CDSECT \<equiv> 5"
abbreviation ENTITY_REF :: u8 where "ENTITY_REF \<equiv> 6"
abbreviation IGNORABLE_WHITESPACE :: u8 where "IGNORABLE_WHITESPACE \<equiv> 7"
abbreviation PROCESSING_INSTRUCTION :: u8 where "PROCESSING_INSTRUCTION \<equiv> 8"
abbreviation COMMENT :: u8 where "COMMENT \<equiv> 9"
abbreviation DOCDECL :: u8 where "DOCDECL \<equiv> 10"

datatype xml_error =
    Truncated nat | TruncatedHeader | BadString nat | NoInterned nat | ValueType nat
  | NotAbx | NoRoot | SecondRoot | AttrOutside | EndOutside | EndsWith rstr rstr
  | TokenWith u8 xvalue | NotEnded rstr | TooLong nat | UnexpectedToken u8
  | InvalidEntity rstr | UnknownEntity rstr | UnpairedEntity rstr | BadAttribute rstr rstr xvalue
  | NoCapture | CaptureFailed | CaptureOpen | TextError rstr nat | NotUtf8

text \<open>Appending an attribute or a node to an element under construction.\<close>

definition push_attr :: "rstr \<times> xvalue \<Rightarrow> element \<Rightarrow> element" where
  "push_attr a e = Element (el_name e) (el_attrs e @ [a]) (el_content e)"

definition push_node :: "xnode \<Rightarrow> element \<Rightarrow> element" where
  "push_node n e = Element (el_name e) (el_attrs e) (el_content e @ [n])"

section \<open>Results\<close>

text \<open>The operator \<open>?\<close> on a \<open>Result\<close>, and \<open>ok_or\<close>.\<close>

fun and_then :: "'e + 'a \<Rightarrow> ('a \<Rightarrow> 'e + 'b) \<Rightarrow> 'e + 'b" where
  "and_then (Inl e) f = Inl e"
| "and_then (Inr x) f = f x"

fun ok_or :: "'e \<Rightarrow> 'a option \<Rightarrow> 'e + 'a" where
  "ok_or e None = Inl e"
| "ok_or e (Some x) = Inr x"

lemma and_then_Inr_elim:
  assumes "and_then x f = Inr y"
  obtains z where "x = Inr z" "f z = Inr y"
  using assms by (cases x) auto

lemma ok_or_Inr [simp]: "ok_or e x = Inr y \<longleftrightarrow> x = Some y"
  by (cases x) auto

section \<open>Numbers as text\<close>

text \<open>\<open>char::to_digit\<close> for a radix of at most 16, and printing in such a radix.\<close>

definition to_digit :: "nat \<Rightarrow> uchar \<Rightarrow> nat option" where
  "to_digit radix c =
     (let d = if 48 \<le> c \<and> c \<le> 57 then c - 48
              else if 97 \<le> c \<and> c \<le> 122 then c - 97 + 10
              else if 65 \<le> c \<and> c \<le> 90 then c - 65 + 10
              else radix
      in if d < radix then Some d else None)"

definition digit_char :: "nat \<Rightarrow> uchar" where
  "digit_char d = (if d < 10 then 48 + d else 87 + d)"

fun digits :: "nat \<Rightarrow> nat \<Rightarrow> rstr" where
  "digits radix n =
     (if n < radix \<or> radix < 2 then [digit_char n]
      else digits radix (n div radix) @ [digit_char (n mod radix)])"

declare digits.simps [simp del]

text \<open>\<open>from_str_radix\<close> without a sign: the value of a string of digits.\<close>

definition radix_value :: "nat \<Rightarrow> rstr \<Rightarrow> nat" where
  "radix_value radix s = foldl (\<lambda>v c. v * radix + the (to_digit radix c)) 0 s"

definition all_digits :: "nat \<Rightarrow> rstr \<Rightarrow> bool" where
  "all_digits radix s \<longleftrightarrow> s \<noteq> [] \<and> list_all (\<lambda>c. to_digit radix c \<noteq> None) s"

abbreviation minus_char :: uchar where "minus_char \<equiv> 45"
abbreviation plus_char :: uchar where "plus_char \<equiv> 43"

text \<open>\<open>i64::to_string\<close> and \<open>i32::to_string\<close>.\<close>

definition show_int :: "int \<Rightarrow> rstr" where
  "show_int v = (if v < 0 then minus_char # digits 10 (nat (- v)) else digits 10 (nat v))"

definition signed_hex :: "i64 \<Rightarrow> rstr" where
  "signed_hex v =
     (if sint v < 0 then minus_char # digits 16 (nat \<bar>sint v\<bar>) else digits 16 (nat (sint v)))"


section \<open>Values\<close>

definition hex2 :: "byte \<Rightarrow> rstr" where
  "hex2 b = [digit_char (unat b div 16), digit_char (unat b mod 16)]"

definition bool_string :: "bool \<Rightarrow> rstr" where
  "bool_string b = (if b then lit ''true'' else lit ''false'')"

fun value_string :: "(f32 \<Rightarrow> rstr) \<Rightarrow> (f64 \<Rightarrow> rstr) \<Rightarrow> xvalue \<Rightarrow> rstr option" where
  "value_string ftoa dtoa XNull = None"
| "value_string ftoa dtoa (XString s) = Some s"
| "value_string ftoa dtoa (XInterned s) = Some s"
| "value_string ftoa dtoa (XBytesHex b) = Some (concat (map hex2 b))"
| "value_string ftoa dtoa (XBytesBase64 b) = Some (base64_encode b)"
| "value_string ftoa dtoa (XInt v) = Some (show_int (sint v))"
| "value_string ftoa dtoa (XIntHex v) = Some (signed_hex (scast v))"
| "value_string ftoa dtoa (XLong v) = Some (show_int (sint v))"
| "value_string ftoa dtoa (XLongHex v) = Some (signed_hex v)"
| "value_string ftoa dtoa (XFloat v) = Some (ftoa v)"
| "value_string ftoa dtoa (XDouble v) = Some (dtoa v)"
| "value_string ftoa dtoa (XBool v) = Some (bool_string v)"

fun value_text :: "xvalue \<Rightarrow> rstr option" where
  "value_text (XString s) = Some s"
| "value_text (XInterned s) = Some s"
| "value_text _ = None"




fun value_float :: "xvalue \<Rightarrow> f32 option" where
  "value_float (XFloat f) = Some f"
| "value_float _ = None"

fun value_double :: "xvalue \<Rightarrow> f64 option" where
  "value_double (XDouble d) = Some d"
| "value_double _ = None"


section \<open>Typed attributes\<close>

definition attr :: "element \<Rightarrow> rstr \<Rightarrow> xvalue option" where
  "attr e name = map_option snd (find (\<lambda>(n, v). n = name) (el_attrs e))"

fun child_of :: "xnode \<Rightarrow> element option" where
  "child_of (NElement e) = Some e"
| "child_of (NToken _ _) = None"

definition children :: "element \<Rightarrow> element list" where
  "children e = List.map_filter child_of (el_content e)"

definition attr_string :: "(f32 \<Rightarrow> rstr) \<Rightarrow> (f64 \<Rightarrow> rstr) \<Rightarrow> element \<Rightarrow> rstr \<Rightarrow> rstr option" where
  "attr_string ftoa dtoa e name = Option.bind (attr e name) (value_string ftoa dtoa)"

definition typed ::
  "(xvalue \<Rightarrow> 'a option) \<Rightarrow> (rstr \<Rightarrow> 'a option) \<Rightarrow> element \<Rightarrow> rstr \<Rightarrow> xml_error + 'a option" where
  "typed conv parse e name =
     (case attr e name of
        None \<Rightarrow> Inr None
      | Some v \<Rightarrow>
          (case conv v of
             Some x \<Rightarrow> Inr (Some x)
           | None \<Rightarrow>
               (case Option.bind (value_text v) parse of
                  Some x \<Rightarrow> Inr (Some x)
                | None \<Rightarrow> Inl (BadAttribute (el_name e) name v))))"








definition attr_float :: "(rstr \<Rightarrow> f32 option) \<Rightarrow> element \<Rightarrow> rstr \<Rightarrow> xml_error + f32 option" where
  "attr_float parse = typed value_float parse"

definition attr_double :: "(rstr \<Rightarrow> f64 option) \<Rightarrow> element \<Rightarrow> rstr \<Rightarrow> xml_error + f64 option" where
  "attr_double parse = typed value_double parse"










section \<open>Text events\<close>

text \<open>\<open>str::parse::<i32>\<close>.\<close>

definition parse_i32 :: "rstr \<Rightarrow> int option" where
  "parse_i32 s =
     (let (negative, ds) =
        case s of
          c # cs \<Rightarrow> if c = minus_char then (True, cs) else if c = plus_char then (False, cs) else (False, s)
        | [] \<Rightarrow> (False, s);
        v = int (radix_value 10 ds); v = if negative then - v else v
      in if all_digits 10 ds \<and> - (2 ^ 31) \<le> v \<and> v < 2 ^ 31 then Some v else None)"

definition entity_table :: "(rstr \<times> rstr) list" where
  "entity_table =
     [(lit ''lt'', [60]), (lit ''gt'', [62]), (lit ''amp'', [38]), (lit ''apos'', [39]),
      (lit ''quot'', [34])]"

definition normal_entity :: "rstr \<Rightarrow> xml_error + rstr" where
  "normal_entity name =
     (case map_of entity_table name of
        Some s \<Rightarrow> Inr s
      | None \<Rightarrow>
          (case name of
             c # cs \<Rightarrow>
               if c = 35 then
                 (case parse_i32 cs of
                    None \<Rightarrow> Inl (InvalidEntity name)
                  | Some v \<Rightarrow>
                      and_then (ok_or (UnpairedEntity name) (char_from_u32 (nat (v mod 0x10000))))
                        (\<lambda>ch. Inr [ch]))
               else Inl (UnknownEntity name)
           | [] \<Rightarrow> Inl (UnknownEntity name)))"

text \<open>
  \<open>normalize_next\<close>: \<open>normalize_nodes\<close> is its loop over the content, with the flag \<open>pending_text\<close>;
  it gives the nodes that \<open>content\<close> ends up with.
\<close>

fun normalize_next :: "bool \<Rightarrow> element \<Rightarrow> xml_error + element"
and normalize_nodes :: "bool \<Rightarrow> bool \<Rightarrow> xnode list \<Rightarrow> xml_error + xnode list" where
  "normalize_next binary (Element n as cs) =
     and_then (normalize_nodes binary False cs) (\<lambda>cs'. Inr (Element n as cs'))"
| "normalize_nodes binary pending [] = Inr []"
| "normalize_nodes binary pending (NElement e # ns) =
     and_then (normalize_next binary e) (\<lambda>e'.
       and_then (normalize_nodes binary False ns) (\<lambda>ns'. Inr (NElement e' # ns')))"
| "normalize_nodes binary pending (NToken k t # ns) =
     (if k = TEXT then and_then (normalize_nodes binary True ns) (\<lambda>ns'. Inr (NToken k t # ns'))
      else if k = CDSECT \<and> (\<not> binary \<or> pending) then
        and_then (normalize_nodes binary True ns) (\<lambda>ns'. Inr (NToken TEXT t # ns'))
      else if k = CDSECT then normalize_nodes binary pending ns
      else case (if k = 6 \<and> binary then t else None) of
        Some name \<Rightarrow>
          and_then (normal_entity name) (\<lambda>s.
            if \<not> pending then normalize_nodes binary pending ns
            else and_then (normalize_nodes binary pending ns) (\<lambda>ns'. Inr (NToken TEXT (Some s) # ns')))
      | None \<Rightarrow>
          and_then (normalize_nodes binary (if k = COMMENT \<or> k = 8 then pending else False) ns)
            (\<lambda>ns'. Inr (NToken k t # ns')))"

section \<open>Numbers read back\<close>



























section \<open>Normal documents\<close>

text \<open>
  What \<open>normalize_next\<close> leaves: no CDATA section, and in a document that was read from binary XML no
  named entity.
\<close>

fun normal :: "bool \<Rightarrow> element \<Rightarrow> bool"
and normal_node :: "bool \<Rightarrow> xnode \<Rightarrow> bool" where
  "normal binary (Element n as cs) \<longleftrightarrow> list_all (normal_node binary) cs"
| "normal_node binary (NElement e) \<longleftrightarrow> normal binary e"
| "normal_node binary (NToken k t) \<longleftrightarrow> k \<noteq> CDSECT \<and> \<not> (binary \<and> k = 6 \<and> t \<noteq> None)"

lemma normalize_normal:
  "normalize_next binary e = Inr e' \<Longrightarrow> normal binary e'"
  "normalize_nodes binary p ns = Inr ns' \<Longrightarrow> list_all (normal_node binary) ns'"
  by (induction binary e and binary p ns arbitrary: e' and ns'
      rule: normalize_next_normalize_nodes.induct)
    (auto elim!: and_then_Inr_elim split: if_splits option.splits)

lemma normal_stays:
  "normal binary e \<Longrightarrow> normalize_next binary e = Inr e"
  "list_all (normal_node binary) ns \<Longrightarrow> normalize_nodes binary p ns = Inr ns"
  by (induction binary e and binary p ns rule: normalize_next_normalize_nodes.induct)
    (auto split: option.splits)

text \<open>A normalized document is in this form, and normalizing it again changes nothing.\<close>

lemma normalize_normal_form:
  assumes "normalize_next binary e = Inr e'"
  shows "normal binary e' \<and> normalize_next binary e' = Inr e'"
  using normalize_normal(1) [OF assms] normal_stays(1) by blast

end
