(* ===== verification/Abx.thy ===== *)
theory Abx
  imports Xml
begin

text \<open>
  Binary XML (\<^verbatim>\<open>src/crates/aim-android-xml/src/abx.rs\<close>): the reader, the document reader and the
  writer. A \<open>Vec\<close> used as a stack has its top first in the list. Byte offsets are numbers: an
  offset is at most the length of a slice, so adding to it cannot overflow a \<open>usize\<close>.
\<close>

unbundle bit_operations_syntax

section \<open>Numbers and tokens\<close>

definition be_put :: "nat \<Rightarrow> nat \<Rightarrow> byte list" where
  "be_put n x = rev (le_put n x)"

definition be_val :: "byte list \<Rightarrow> nat" where
  "be_val bs = le_val (rev bs)"

definition MAGIC :: "byte list" where
  "MAGIC = [0x41, 0x42, 0x58, 0x00]"

abbreviation START_DOCUMENT :: u8 where "START_DOCUMENT \<equiv> 0"
abbreviation END_DOCUMENT :: u8 where "END_DOCUMENT \<equiv> 1"
abbreviation START_TAG :: u8 where "START_TAG \<equiv> 2"
abbreviation END_TAG :: u8 where "END_TAG \<equiv> 3"
abbreviation ATTRIBUTE :: u8 where "ATTRIBUTE \<equiv> 15"

abbreviation TYPE_NULL :: u8 where "TYPE_NULL \<equiv> 0x10"
abbreviation TYPE_STRING :: u8 where "TYPE_STRING \<equiv> 0x20"
abbreviation TYPE_STRING_INTERNED :: u8 where "TYPE_STRING_INTERNED \<equiv> 0x30"
abbreviation TYPE_BYTES_HEX :: u8 where "TYPE_BYTES_HEX \<equiv> 0x40"
abbreviation TYPE_BYTES_BASE64 :: u8 where "TYPE_BYTES_BASE64 \<equiv> 0x50"
abbreviation TYPE_INT :: u8 where "TYPE_INT \<equiv> 0x60"
abbreviation TYPE_INT_HEX :: u8 where "TYPE_INT_HEX \<equiv> 0x70"
abbreviation TYPE_LONG :: u8 where "TYPE_LONG \<equiv> 0x80"
abbreviation TYPE_LONG_HEX :: u8 where "TYPE_LONG_HEX \<equiv> 0x90"
abbreviation TYPE_FLOAT :: u8 where "TYPE_FLOAT \<equiv> 0xA0"
abbreviation TYPE_DOUBLE :: u8 where "TYPE_DOUBLE \<equiv> 0xB0"
abbreviation TYPE_BOOLEAN_TRUE :: u8 where "TYPE_BOOLEAN_TRUE \<equiv> 0xC0"
abbreviation TYPE_BOOLEAN_FALSE :: u8 where "TYPE_BOOLEAN_FALSE \<equiv> 0xD0"

text \<open>The index that marks a new string, and how many strings a document can intern.\<close>

abbreviation NEW :: nat where "NEW \<equiv> 0xFFFF"

section \<open>The reader\<close>

record abx_reader =
  rd_bytes :: "byte list"
  rd_at :: nat
  rd_interned :: "rstr list"

definition rd_slice :: "nat \<Rightarrow> abx_reader \<Rightarrow> xml_error + byte list \<times> abx_reader" where
  "rd_slice n r =
     (case slice (rd_at r) n (rd_bytes r) of
        None \<Rightarrow> Inl (Truncated (rd_at r))
      | Some out \<Rightarrow> Inr (out, r\<lparr>rd_at := rd_at r + n\<rparr>))"

definition rd_u16 :: "abx_reader \<Rightarrow> xml_error + nat \<times> abx_reader" where
  "rd_u16 r = and_then (rd_slice 2 r) (\<lambda>(b, r). Inr (be_val b, r))"

definition rd_utf :: "abx_reader \<Rightarrow> xml_error + rstr \<times> abx_reader" where
  "rd_utf r =
     and_then (rd_u16 r) (\<lambda>(len, r).
       let at = rd_at r in
       and_then (rd_slice len r) (\<lambda>(b, r).
         and_then (ok_or (BadString at) (decode_utf b)) (\<lambda>s. Inr (s, r))))"

definition rd_interned_str :: "abx_reader \<Rightarrow> xml_error + rstr \<times> abx_reader" where
  "rd_interned_str r =
     and_then (rd_u16 r) (\<lambda>(i, r).
       if i = NEW then
         and_then (rd_utf r) (\<lambda>(s, r).
           Inr (s, if length (rd_interned r) < NEW
                   then r\<lparr>rd_interned := rd_interned r @ [s]\<rparr> else r))
       else if i < length (rd_interned r) then Inr (rd_interned r ! i, r)
       else Inl (NoInterned i))"

definition rd_vec :: "abx_reader \<Rightarrow> xml_error + byte list \<times> abx_reader" where
  "rd_vec r = and_then (rd_u16 r) (\<lambda>(len, r). rd_slice len r)"

text \<open>The fixed-size values: \<open>from_be_bytes\<close> of so many bytes, through the constructor.\<close>

definition rd_fixed :: "nat \<Rightarrow> (nat \<Rightarrow> xvalue) \<Rightarrow> abx_reader \<Rightarrow> xml_error + xvalue \<times> abx_reader" where
  "rd_fixed n mk r = and_then (rd_slice n r) (\<lambda>(b, r). Inr (mk (be_val b), r))"

definition rd_value :: "u8 \<Rightarrow> abx_reader \<Rightarrow> xml_error + xvalue \<times> abx_reader" where
  "rd_value kind r =
     (if kind = TYPE_NULL then Inr (XNull, r)
      else if kind = TYPE_STRING then and_then (rd_utf r) (\<lambda>(s, r). Inr (XString s, r))
      else if kind = TYPE_STRING_INTERNED then
        and_then (rd_interned_str r) (\<lambda>(s, r). Inr (XInterned s, r))
      else if kind = TYPE_BYTES_HEX then and_then (rd_vec r) (\<lambda>(b, r). Inr (XBytesHex b, r))
      else if kind = TYPE_BYTES_BASE64 then and_then (rd_vec r) (\<lambda>(b, r). Inr (XBytesBase64 b, r))
      else if kind = TYPE_INT then rd_fixed 4 (\<lambda>v. XInt (of_nat v)) r
      else if kind = TYPE_INT_HEX then rd_fixed 4 (\<lambda>v. XIntHex (of_nat v)) r
      else if kind = TYPE_LONG then rd_fixed 8 (\<lambda>v. XLong (of_nat v)) r
      else if kind = TYPE_LONG_HEX then rd_fixed 8 (\<lambda>v. XLongHex (of_nat v)) r
      else if kind = TYPE_FLOAT then rd_fixed 4 (\<lambda>v. XFloat (of_nat v)) r
      else if kind = TYPE_DOUBLE then rd_fixed 8 (\<lambda>v. XDouble (of_nat v)) r
      else if kind = TYPE_BOOLEAN_TRUE then Inr (XBool True, r)
      else if kind = TYPE_BOOLEAN_FALSE then Inr (XBool False, r)
      else Inl (ValueType (unat kind div 16)))"

section \<open>Documents\<close>

text \<open>The text of a token that is no tag.\<close>

fun token_text :: "u8 \<Rightarrow> xvalue \<Rightarrow> xml_error + rstr option" where
  "token_text event XNull = Inr None"
| "token_text event (XString s) = Inr (Some s)"
| "token_text event v = Inl (TokenWith event v)"

text \<open>
  One turn of the loop of \<open>read_sequence\<close>: the reader, the open elements and the roots after it, and
  whether the loop ends. \<open>abx_event\<close> is what follows the token byte.
\<close>

type_synonym abx_loop = "abx_reader \<times> element list \<times> element list"

fun close_element :: "rstr \<Rightarrow> element list \<Rightarrow> element list \<Rightarrow> xml_error + element list \<times> element list" where
  "close_element n [] roots = Inl EndOutside"
| "close_element n (e # es) roots =
     (if el_name e \<noteq> n then Inl (EndsWith (el_name e) n)
      else case es of
        parent # ps \<Rightarrow> Inr (push_node (NElement e) parent # ps, roots)
      | [] \<Rightarrow> Inr ([], roots @ [e]))"

definition abx_event :: "u8 \<Rightarrow> abx_loop \<Rightarrow> xml_error + bool \<times> abx_loop" where
  "abx_event token l =
     (case l of (r, opened, roots) \<Rightarrow>
      let event = token AND 0x0F; kind = token AND 0xF0 in
      if event = START_TAG then
        and_then (rd_interned_str r) (\<lambda>(n, r). Inr (False, r, Element n [] [] # opened, roots))
      else if event = ATTRIBUTE then
        and_then (rd_interned_str r) (\<lambda>(n, r).
          and_then (rd_value kind r) (\<lambda>(v, r).
            case opened of
              [] \<Rightarrow> Inl AttrOutside
            | e # es \<Rightarrow> Inr (False, r, push_attr (n, v) e # es, roots)))
      else if event = END_TAG then
        and_then (rd_interned_str r) (\<lambda>(n, r).
          and_then (close_element n opened roots) (\<lambda>(opened, roots). Inr (False, r, opened, roots)))
      else if event = START_DOCUMENT then Inr (False, r, opened, roots)
      else if event = END_DOCUMENT then Inr (True, r, opened, roots)
      else
        and_then (rd_value kind r) (\<lambda>(v, r).
          and_then (token_text event v) (\<lambda>t.
            case opened of
              [] \<Rightarrow> Inr (False, r, opened, roots)
            | e # es \<Rightarrow> Inr (False, r, push_node (NToken event t) e # es, roots))))"

definition abx_turn :: "abx_loop \<Rightarrow> xml_error + bool \<times> abx_loop" where
  "abx_turn l = (case l of (r, st) \<Rightarrow> and_then (rd_slice 1 r) (\<lambda>(b, r). abx_event (b ! 0) (r, st)))"

section \<open>The reader moves forward\<close>

definition onward :: "abx_reader \<Rightarrow> abx_reader \<Rightarrow> bool" where
  "onward r r' \<longleftrightarrow> rd_bytes r' = rd_bytes r \<and> rd_at r \<le> rd_at r'"

lemma onward_refl [simp]: "onward r r"
  by (simp add: onward_def)

lemma onward_trans [trans]: "onward r r' \<Longrightarrow> onward r' r'' \<Longrightarrow> onward r r''"
  by (simp add: onward_def)

lemma rd_slice_Inr: "rd_slice n r = Inr (b, r') \<longleftrightarrow>
    rd_at r + n \<le> length (rd_bytes r) \<and> b = take n (drop (rd_at r) (rd_bytes r)) \<and>
    r' = r\<lparr>rd_at := rd_at r + n\<rparr>"
  by (auto simp: rd_slice_def slice_def)

lemma rd_slice_onward: "rd_slice n r = Inr (b, r') \<Longrightarrow> onward r r'"
  by (auto simp: rd_slice_Inr onward_def)

lemma rd_u16_onward: "rd_u16 r = Inr (x, r') \<Longrightarrow> onward r r'"
  by (auto simp: rd_u16_def elim!: and_then_Inr_elim dest: rd_slice_onward)

lemma rd_utf_onward: "rd_utf r = Inr (x, r') \<Longrightarrow> onward r r'"
  by (auto simp: rd_utf_def Let_def elim!: and_then_Inr_elim
      dest!: rd_slice_onward rd_u16_onward elim: onward_trans)

lemma rd_interned_onward: "rd_interned_str r = Inr (x, r') \<Longrightarrow> onward r r'"
  by (auto simp: rd_interned_str_def elim!: and_then_Inr_elim dest!: rd_u16_onward rd_utf_onward
      split: if_splits) (auto simp: onward_def)

lemma rd_vec_onward: "rd_vec r = Inr (x, r') \<Longrightarrow> onward r r'"
  by (auto simp: rd_vec_def elim!: and_then_Inr_elim dest!: rd_slice_onward rd_u16_onward
      elim: onward_trans)

lemma rd_fixed_onward: "rd_fixed n mk r = Inr (x, r') \<Longrightarrow> onward r r'"
  by (auto simp: rd_fixed_def elim!: and_then_Inr_elim dest: rd_slice_onward)

lemma rd_value_onward: "rd_value k r = Inr (x, r') \<Longrightarrow> onward r r'"
  by (auto simp: rd_value_def elim!: and_then_Inr_elim split: if_splits
      dest: rd_utf_onward rd_interned_onward rd_vec_onward rd_fixed_onward)

lemma abx_event_onward: "abx_event token (r, st) = Inr (d, r', st') \<Longrightarrow> onward r r'"
  by (auto simp: abx_event_def Let_def elim!: and_then_Inr_elim
      split: if_splits list.splits prod.splits
      dest!: rd_interned_onward rd_value_onward elim: onward_trans)

lemma abx_turn_onward:
  "abx_turn (r, st) = Inr (d, r', st') \<Longrightarrow>
     rd_at r < length (rd_bytes r) \<and> rd_bytes r' = rd_bytes r \<and> rd_at r < rd_at r'"
  by (auto simp: abx_turn_def rd_slice_Inr onward_def elim!: and_then_Inr_elim
      dest!: abx_event_onward)

function abx_read_loop :: "abx_loop \<Rightarrow> xml_error + element list \<times> element list" where
  "abx_read_loop l =
     (case abx_turn l of
        Inl e \<Rightarrow> Inl e
      | Inr (d, l') \<Rightarrow> if d then Inr (snd l') else abx_read_loop l')"
  by auto

termination
  by (relation "measure (\<lambda>(r, _). length (rd_bytes r) - rd_at r)")
    (auto dest!: abx_turn_onward)

declare abx_read_loop.simps [simp del]

definition abx_read_sequence :: "byte list \<Rightarrow> xml_error + element list" where
  "abx_read_sequence bytes =
     (if take (length MAGIC) bytes \<noteq> MAGIC then Inl NotAbx
      else
        and_then
          (abx_read_loop (\<lparr>rd_bytes = bytes, rd_at = length MAGIC, rd_interned = []\<rparr>, [], []))
          (\<lambda>(opened, roots). if opened \<noteq> [] then Inl (NotEnded (el_name (last opened))) else Inr roots))"

definition abx_read_optional :: "byte list \<Rightarrow> xml_error + element option" where
  "abx_read_optional bytes =
     and_then (abx_read_sequence bytes) (\<lambda>roots.
       if 1 < length roots then Inl SecondRoot
       else Inr (if roots = [] then None else Some (last roots)))"

definition abx_read :: "byte list \<Rightarrow> xml_error + element" where
  "abx_read bytes = and_then (abx_read_optional bytes) (ok_or NoRoot)"

section \<open>The writer\<close>

text \<open>The table of interned strings gives each its index.\<close>

record abx_writer =
  wr_out :: "byte list"
  wr_interned :: "(rstr \<times> nat) list"

definition writer_default :: abx_writer where
  "writer_default = \<lparr>wr_out = MAGIC @ [START_DOCUMENT OR TYPE_NULL], wr_interned = []\<rparr>"

definition wr_finish :: "abx_writer \<Rightarrow> byte list" where
  "wr_finish w = wr_out w @ [END_DOCUMENT OR TYPE_NULL]"

definition wr_push :: "byte list \<Rightarrow> abx_writer \<Rightarrow> abx_writer" where
  "wr_push b w = w\<lparr>wr_out := wr_out w @ b\<rparr>"

definition wr_len :: "nat \<Rightarrow> abx_writer \<Rightarrow> xml_error + abx_writer" where
  "wr_len n w = (if n < 2 ^ 16 then Inr (wr_push (be_put 2 n) w) else Inl (TooLong n))"

definition wr_utf :: "rstr \<Rightarrow> abx_writer \<Rightarrow> xml_error + abx_writer" where
  "wr_utf s w =
     (let bytes = encode_utf s in and_then (wr_len (length bytes) w) (\<lambda>w. Inr (wr_push bytes w)))"

definition wr_interned_str :: "rstr \<Rightarrow> abx_writer \<Rightarrow> xml_error + abx_writer" where
  "wr_interned_str s w =
     (case map_of (wr_interned w) s of
        Some i \<Rightarrow> Inr (wr_push (be_put 2 i) w)
      | None \<Rightarrow>
          and_then (wr_utf s (wr_push (be_put 2 NEW) w)) (\<lambda>w.
            let nxt = length (wr_interned w) in
            Inr (if nxt < NEW then w\<lparr>wr_interned := (s, nxt) # wr_interned w\<rparr> else w)))"

fun value_kind :: "xvalue \<Rightarrow> u8" where
  "value_kind XNull = TYPE_NULL"
| "value_kind (XString _) = TYPE_STRING"
| "value_kind (XInterned _) = TYPE_STRING_INTERNED"
| "value_kind (XBytesHex _) = TYPE_BYTES_HEX"
| "value_kind (XBytesBase64 _) = TYPE_BYTES_BASE64"
| "value_kind (XInt _) = TYPE_INT"
| "value_kind (XIntHex _) = TYPE_INT_HEX"
| "value_kind (XLong _) = TYPE_LONG"
| "value_kind (XLongHex _) = TYPE_LONG_HEX"
| "value_kind (XFloat _) = TYPE_FLOAT"
| "value_kind (XDouble _) = TYPE_DOUBLE"
| "value_kind (XBool b) = (if b then TYPE_BOOLEAN_TRUE else TYPE_BOOLEAN_FALSE)"

definition wr_vec :: "byte list \<Rightarrow> abx_writer \<Rightarrow> xml_error + abx_writer" where
  "wr_vec b w = and_then (wr_len (length b) w) (\<lambda>w. Inr (wr_push b w))"

fun wr_value :: "xvalue \<Rightarrow> abx_writer \<Rightarrow> xml_error + abx_writer" where
  "wr_value XNull w = Inr w"
| "wr_value (XBool _) w = Inr w"
| "wr_value (XString s) w = wr_utf s w"
| "wr_value (XInterned s) w = wr_interned_str s w"
| "wr_value (XBytesHex b) w = wr_vec b w"
| "wr_value (XBytesBase64 b) w = wr_vec b w"
| "wr_value (XInt v) w = Inr (wr_push (be_put 4 (unat v)) w)"
| "wr_value (XIntHex v) w = Inr (wr_push (be_put 4 (unat v)) w)"
| "wr_value (XLong v) w = Inr (wr_push (be_put 8 (unat v)) w)"
| "wr_value (XLongHex v) w = Inr (wr_push (be_put 8 (unat v)) w)"
| "wr_value (XFloat v) w = Inr (wr_push (be_put 4 (unat v)) w)"
| "wr_value (XDouble v) w = Inr (wr_push (be_put 8 (unat v)) w)"

definition wr_attribute :: "rstr \<times> xvalue \<Rightarrow> abx_writer \<Rightarrow> xml_error + abx_writer" where
  "wr_attribute a w =
     (case a of (name, v) \<Rightarrow>
      and_then (wr_interned_str name (wr_push [ATTRIBUTE OR value_kind v] w)) (wr_value v))"

primrec wr_attributes :: "(rstr \<times> xvalue) list \<Rightarrow> abx_writer \<Rightarrow> xml_error + abx_writer" where
  "wr_attributes [] w = Inr w"
| "wr_attributes (a # as) w = and_then (wr_attribute a w) (wr_attributes as)"

definition wr_start_element :: "element \<Rightarrow> abx_writer \<Rightarrow> xml_error + abx_writer" where
  "wr_start_element e w =
     and_then (wr_interned_str (el_name e) (wr_push [START_TAG OR TYPE_STRING_INTERNED] w))
       (wr_attributes (el_attrs e))"

definition wr_end_element :: "rstr \<Rightarrow> abx_writer \<Rightarrow> xml_error + abx_writer" where
  "wr_end_element name w = wr_interned_str name (wr_push [END_TAG OR TYPE_STRING_INTERNED] w)"

fun wr_element :: "element \<Rightarrow> abx_writer \<Rightarrow> xml_error + abx_writer"
and wr_nodes :: "xnode list \<Rightarrow> abx_writer \<Rightarrow> xml_error + abx_writer" where
  "wr_element (Element n as cs) w =
     and_then (wr_start_element (Element n as cs) w) (\<lambda>w.
       and_then (wr_nodes cs w) (wr_end_element n))"
| "wr_nodes [] w = Inr w"
| "wr_nodes (NElement e # ns) w = and_then (wr_element e w) (wr_nodes ns)"
| "wr_nodes (NToken event None # ns) w = wr_nodes ns (wr_push [event OR TYPE_NULL] w)"
| "wr_nodes (NToken event (Some s) # ns) w =
     and_then (wr_utf s (wr_push [event OR TYPE_STRING] w)) (wr_nodes ns)"

primrec wr_elements :: "element list \<Rightarrow> abx_writer \<Rightarrow> xml_error + abx_writer" where
  "wr_elements [] w = Inr w"
| "wr_elements (e # es) w = and_then (wr_element e w) (wr_elements es)"

definition abx_write_sequence :: "element list \<Rightarrow> xml_error + byte list" where
  "abx_write_sequence roots = and_then (wr_elements roots writer_default) (\<lambda>w. Inr (wr_finish w))"

definition abx_write :: "element \<Rightarrow> xml_error + byte list" where
  "abx_write root = abx_write_sequence [root]"

section \<open>What fits into the format\<close>

text \<open>
  Rust's \<open>String\<close> has scalar values only; what the format adds is the length that two bytes can
  give and the events that a token may have.
\<close>

definition string_ok :: "rstr \<Rightarrow> bool" where
  "string_ok s \<longleftrightarrow> list_all scalar s \<and> length (encode_utf s) < 2 ^ 16"

definition vec_ok :: "byte list \<Rightarrow> bool" where
  "vec_ok b \<longleftrightarrow> length b < 2 ^ 16"

fun value_ok :: "xvalue \<Rightarrow> bool" where
  "value_ok (XString s) = string_ok s"
| "value_ok (XInterned s) = string_ok s"
| "value_ok (XBytesHex b) = vec_ok b"
| "value_ok (XBytesBase64 b) = vec_ok b"
| "value_ok _ = True"

definition event_ok :: "u8 \<Rightarrow> bool" where
  "event_ok k \<longleftrightarrow> k \<in> {4, 5, 6, 7, 8, 9, 10, 11, 12, 13, 14}"

definition attr_ok :: "rstr \<times> xvalue \<Rightarrow> bool" where
  "attr_ok a \<longleftrightarrow> string_ok (fst a) \<and> value_ok (snd a)"

fun element_ok :: "element \<Rightarrow> bool"
and node_ok :: "xnode \<Rightarrow> bool" where
  "element_ok (Element n as cs) \<longleftrightarrow> string_ok n \<and> list_all attr_ok as \<and> list_all node_ok cs"
| "node_ok (NElement e) \<longleftrightarrow> element_ok e"
| "node_ok (NToken k t) \<longleftrightarrow> event_ok k \<and> pred_option string_ok t"

section \<open>Reading what was written\<close>

definition ahead :: "abx_reader \<Rightarrow> byte list \<Rightarrow> bool" where
  "ahead r b \<longleftrightarrow> rd_at r \<le> length (rd_bytes r) \<and> drop (rd_at r) (rd_bytes r) = b"

text \<open>The reader's list of interned strings is the inverse of the writer's table.\<close>

definition agree :: "abx_writer \<Rightarrow> abx_reader \<Rightarrow> bool" where
  "agree w r \<longleftrightarrow> length (wr_interned w) = length (rd_interned r) \<and>
     length (rd_interned r) \<le> NEW \<and>
     (\<forall>s i. map_of (wr_interned w) s = Some i \<longrightarrow> i < length (rd_interned r) \<and> rd_interned r ! i = s)"

text \<open>
  Going from \<open>w\<close> to \<open>w'\<close> the writer appends \<open>enc\<close>, and a reader that stands in front of these bytes
  and agrees with \<open>w\<close> reads \<open>x\<close>, stands behind them and agrees with \<open>w'\<close>.
\<close>

definition gives ::
  "abx_writer \<Rightarrow> byte list \<Rightarrow> abx_writer \<Rightarrow> (abx_reader \<Rightarrow> xml_error + 'a \<times> abx_reader) \<Rightarrow> 'a \<Rightarrow> bool"
where
  "gives w enc w' get x \<longleftrightarrow> wr_out w' = wr_out w @ enc \<and>
     (\<forall>r rest. agree w r \<and> ahead r (enc @ rest) \<longrightarrow>
        (\<exists>r'. get r = Inr (x, r') \<and> agree w' r' \<and> ahead r' rest))"

locale abx_codec =
  fixes put_val :: "'a \<Rightarrow> abx_writer \<Rightarrow> xml_error + abx_writer"
    and get_val :: "abx_reader \<Rightarrow> xml_error + 'a \<times> abx_reader"
    and fits :: "'a \<Rightarrow> bool"
  assumes put_get: "fits x \<Longrightarrow> \<exists>enc w'. put_val x w = Inr w' \<and> gives w enc w' get_val x"
    and get_fits: "get_val r = Inr (x, r') \<Longrightarrow> list_all string_ok (rd_interned r) \<Longrightarrow>
      fits x \<and> list_all string_ok (rd_interned r')"
begin

lemma put_read:
  assumes "fits x"
  obtains enc w' where "put_val x w = Inr w'" "wr_out w' = wr_out w @ enc"
    "\<And>r rest. agree w r \<Longrightarrow> ahead r (enc @ rest) \<Longrightarrow>
       \<exists>r'. get_val r = Inr (x, r') \<and> agree w' r' \<and> ahead r' rest"
  using put_get [OF assms, of w] unfolding gives_def by blast

end

lemma rd_slice_ahead:
  assumes "ahead r (b @ rest)" "n = length b"
  shows "rd_slice n r = Inr (b, r\<lparr>rd_at := rd_at r + n\<rparr>)"
    and "ahead (r\<lparr>rd_at := rd_at r + n\<rparr>) rest"
proof -
  have d: "drop (rd_at r) (rd_bytes r) = b @ rest" and at: "rd_at r \<le> length (rd_bytes r)"
    using assms by (simp_all add: ahead_def)
  then have "length (rd_bytes r) - rd_at r = length b + length rest"
    by (metis length_append length_drop)
  with at have le: "rd_at r + length b \<le> length (rd_bytes r)" by linarith
  with d show "rd_slice n r = Inr (b, r\<lparr>rd_at := rd_at r + n\<rparr>)"
    by (simp add: rd_slice_Inr assms(2))
  show "ahead (r\<lparr>rd_at := rd_at r + n\<rparr>) rest"
    using arg_cong [OF d, of "drop (length b)"] le by (simp add: ahead_def assms(2) add.commute)
qed

lemma agree_at [simp]: "agree w (r\<lparr>rd_at := n\<rparr>) = agree w r"
  by (simp add: agree_def)

lemma agree_push [simp]: "agree (wr_push b w) r = agree w r"
  by (simp add: agree_def wr_push_def)

lemma wr_out_push [simp]: "wr_out (wr_push b w) = wr_out w @ b"
  by (simp add: wr_push_def)

lemma wr_interned_push [simp]: "wr_interned (wr_push b w) = wr_interned w"
  by (simp add: wr_push_def)

lemma length_be_put [simp]: "length (be_put n x) = n"
  by (simp add: be_put_def)

lemma be_val_be_put: "x < 256 ^ n \<Longrightarrow> be_val (be_put n x) = x"
  by (simp add: be_put_def be_val_def le_val_le_put)

lemma be_val_less: "length b = n \<Longrightarrow> be_val b < 256 ^ n"
  using le_val_bound [of "rev b"] by (auto simp: be_val_def)

text \<open>Writing bytes and reading them as a slice, and two things one after the other.\<close>

lemma gives_slice: "gives w b (wr_push b w) (rd_slice (length b)) b"
  unfolding gives_def using rd_slice_ahead by fastforce

lemma gives_then:
  assumes "gives w enc1 w1 geta x" "gives w1 enc2 w2 (getb x) y"
  shows "gives w (enc1 @ enc2) w2 (\<lambda>r. and_then (geta r) (\<lambda>(x, r). getb x r)) y"
  unfolding gives_def
proof (intro conjI allI impI)
  show "wr_out w2 = wr_out w @ enc1 @ enc2" using assms by (simp add: gives_def)
next
  fix r rest assume "agree w r \<and> ahead r ((enc1 @ enc2) @ rest)"
  then obtain r1 where r1: "geta r = Inr (x, r1)" "agree w1 r1" "ahead r1 (enc2 @ rest)"
    using assms(1) unfolding gives_def by (metis append.assoc)
  then obtain r2 where "getb x r1 = Inr (y, r2)" "agree w2 r2" "ahead r2 rest"
    using assms(2) unfolding gives_def by blast
  with r1 show "\<exists>r'. and_then (geta r) (\<lambda>(x, r). getb x r) = Inr (y, r') \<and> agree w2 r' \<and>
      ahead r' rest"
    by simp
qed

lemma gives_map:
  assumes "gives w enc w' get x"
  shows "gives w enc w' (\<lambda>r. and_then (get r) (\<lambda>(x, r). Inr (f x, r))) (f x)"
  using assms unfolding gives_def by fastforce

lemma gives_u16: "x < 2 ^ 16 \<Longrightarrow> gives w (be_put 2 x) (wr_push (be_put 2 x) w) rd_u16 x"
  using gives_map [OF gives_slice [of w "be_put 2 x"], of be_val]
  by (simp add: rd_u16_def [abs_def] be_val_be_put)

lemma gives_fixed:
  assumes "x < 256 ^ n"
  shows "gives w (be_put n x) (wr_push (be_put n x) w) (rd_fixed n mk) (mk x)"
  using gives_map [OF gives_slice [of w "be_put n x"], of "\<lambda>b. mk (be_val b)"] assms
  by (simp add: rd_fixed_def [abs_def] be_val_be_put)

lemma gives_utf_of:
  assumes "gives w enc w' (\<lambda>r. and_then (rd_u16 r) (\<lambda>(len, r). rd_slice len r)) b"
    and "decode_utf b = Some s"
  shows "gives w enc w' rd_utf s"
  unfolding gives_def
proof (intro conjI allI impI)
  show "wr_out w' = wr_out w @ enc" using assms(1) by (simp add: gives_def)
next
  fix r rest assume "agree w r \<and> ahead r (enc @ rest)"
  then obtain r' where r': "and_then (rd_u16 r) (\<lambda>(len, r). rd_slice len r) = Inr (b, r')"
      "agree w' r'" "ahead r' rest"
    using assms(1) unfolding gives_def by blast
  from r'(1) assms(2) have "rd_utf r = Inr (s, r')"
    by (auto simp: rd_utf_def Let_def elim!: and_then_Inr_elim)
  with r' show "\<exists>r'. rd_utf r = Inr (s, r') \<and> agree w' r' \<and> ahead r' rest" by blast
qed

lemma gives_utf:
  assumes "string_ok s"
  shows "gives w (be_put 2 (length (encode_utf s)) @ encode_utf s)
    (wr_push (encode_utf s) (wr_push (be_put 2 (length (encode_utf s))) w)) rd_utf s"
proof -
  let ?b = "encode_utf s"
  have "gives w (be_put 2 (length ?b) @ ?b) (wr_push ?b (wr_push (be_put 2 (length ?b)) w))
      (\<lambda>r. and_then (rd_u16 r) (\<lambda>(len, r). rd_slice len r)) ?b"
    using gives_then [where geta = rd_u16 and getb = rd_slice,
        OF gives_u16 [of "length ?b" w] gives_slice [of _ ?b]] assms
    by (simp add: string_ok_def)
  moreover have "decode_utf ?b = Some s" using assms by (simp add: decode_encode_utf string_ok_def)
  ultimately show ?thesis by (rule gives_utf_of)
qed

lemma rd_u16_Inr: "rd_u16 r = Inr (x, r') \<Longrightarrow> x < 2 ^ 16 \<and> r' = r\<lparr>rd_at := rd_at r + 2\<rparr>"
  using be_val_less [of "take 2 (drop (rd_at r) (rd_bytes r))" 2]
  by (auto simp: rd_u16_def rd_slice_Inr elim!: and_then_Inr_elim)

lemma rd_utf_Inr:
  assumes "rd_utf r = Inr (s, r')"
  shows "\<exists>b. decode_utf b = Some s \<and> length b < 2 ^ 16 \<and> rd_interned r' = rd_interned r"
proof -
  from assms obtain len b r1 where "rd_u16 r = Inr (len, r1)" "rd_slice len r1 = Inr (b, r')"
    and d: "decode_utf b = Some s"
    by (auto simp: rd_utf_def Let_def elim!: and_then_Inr_elim)
  then have "len < 2 ^ 16" "length b = len" "rd_interned r' = rd_interned r"
    by (auto dest!: rd_u16_Inr simp: rd_slice_Inr)
  with d show ?thesis by auto
qed

interpretation utf: abx_codec wr_utf rd_utf string_ok
proof
  fix s w assume "string_ok s"
  then show "\<exists>enc w'. wr_utf s w = Inr w' \<and> gives w enc w' rd_utf s"
    using gives_utf [of s w] by (auto simp: wr_utf_def wr_len_def Let_def string_ok_def)
next
  fix r s r' assume "rd_utf r = Inr (s, r')" "list_all string_ok (rd_interned r)"
  then show "string_ok s \<and> list_all string_ok (rd_interned r')"
    by (auto dest!: rd_utf_Inr decode_utf_typed simp: string_ok_def)
qed

lemma gives_known:
  assumes "map_of (wr_interned w) s = Some i"
  shows "gives w (be_put 2 i) (wr_push (be_put 2 i) w) rd_interned_str s"
  unfolding gives_def
proof (intro conjI allI impI)
  fix r rest assume r: "agree w r \<and> ahead r (be_put 2 i @ rest)"
  with assms have i: "i < length (rd_interned r)" "rd_interned r ! i = s" "i < NEW"
    unfolding agree_def by force+
  with r gives_u16 [of i w] obtain r' where r': "rd_u16 r = Inr (i, r')" "ahead r' rest"
    unfolding gives_def by auto
  then have "r' = r\<lparr>rd_at := rd_at r + 2\<rparr>" by (auto dest: rd_u16_Inr)
  with r r' i show "\<exists>r'. rd_interned_str r = Inr (s, r') \<and> agree (wr_push (be_put 2 i) w) r' \<and>
      ahead r' rest"
    by (auto simp: rd_interned_str_def)
qed simp

text \<open>A string that is not in the table yet gets the next index on both sides while there is room.\<close>

definition wr_intern :: "rstr \<Rightarrow> abx_writer \<Rightarrow> abx_writer" where
  "wr_intern s w =
     (if length (wr_interned w) < NEW
      then w\<lparr>wr_interned := (s, length (wr_interned w)) # wr_interned w\<rparr> else w)"

definition rd_intern :: "rstr \<Rightarrow> abx_reader \<Rightarrow> abx_reader" where
  "rd_intern s r =
     (if length (rd_interned r) < NEW then r\<lparr>rd_interned := rd_interned r @ [s]\<rparr> else r)"

lemma agree_intern:
  "agree w r \<Longrightarrow> map_of (wr_interned w) s = None \<Longrightarrow> agree (wr_intern s w) (rd_intern s r)"
  by (auto simp: agree_def wr_intern_def rd_intern_def nth_append split: if_splits) fastforce+

lemma ahead_intern [simp]: "ahead (rd_intern s r) b = ahead r b"
  by (simp add: ahead_def rd_intern_def)

lemma wr_out_intern [simp]: "wr_out (wr_intern s w) = wr_out w"
  by (simp add: wr_intern_def)

lemma gives_new:
  assumes s: "string_ok s" "map_of (wr_interned w) s = None"
  shows "\<exists>enc w'. wr_interned_str s w = Inr w' \<and> gives w enc w' rd_interned_str s"
proof -
  let ?w1 = "wr_push (be_put 2 NEW) w"
  let ?b = "encode_utf s"
  let ?w2 = "wr_push ?b (wr_push (be_put 2 (length ?b)) ?w1)"
  let ?enc = "be_put 2 (length ?b) @ ?b"
  have out: "wr_interned_str s w = Inr (wr_intern s ?w2)"
    using s by (simp add: wr_interned_str_def wr_utf_def wr_len_def Let_def string_ok_def wr_intern_def)
  have "gives w (be_put 2 NEW @ ?enc) (wr_intern s ?w2) rd_interned_str s"
    unfolding gives_def
  proof (intro conjI allI impI)
    fix r rest assume r: "agree w r \<and> ahead r ((be_put 2 NEW @ ?enc) @ rest)"
    then obtain r1 where r1: "rd_u16 r = Inr (NEW, r1)" "agree ?w1 r1" "ahead r1 (?enc @ rest)"
      using gives_u16 [of NEW w] unfolding gives_def by auto
    then obtain r2 where r2: "rd_utf r1 = Inr (s, r2)" "agree ?w2 r2" "ahead r2 rest"
      using gives_utf [OF s(1), of ?w1] unfolding gives_def by blast
    from r1 r2 have "rd_interned_str r = Inr (s, rd_intern s r2)"
      by (simp add: rd_interned_str_def rd_intern_def)
    with r2 s(2) show "\<exists>r'. rd_interned_str r = Inr (s, r') \<and> agree (wr_intern s ?w2) r' \<and>
        ahead r' rest"
      using agree_intern [of ?w2 r2 s] by simp
  qed simp
  with out show ?thesis by blast
qed

lemma rd_interned_strings:
  assumes "rd_interned_str r = Inr (s, r')" "list_all string_ok (rd_interned r)"
  shows "string_ok s \<and> list_all string_ok (rd_interned r')"
proof -
  from assms(1) obtain i r1 where r1: "rd_u16 r = Inr (i, r1)" by (auto simp: rd_interned_str_def elim!: and_then_Inr_elim)
  then have same: "rd_interned r1 = rd_interned r" by (auto dest: rd_u16_Inr)
  show ?thesis
  proof (cases "i = NEW")
    case True
    with r1 assms(1) obtain r2 where "rd_utf r1 = Inr (s, r2)" "r' = rd_intern s r2"
      by (auto simp: rd_interned_str_def rd_intern_def elim!: and_then_Inr_elim)
    with utf.get_fits [of r1 s r2] assms(2) same show ?thesis by (auto simp: rd_intern_def)
  next
    case False
    with r1 assms same show ?thesis by (auto simp: rd_interned_str_def list_all_length split: if_splits)
  qed
qed

interpretation interned: abx_codec wr_interned_str rd_interned_str string_ok
proof
  fix s w assume "string_ok s"
  then show "\<exists>enc w'. wr_interned_str s w = Inr w' \<and> gives w enc w' rd_interned_str s"
  proof (cases "map_of (wr_interned w) s")
    case (Some i)
    with gives_known [OF this] show ?thesis by (auto simp: wr_interned_str_def)
  qed (rule gives_new)
qed (rule rd_interned_strings)

interpretation vec: abx_codec wr_vec rd_vec vec_ok
proof
  fix b w assume "vec_ok b"
  then have "gives w (be_put 2 (length b) @ b) (wr_push b (wr_push (be_put 2 (length b)) w)) rd_vec b"
    using gives_then [where geta = rd_u16 and getb = rd_slice,
        OF gives_u16 [of "length b" w] gives_slice [of _ b]]
    by (simp add: vec_ok_def rd_vec_def [abs_def])
  with \<open>vec_ok b\<close> show "\<exists>enc w'. wr_vec b w = Inr w' \<and> gives w enc w' rd_vec b"
    by (auto simp: wr_vec_def wr_len_def vec_ok_def)
next
  fix r b r' assume "rd_vec r = Inr (b, r')" "list_all string_ok (rd_interned r)"
  then show "vec_ok b \<and> list_all string_ok (rd_interned r')"
    by (auto simp: rd_vec_def rd_slice_Inr vec_ok_def elim!: and_then_Inr_elim dest!: rd_u16_Inr)
qed

lemma gives_const: "gives w [] w (\<lambda>r. Inr (x, r)) x"
  by (simp add: gives_def)

lemma rd_value_kinds:
  "rd_value TYPE_NULL = (\<lambda>r. Inr (XNull, r))"
  "rd_value TYPE_STRING = (\<lambda>r. and_then (rd_utf r) (\<lambda>(s, r). Inr (XString s, r)))"
  "rd_value TYPE_STRING_INTERNED = (\<lambda>r. and_then (rd_interned_str r) (\<lambda>(s, r). Inr (XInterned s, r)))"
  "rd_value TYPE_BYTES_HEX = (\<lambda>r. and_then (rd_vec r) (\<lambda>(b, r). Inr (XBytesHex b, r)))"
  "rd_value TYPE_BYTES_BASE64 = (\<lambda>r. and_then (rd_vec r) (\<lambda>(b, r). Inr (XBytesBase64 b, r)))"
  "rd_value TYPE_INT = rd_fixed 4 (\<lambda>v. XInt (of_nat v))"
  "rd_value TYPE_INT_HEX = rd_fixed 4 (\<lambda>v. XIntHex (of_nat v))"
  "rd_value TYPE_LONG = rd_fixed 8 (\<lambda>v. XLong (of_nat v))"
  "rd_value TYPE_LONG_HEX = rd_fixed 8 (\<lambda>v. XLongHex (of_nat v))"
  "rd_value TYPE_FLOAT = rd_fixed 4 (\<lambda>v. XFloat (of_nat v))"
  "rd_value TYPE_DOUBLE = rd_fixed 8 (\<lambda>v. XDouble (of_nat v))"
  "rd_value TYPE_BOOLEAN_TRUE = (\<lambda>r. Inr (XBool True, r))"
  "rd_value TYPE_BOOLEAN_FALSE = (\<lambda>r. Inr (XBool False, r))"
  by (simp_all add: rd_value_def fun_eq_iff)

lemma unat_4: "unat (v :: 32 word) < 256 ^ 4" and unat_8: "unat (x :: 64 word) < 256 ^ 8"
  using unsigned_less [of v, where 'a = nat] unsigned_less [of x, where 'a = nat] by simp_all

lemma gives_value:
  assumes "value_ok v"
  shows "\<exists>enc w'. wr_value v w = Inr w' \<and> gives w enc w' (rd_value (value_kind v)) v"
proof (cases v)
  case (XString s)
  with assms utf.put_get [of s w] show ?thesis
    by (auto simp: rd_value_kinds intro!: gives_map [of w _ _ rd_utf s XString])
next
  case (XInterned s)
  with assms interned.put_get [of s w] show ?thesis
    by (auto simp: rd_value_kinds intro!: gives_map [of w _ _ rd_interned_str s XInterned])
next
  case (XBytesHex b)
  with assms vec.put_get [of b w] show ?thesis
    by (auto simp: rd_value_kinds intro!: gives_map [of w _ _ rd_vec b XBytesHex])
next
  case (XBytesBase64 b)
  with assms vec.put_get [of b w] show ?thesis
    by (auto simp: rd_value_kinds intro!: gives_map [of w _ _ rd_vec b XBytesBase64])
next
  case (XInt i)
  then show ?thesis
    using gives_fixed [OF unat_4, of w i "\<lambda>v. XInt (of_nat v)"] by (auto simp: rd_value_kinds)
next
  case (XIntHex i)
  then show ?thesis
    using gives_fixed [OF unat_4, of w i "\<lambda>v. XIntHex (of_nat v)"] by (auto simp: rd_value_kinds)
next
  case (XLong i)
  then show ?thesis
    using gives_fixed [OF unat_8, of w i "\<lambda>v. XLong (of_nat v)"] by (auto simp: rd_value_kinds)
next
  case (XLongHex i)
  then show ?thesis
    using gives_fixed [OF unat_8, of w i "\<lambda>v. XLongHex (of_nat v)"] by (auto simp: rd_value_kinds)
next
  case (XFloat i)
  then show ?thesis
    using gives_fixed [OF unat_4, of w i "\<lambda>v. XFloat (of_nat v)"] by (auto simp: rd_value_kinds)
next
  case (XDouble i)
  then show ?thesis
    using gives_fixed [OF unat_8, of w i "\<lambda>v. XDouble (of_nat v)"] by (auto simp: rd_value_kinds)
next
  case (XBool b)
  then show ?thesis
    using gives_const [of w "XBool b"] by (cases b) (auto simp: rd_value_kinds)
qed (use gives_const [of w XNull] in \<open>auto simp: rd_value_kinds\<close>)

lemma rd_fixed_strings: "rd_fixed n mk r = Inr (v, r') \<Longrightarrow> \<exists>x. v = mk x \<and> rd_interned r' = rd_interned r"
  by (auto simp: rd_fixed_def rd_slice_Inr elim!: and_then_Inr_elim)

lemma rd_value_strings:
  assumes "rd_value k r = Inr (v, r')" "list_all string_ok (rd_interned r)"
  shows "value_ok v \<and> list_all string_ok (rd_interned r')"
  using assms
  by (auto simp: rd_value_def elim!: and_then_Inr_elim split: if_splits
      dest!: rd_fixed_strings utf.get_fits interned.get_fits vec.get_fits)

section \<open>The loop over the tokens\<close>

definition runs ::
  "abx_writer \<Rightarrow> byte list \<Rightarrow> abx_writer \<Rightarrow> element list \<times> element list \<Rightarrow>
     element list \<times> element list \<Rightarrow> bool" where
  "runs w enc w' st st' \<longleftrightarrow> wr_out w' = wr_out w @ enc \<and>
     (\<forall>r rest. agree w r \<and> ahead r (enc @ rest) \<longrightarrow>
        (\<exists>r'. abx_read_loop (r, st) = abx_read_loop (r', st') \<and> agree w' r' \<and> ahead r' rest))"

lemma runs_refl: "runs w [] w st st"
  by (auto simp: runs_def)

lemma runs_trans:
  assumes "runs w enc1 w1 st st1" "runs w1 enc2 w2 st1 st2"
  shows "runs w (enc1 @ enc2) w2 st st2"
  unfolding runs_def
proof (intro conjI allI impI)
  show "wr_out w2 = wr_out w @ enc1 @ enc2" using assms by (simp add: runs_def)
next
  fix r rest assume "agree w r \<and> ahead r ((enc1 @ enc2) @ rest)"
  then obtain r1 where r1: "abx_read_loop (r, st) = abx_read_loop (r1, st1)" "agree w1 r1"
      "ahead r1 (enc2 @ rest)"
    using assms(1) unfolding runs_def by (metis append.assoc)
  then show "\<exists>r'. abx_read_loop (r, st) = abx_read_loop (r', st2) \<and> agree w2 r' \<and> ahead r' rest"
    using assms(2) unfolding runs_def by metis
qed

lemma runs_event:
  assumes "gives (wr_push [token] w) enc w' get x"
    and ev: "\<And>r r'. get r = Inr (x, r') \<Longrightarrow> abx_event token (r, st) = Inr (False, r', st')"
  shows "runs w (token # enc) w' st st'"
  unfolding runs_def
proof (intro conjI allI impI)
  show "wr_out w' = wr_out w @ token # enc" using assms(1) by (simp add: gives_def)
next
  fix r rest assume r: "agree w r \<and> ahead r ((token # enc) @ rest)"
  let ?r1 = "r\<lparr>rd_at := rd_at r + 1\<rparr>"
  from r have tok: "rd_slice 1 r = Inr ([token], ?r1)" "ahead ?r1 (enc @ rest)"
    using rd_slice_ahead [of r "[token]" "enc @ rest" 1] by simp_all
  moreover from r have "agree (wr_push [token] w) ?r1" by simp
  ultimately obtain r' where r': "get ?r1 = Inr (x, r')" "agree w' r'" "ahead r' rest"
    using assms(1) unfolding gives_def by blast
  from tok(1) ev [OF r'(1)] have "abx_turn (r, st) = Inr (False, r', st')" by (simp add: abx_turn_def)
  with r' show "\<exists>r'. abx_read_loop (r, st) = abx_read_loop (r', st') \<and> agree w' r' \<and> ahead r' rest"
    by (auto simp: abx_read_loop.simps [of "(r, st)"])
qed

lemma runs_start:
  assumes "string_ok n"
  shows "\<exists>enc w'. wr_interned_str n (wr_push [START_TAG OR TYPE_STRING_INTERNED] w) = Inr w' \<and>
    (\<forall>opened roots. runs w enc w' (opened, roots) (Element n [] [] # opened, roots))"
proof -
  obtain enc w' where "wr_interned_str n (wr_push [START_TAG OR TYPE_STRING_INTERNED] w) = Inr w'"
    and g: "gives (wr_push [START_TAG OR TYPE_STRING_INTERNED] w) enc w' rd_interned_str n"
    using interned.put_get [OF assms] by blast
  moreover have "runs w ((START_TAG OR TYPE_STRING_INTERNED) # enc) w' (opened, roots)
      (Element n [] [] # opened, roots)" for opened roots
    by (rule runs_event [OF g]) (simp add: abx_event_def)
  ultimately show ?thesis by blast
qed

lemma value_kind_token:
  "(ATTRIBUTE OR value_kind v) AND 0x0F = ATTRIBUTE" "(ATTRIBUTE OR value_kind v) AND 0xF0 = value_kind v"
  by (cases v; simp)+

lemma runs_attribute:
  assumes "attr_ok a"
  shows "\<exists>enc w'. wr_attribute a w = Inr w' \<and>
    (\<forall>e es roots. runs w enc w' (e # es, roots) (push_attr a e # es, roots))"
proof -
  obtain n v where a: "a = (n, v)" "string_ok n" "value_ok v" using assms by (cases a) (auto simp: attr_ok_def)
  let ?t = "ATTRIBUTE OR value_kind v"
  obtain enc1 w1 where w1: "wr_interned_str n (wr_push [?t] w) = Inr w1"
    and g1: "gives (wr_push [?t] w) enc1 w1 rd_interned_str n"
    using interned.put_get [OF a(2)] by blast
  obtain enc2 w2 where w2: "wr_value v w1 = Inr w2"
    and g2: "gives w1 enc2 w2 (rd_value (value_kind v)) v"
    using gives_value [OF a(3)] by blast
  note g = gives_then [where geta = rd_interned_str
      and getb = "\<lambda>n r. and_then (rd_value (value_kind v) r) (\<lambda>(v, r). Inr ((n, v), r))",
      OF g1 gives_map [OF g2, of "Pair n"]]
  have "runs w (?t # enc1 @ enc2) w2 (e # es, roots) (push_attr a e # es, roots)" for e es roots
    by (rule runs_event [OF g])
      (auto simp: abx_event_def Let_def value_kind_token a elim!: and_then_Inr_elim)
  with w1 w2 a show ?thesis by (auto simp: wr_attribute_def)
qed

lemma runs_attributes:
  assumes "list_all attr_ok as"
  shows "\<exists>enc w'. wr_attributes as w = Inr w' \<and>
    (\<forall>n bs cs es roots.
       runs w enc w' (Element n bs cs # es, roots) (Element n (bs @ as) cs # es, roots))"
  using assms
proof (induction as arbitrary: w)
  case Nil
  then show ?case using runs_refl by fastforce
next
  case (Cons a as)
  then obtain enc1 w1 where w1: "wr_attribute a w = Inr w1"
    and r1: "\<And>e es roots. runs w enc1 w1 (e # es, roots) (push_attr a e # es, roots)"
    using runs_attribute [of a w] by auto
  from Cons.IH [of w1] Cons.prems obtain enc2 w2 where w2: "wr_attributes as w1 = Inr w2"
    and r2: "\<And>n bs cs es roots.
       runs w1 enc2 w2 (Element n bs cs # es, roots) (Element n (bs @ as) cs # es, roots)"
    by auto
  have "runs w (enc1 @ enc2) w2 (Element n bs cs # es, roots) (Element n (bs @ a # as) cs # es, roots)"
    for n bs cs es roots
    using runs_trans [OF r1 [of "Element n bs cs" es roots, unfolded push_attr_def] r2]
    by (simp add: push_attr_def)
  with w1 w2 show ?case by auto
qed

lemma event_token:
  assumes "event_ok k"
  shows "(k OR TYPE_NULL) AND 0x0F = k" "(k OR TYPE_NULL) AND 0xF0 = TYPE_NULL"
    "(k OR TYPE_STRING) AND 0x0F = k" "(k OR TYPE_STRING) AND 0xF0 = TYPE_STRING"
    "k \<noteq> START_TAG" "k \<noteq> ATTRIBUTE" "k \<noteq> END_TAG" "k \<noteq> START_DOCUMENT" "k \<noteq> END_DOCUMENT"
  using assms unfolding event_ok_def by auto

lemma runs_null_token:
  assumes "event_ok k"
  shows "runs w [k OR TYPE_NULL] (wr_push [k OR TYPE_NULL] w) (e # es, roots)
    (push_node (NToken k None) e # es, roots)"
  by (rule runs_event [OF gives_const [of _ "()"]])
    (simp add: abx_event_def Let_def event_token [OF assms] rd_value_kinds)

lemma runs_text_token:
  assumes "event_ok k" "string_ok s"
  shows "\<exists>enc w'. wr_utf s (wr_push [k OR TYPE_STRING] w) = Inr w' \<and>
    (\<forall>e es roots. runs w enc w' (e # es, roots) (push_node (NToken k (Some s)) e # es, roots))"
proof -
  obtain enc w' where "wr_utf s (wr_push [k OR TYPE_STRING] w) = Inr w'"
    and g: "gives (wr_push [k OR TYPE_STRING] w) enc w' rd_utf s"
    using utf.put_get [OF assms(2)] by blast
  moreover have "runs w ((k OR TYPE_STRING) # enc) w' (e # es, roots)
      (push_node (NToken k (Some s)) e # es, roots)" for e es roots
    by (rule runs_event [OF g])
      (simp add: abx_event_def Let_def event_token [OF assms(1)] rd_value_kinds)
  ultimately show ?thesis by blast
qed

text \<open>Where an element goes when its end tag is read.\<close>

fun attach :: "element \<Rightarrow> element list \<Rightarrow> element list \<Rightarrow> element list \<times> element list" where
  "attach e [] roots = ([], roots @ [e])"
| "attach e (parent # ps) roots = (push_node (NElement e) parent # ps, roots)"

lemma close_attach: "el_name e = n \<Longrightarrow> close_element n (e # es) roots = Inr (attach e es roots)"
  by (cases es) auto

lemma runs_end:
  assumes "string_ok n"
  shows "\<exists>enc w'. wr_end_element n w = Inr w' \<and>
    (\<forall>as cs opened roots.
       runs w enc w' (Element n as cs # opened, roots) (attach (Element n as cs) opened roots))"
proof -
  obtain enc w' where "wr_end_element n w = Inr w'"
    and g: "gives (wr_push [END_TAG OR TYPE_STRING_INTERNED] w) enc w' rd_interned_str n"
    unfolding wr_end_element_def using interned.put_get [OF assms] by blast
  moreover have "runs w ((END_TAG OR TYPE_STRING_INTERNED) # enc) w' (Element n as cs # opened, roots)
      (attach (Element n as cs) opened roots)" for as cs opened roots
    by (rule runs_event [OF g])
      (simp add: abx_event_def close_attach split: prod.split del: close_element.simps)
  ultimately show ?thesis by blast
qed

lemma runs_nodes_step:
  assumes "\<And>e es roots. runs w enc1 w1 (e # es, roots) (push_node m e # es, roots)"
    and "\<And>n as cs es roots.
      runs w1 enc2 w2 (Element n as cs # es, roots) (Element n as (cs @ ns) # es, roots)"
  shows "runs w (enc1 @ enc2) w2 (Element n as cs # es, roots) (Element n as (cs @ m # ns) # es, roots)"
  using runs_trans [OF assms(1) [of "Element n as cs" es roots, unfolded push_node_def] assms(2)]
  by (simp add: push_node_def)

lemma runs_element:
  "element_ok e \<Longrightarrow> \<exists>enc w'. wr_element e w = Inr w' \<and>
     (\<forall>opened roots. runs w enc w' (opened, roots) (attach e opened roots))"
  "list_all node_ok ns \<Longrightarrow> \<exists>enc w'. wr_nodes ns w = Inr w' \<and>
     (\<forall>n as cs es roots.
        runs w enc w' (Element n as cs # es, roots) (Element n as (cs @ ns) # es, roots))"
proof (induction e w and ns w rule: wr_element_wr_nodes.induct)
  case (1 n as cs w)
  then have ok: "string_ok n" "list_all attr_ok as" "list_all node_ok cs" by simp_all
  obtain enc1 w1 where w1: "wr_interned_str n (wr_push [START_TAG OR TYPE_STRING_INTERNED] w) = Inr w1"
    and r1: "\<And>opened roots. runs w enc1 w1 (opened, roots) (Element n [] [] # opened, roots)"
    using runs_start [OF ok(1)] by blast
  obtain enc2 w2 where w2: "wr_attributes as w1 = Inr w2"
    and r2: "\<And>n bs cs es roots.
      runs w1 enc2 w2 (Element n bs cs # es, roots) (Element n (bs @ as) cs # es, roots)"
    using runs_attributes [OF ok(2)] by blast
  obtain enc3 w3 where w3: "wr_nodes cs w2 = Inr w3"
    and r3: "\<And>n as bs es roots.
      runs w2 enc3 w3 (Element n as bs # es, roots) (Element n as (bs @ cs) # es, roots)"
    using "1.IH" [OF ok(3)] by blast
  obtain enc4 w4 where w4: "wr_end_element n w3 = Inr w4"
    and r4: "\<And>as cs opened roots.
      runs w3 enc4 w4 (Element n as cs # opened, roots) (attach (Element n as cs) opened roots)"
    using runs_end [OF ok(1)] by blast
  have "runs w (enc1 @ enc2 @ enc3 @ enc4) w4 (opened, roots) (attach (Element n as cs) opened roots)"
    for opened roots
    using runs_trans [OF r1 runs_trans [OF r2 runs_trans [OF r3 r4]], of opened roots] by simp
  moreover have "wr_element (Element n as cs) w = Inr w4"
    using w1 w2 w3 w4 by (simp add: wr_start_element_def)
  ultimately show ?case by blast
next
  case (2 w)
  have "runs w [] w (Element n as cs # es, roots) (Element n as (cs @ []) # es, roots)"
    for n as cs es roots
    using runs_refl by simp
  then show ?case unfolding wr_nodes.simps by blast
next
  case (3 e ns w)
  then have ok: "element_ok e" "list_all node_ok ns" by simp_all
  obtain enc1 w1 where w1: "wr_element e w = Inr w1"
    and r1: "\<And>opened roots. runs w enc1 w1 (opened, roots) (attach e opened roots)"
    using "3.IH"(1) [OF ok(1)] by blast
  obtain enc2 w2 where w2: "wr_nodes ns w1 = Inr w2"
    and r2: "\<And>n as cs es roots.
      runs w1 enc2 w2 (Element n as cs # es, roots) (Element n as (cs @ ns) # es, roots)"
    using "3.IH"(2) [OF ok(2), of w1] by blast
  have r1': "runs w enc1 w1 (e' # es, roots) (push_node (NElement e) e' # es, roots)" for e' es roots
    using r1 [of "e' # es" roots] by simp
  have "wr_nodes (NElement e # ns) w = Inr w2" using w1 w2 by simp
  then show ?case using runs_nodes_step [OF r1' r2] by blast
next
  case (4 k ns w)
  then have ok: "event_ok k" "list_all node_ok ns" by simp_all
  let ?w = "wr_push [k OR TYPE_NULL] w"
  obtain enc w' where w': "wr_nodes ns ?w = Inr w'"
    and r: "\<And>n as cs es roots.
      runs ?w enc w' (Element n as cs # es, roots) (Element n as (cs @ ns) # es, roots)"
    using "4.IH" [OF ok(2)] by blast
  have "wr_nodes (NToken k None # ns) w = Inr w'" using w' by simp
  then show ?case using runs_nodes_step [OF runs_null_token [OF ok(1)] r] by blast
next
  case (5 k s ns w)
  then have ok: "event_ok k" "string_ok s" "list_all node_ok ns" by simp_all
  obtain enc1 w1 where w1: "wr_utf s (wr_push [k OR TYPE_STRING] w) = Inr w1"
    and r1: "\<And>e es roots. runs w enc1 w1 (e # es, roots) (push_node (NToken k (Some s)) e # es, roots)"
    using runs_text_token [OF ok(1,2), of w] by blast
  obtain enc2 w2 where w2: "wr_nodes ns w1 = Inr w2"
    and r2: "\<And>n as cs es roots.
      runs w1 enc2 w2 (Element n as cs # es, roots) (Element n as (cs @ ns) # es, roots)"
    using "5.IH" [OF ok(3), of w1] by blast
  have "wr_nodes (NToken k (Some s) # ns) w = Inr w2" using w1 w2 by simp
  then show ?case using runs_nodes_step [OF r1 r2] by blast
qed

lemma runs_elements:
  "list_all element_ok es \<Longrightarrow> \<exists>enc w'. wr_elements es w = Inr w' \<and>
     (\<forall>roots. runs w enc w' ([], roots) ([], roots @ es))"
proof (induction es arbitrary: w)
  case Nil
  have "runs w [] w ([], roots) ([], roots @ [])" for roots using runs_refl by simp
  then show ?case unfolding wr_elements.simps by blast
next
  case (Cons e es)
  then have ok: "element_ok e" "list_all element_ok es" by simp_all
  obtain enc1 w1 where w1: "wr_element e w = Inr w1"
    and r1: "\<And>opened roots. runs w enc1 w1 (opened, roots) (attach e opened roots)"
    using runs_element(1) [OF ok(1)] by blast
  obtain enc2 w2 where w2: "wr_elements es w1 = Inr w2"
    and r2: "\<And>roots. runs w1 enc2 w2 ([], roots) ([], roots @ es)"
    using Cons.IH [OF ok(2)] by blast
  have "runs w (enc1 @ enc2) w2 ([], roots) ([], roots @ e # es)" for roots
    using runs_trans [OF r1 [of "[]", unfolded attach.simps] r2, of roots] by simp
  moreover have "wr_elements (e # es) w = Inr w2" using w1 w2 by simp
  ultimately show ?case by blast
qed

section \<open>Whole documents\<close>

lemma turn_byte: "ahead r (b # rest) \<Longrightarrow>
    abx_turn (r, st) = abx_event b (r\<lparr>rd_at := rd_at r + 1\<rparr>, st) \<and>
    ahead (r\<lparr>rd_at := rd_at r + 1\<rparr>) rest"
  using rd_slice_ahead [of r "[b]" rest 1] by (simp add: abx_turn_def)

lemma read_written:
  assumes "list_all element_ok roots"
  shows "\<exists>out. abx_write_sequence roots = Inr out \<and> abx_read_sequence out = Inr roots"
proof -
  obtain enc w where w: "wr_elements roots writer_default = Inr w"
    and run: "\<And>rs. runs writer_default enc w ([], rs) ([], rs @ roots)"
    using runs_elements [OF assms] by blast
  define out where "out = MAGIC @ [0x10] @ enc @ [0x11]"
  have "wr_finish w = out"
    using run [of "[]"] by (simp add: runs_def writer_default_def wr_finish_def out_def)
  then have wrote: "abx_write_sequence roots = Inr out" using w by (simp add: abx_write_sequence_def)
  define r where "r = \<lparr>rd_bytes = out, rd_at = length MAGIC, rd_interned = []\<rparr>"
  let ?r1 = "r\<lparr>rd_at := rd_at r + 1\<rparr>"
  have "ahead r (0x10 # enc @ [0x11])" by (simp add: ahead_def r_def out_def)
  note t = turn_byte [OF this, of "([], [])"]
  have "agree writer_default ?r1" by (simp add: agree_def writer_default_def r_def)
  then obtain r2 where r2: "abx_read_loop (?r1, [], []) = abx_read_loop (r2, [], roots)"
      "ahead r2 [0x11]"
    using run [of "[]"] t unfolding runs_def by fastforce
  have "abx_read_loop (r, [], []) = abx_read_loop (?r1, [], [])"
    using t by (subst abx_read_loop.simps) (simp add: abx_event_def)
  moreover have "abx_read_loop (r2, [], roots) = Inr ([], roots)"
    using turn_byte [OF r2(2), of "([], roots)"]
    by (subst abx_read_loop.simps) (simp add: abx_event_def)
  ultimately have "abx_read_loop (r, [], []) = Inr ([], roots)" using r2 by simp
  then have "abx_read_sequence out = Inr roots"
    by (simp add: abx_read_sequence_def r_def out_def)
  with wrote show ?thesis by blast
qed

lemma event_cases: "(t :: byte) AND 0x0F \<in> {0, 1, 2, 3, 4, 5, 6, 7, 8, 9, 10, 11, 12, 13, 14, 15}"
proof -
  have "unat (t AND 0x0F) \<in> set [0..<16]" using unat_and_less [of t "0x0F"] by simp
  then have "t AND 0x0F \<in> of_nat ` set [0..<16]" by (intro image_eqI [of _ _ "unat (t AND 0x0F)"]) auto
  then show ?thesis by (simp add: upt_conv_Cons)
qed

text \<open>The loop keeps what is open, the roots and the interned strings within the format.\<close>

definition loop_ok :: "abx_loop \<Rightarrow> bool" where
  "loop_ok l = (case l of (r, opened, roots) \<Rightarrow>
     list_all string_ok (rd_interned r) \<and> list_all element_ok opened \<and> list_all element_ok roots)"

lemma push_attr_ok: "element_ok e \<Longrightarrow> attr_ok a \<Longrightarrow> element_ok (push_attr a e)"
  by (cases e) (simp add: push_attr_def)

lemma push_node_ok: "element_ok e \<Longrightarrow> node_ok n \<Longrightarrow> element_ok (push_node n e)"
  by (cases e) (simp add: push_node_def)

lemma close_element_ok:
  "close_element n opened roots = Inr (opened', roots') \<Longrightarrow>
     list_all element_ok opened \<Longrightarrow> list_all element_ok roots \<Longrightarrow>
     list_all element_ok opened' \<and> list_all element_ok roots'"
  by (cases opened) (auto simp: push_node_ok split: if_splits list.splits)

lemma token_text_ok: "token_text k v = Inr t \<Longrightarrow> value_ok v \<Longrightarrow> pred_option string_ok t"
  by (cases v) auto

lemma abx_event_ok:
  assumes "abx_event token l = Inr (d, l')" "loop_ok l"
  shows "loop_ok l'"
proof -
  obtain r opened roots where l: "l = (r, opened, roots)" by (cases l)
  define event where "event = token AND 0x0F"
  consider (start) "event = START_TAG" | (attr) "event = ATTRIBUTE" | (end_tag) "event = END_TAG"
    | (doc) "event = START_DOCUMENT \<or> event = END_DOCUMENT" | (other) "event_ok event"
    using event_cases [of token] unfolding event_def event_ok_def by auto
  then show ?thesis
  proof cases
    case start
    with assms show ?thesis
      by (auto simp: l abx_event_def event_def [symmetric] Let_def loop_ok_def
          elim!: and_then_Inr_elim dest!: interned.get_fits)
  next
    case attr
    with assms show ?thesis
      by (auto simp: l abx_event_def event_def [symmetric] Let_def loop_ok_def attr_ok_def push_attr_ok
          elim!: and_then_Inr_elim dest!: interned.get_fits rd_value_strings split: list.splits)
  next
    case end_tag
    with assms show ?thesis
      by (auto simp: l abx_event_def event_def [symmetric] Let_def loop_ok_def
          elim!: and_then_Inr_elim dest!: interned.get_fits close_element_ok)
  next
    case doc
    with assms show ?thesis
      by (auto simp: l abx_event_def event_def [symmetric] Let_def loop_ok_def)
  next
    case other
    with assms event_token(5-9) [OF other] show ?thesis
      by (auto simp: l abx_event_def event_def [symmetric] Let_def loop_ok_def push_node_ok
          token_text_ok elim!: and_then_Inr_elim dest!: rd_value_strings split: list.splits)
  qed
qed

lemma abx_turn_ok: "abx_turn l = Inr (d, l') \<Longrightarrow> loop_ok l \<Longrightarrow> loop_ok l'"
  by (cases l) (auto simp: abx_turn_def rd_slice_Inr loop_ok_def elim!: and_then_Inr_elim
      dest!: abx_event_ok)

lemma abx_read_loop_ok:
  "abx_read_loop l = Inr (opened, roots) \<Longrightarrow> loop_ok l \<Longrightarrow> list_all element_ok roots"
proof (induction l rule: abx_read_loop.induct)
  case (1 l)
  from "1.prems"(1) obtain d l' where t: "abx_turn l = Inr (d, l')"
    by (subst (asm) abx_read_loop.simps) (auto split: sum.splits)
  have ok: "loop_ok l'" by (rule abx_turn_ok [OF t "1.prems"(2)])
  show ?case
  proof (cases d)
    case True
    with t ok "1.prems"(1) show ?thesis
      by (subst (asm) abx_read_loop.simps) (cases l', auto simp: loop_ok_def)
  next
    case False
    with t "1.prems"(1) have "abx_read_loop l' = Inr (opened, roots)"
      by (subst (asm) abx_read_loop.simps) auto
    with "1.IH" [OF t refl] False ok show ?thesis by simp
  qed
qed

lemma read_typed: "abx_read_sequence bytes = Inr roots \<Longrightarrow> list_all element_ok roots"
  by (auto simp: abx_read_sequence_def loop_ok_def split: if_splits elim!: and_then_Inr_elim
      dest!: abx_read_loop_ok)

text \<open>The only way a write fails is a string or a byte array that two bytes of length cannot give.\<close>

lemma wr_utf_error: "wr_utf s w = Inl e \<Longrightarrow> \<exists>n\<ge>2 ^ 16. e = TooLong n"
  by (auto simp: wr_utf_def wr_len_def Let_def split: if_splits)

lemma wr_interned_error: "wr_interned_str s w = Inl e \<Longrightarrow> \<exists>n\<ge>2 ^ 16. e = TooLong n"
proof (cases "map_of (wr_interned w) s")
  case None
  assume "wr_interned_str s w = Inl e"
  with None wr_utf_error [of s "wr_push (be_put 2 NEW) w"] show ?thesis
    by (cases "wr_utf s (wr_push (be_put 2 NEW) w)") (auto simp: wr_interned_str_def Let_def)
qed (simp add: wr_interned_str_def)

lemma wr_value_error: "wr_value v w = Inl e \<Longrightarrow> \<exists>n\<ge>2 ^ 16. e = TooLong n"
  by (cases v) (auto simp: wr_vec_def wr_len_def split: if_splits
      dest!: wr_utf_error wr_interned_error)

lemma and_then_Inl: "and_then x f = Inl e \<longleftrightarrow> x = Inl e \<or> (\<exists>y. x = Inr y \<and> f y = Inl e)"
  by (cases x) auto

lemma wr_attributes_error: "wr_attributes as w = Inl e \<Longrightarrow> \<exists>n\<ge>2 ^ 16. e = TooLong n"
  by (induction as arbitrary: w)
    (auto simp: wr_attribute_def and_then_Inl dest!: wr_interned_error wr_value_error)

lemma wr_element_error:
  "wr_element x w = Inl e \<Longrightarrow> \<exists>n\<ge>2 ^ 16. e = TooLong n"
  "wr_nodes ns w = Inl e \<Longrightarrow> \<exists>n\<ge>2 ^ 16. e = TooLong n"
  by (induction x w and ns w rule: wr_element_wr_nodes.induct)
    (auto simp: wr_start_element_def wr_end_element_def and_then_Inl
      dest!: wr_interned_error wr_utf_error wr_attributes_error)

lemma wr_elements_error: "wr_elements es w = Inl e \<Longrightarrow> \<exists>n\<ge>2 ^ 16. e = TooLong n"
  by (induction es arbitrary: w) (auto simp: and_then_Inl dest!: wr_element_error(1))

text \<open>
  Property C18. A document whose strings are Unicode, whose strings and byte arrays have lengths that
  two bytes can give and whose tokens have an event of their own is written without error, and
  reading the bytes gives it back: every element, attribute with its type, token and their order,
  however its strings repeat. Read as a document with one root, several roots are an error. A write
  that fails names a length of 65536 or more.
\<close>

theorem abx_roundtrip:
  "(list_all element_ok roots \<longrightarrow>
      (\<exists>out. abx_write_sequence roots = Inr out \<and> abx_read_sequence out = Inr roots \<and>
         abx_read out = (case roots of [] \<Rightarrow> Inl NoRoot | [root] \<Rightarrow> Inr root | _ \<Rightarrow> Inl SecondRoot))) \<and>
    (\<forall>e. abx_write_sequence roots = Inl e \<longrightarrow> (\<exists>n\<ge>2 ^ 16. e = TooLong n))"
proof (intro conjI impI allI)
  assume "list_all element_ok roots"
  then obtain out where "abx_write_sequence roots = Inr out" "abx_read_sequence out = Inr roots"
    using read_written by blast
  then show "\<exists>out. abx_write_sequence roots = Inr out \<and> abx_read_sequence out = Inr roots \<and>
      abx_read out = (case roots of [] \<Rightarrow> Inl NoRoot | [root] \<Rightarrow> Inr root | _ \<Rightarrow> Inl SecondRoot)"
    by (auto simp: abx_read_def abx_read_optional_def split: list.split)
next
  fix e assume "abx_write_sequence roots = Inl e"
  then show "\<exists>n\<ge>2 ^ 16. e = TooLong n"
    by (auto simp: abx_write_sequence_def and_then_Inl dest: wr_elements_error)
qed

definition sample_document :: element where
  "sample_document =
     Element (lit ''packages'') []
       [NElement (Element (lit ''package'')
          [(lit ''name'', XInterned (lit ''packages'')), (lit ''userId'', XInt 1000),
           (lit ''ft'', XLongHex (- 1)), (lit ''key'', XBytesHex [0x30, 0x82])]
          [NToken TEXT (Some [0, 0x20AC, 0x1F600])]),
        NToken COMMENT None]"

lemma sample_ok: "element_ok sample_document"
  by (simp add: sample_document_def lit_def of_char_def string_ok_def scalar_def encode_char_def
      encode_utf8_def attr_ok_def event_ok_def vec_ok_def)

theorem abx_roundtrip_witness:
  "\<exists>out. abx_write_sequence [sample_document] = Inr out \<and>
     abx_read_sequence out = Inr [sample_document] \<and> abx_read out = Inr sample_document"
  using abx_roundtrip [of "[sample_document]"] sample_ok by simp

text \<open>
  Property C20. Whatever bytes are read as binary XML without error, every string of the document is a
  sequence of Unicode scalar values, every length fits into two bytes and every token has an event of
  its own. Therefore the document can be written, and reading that gives the same document, even
  where the bytes differ from the first ones (six-byte surrogate pairs, overlong forms).
\<close>

theorem abx_read_typed:
  assumes "abx_read_sequence bytes = Inr roots"
  shows "list_all element_ok roots \<and>
    (\<exists>out. abx_write_sequence roots = Inr out \<and> abx_read_sequence out = Inr roots)"
  using read_typed [OF assms] read_written by blast

text \<open>An element whose name is one character, written as two surrogates of three bytes each.\<close>

definition surrogate_document :: "byte list" where
  "surrogate_document =
     MAGIC @ [0x10, 0x32, 0xFF, 0xFF, 0, 6, 0xED, 0xA0, 0xBD, 0xED, 0xB8, 0x80, 0x33, 0, 0, 0x11]"

lemmas abx_simps = abx_read_sequence_def abx_read_loop.simps abx_turn_def abx_event_def Let_def
  rd_slice_def slice_def rd_interned_str_def rd_u16_def rd_utf_def rd_value_def rd_vec_def
  rd_fixed_def be_val_def MAGIC_def decode_utf_def decode_units.simps decode_one_def cont_byte_def
  char_from_u32_def scalar_def encode_utf16_def

theorem abx_read_typed_witness:
  "abx_read_sequence surrogate_document = Inr [Element [0x1F600] [] []] \<and>
   element_ok (Element [0x1F600] [] []) \<and>
   (\<exists>out. abx_write_sequence [Element [0x1F600] [] []] = Inr out \<and>
      abx_read_sequence out = Inr [Element [0x1F600] [] []])"
proof -
  have "abx_read_sequence surrogate_document = Inr [Element [0x1F600] [] []]"
    by (simp add: surrogate_document_def abx_simps)
  with abx_read_typed [OF this] show ?thesis by simp
qed

end
