(* ===== verification/XmlText.thy ===== *)
theory XmlText
  imports Xml
begin

text \<open>
  Text XML (\<^verbatim>\<open>src/crates/aim-android-xml/src/text.rs\<close>): entities, the reader of documents and the
  incremental reader. The position of a reader counts characters where the code counts their bytes;
  it only ever stands between characters. The message of an error is kept with its line, without
  the quotation of the text that \<open>unescape\<close> was given.
\<close>

section \<open>Strings\<close>

text \<open>\<open>char::is_whitespace\<close>: the Unicode property White\_Space.\<close>

definition is_whitespace :: "uchar \<Rightarrow> bool" where
  "is_whitespace c \<longleftrightarrow> 9 \<le> c \<and> c \<le> 13 \<or> 0x2000 \<le> c \<and> c \<le> 0x200A \<or>
     c \<in> {0x20, 0x85, 0xA0, 0x1680, 0x2028, 0x2029, 0x202F, 0x205F, 0x3000}"

definition starts_with :: "rstr \<Rightarrow> rstr \<Rightarrow> bool" where
  "starts_with s p \<longleftrightarrow> take (length p) s = p"

text \<open>\<open>str::find\<close> of a string.\<close>

fun find_str :: "rstr \<Rightarrow> rstr \<Rightarrow> nat option" where
  "find_str p [] = (if p = [] then Some 0 else None)"
| "find_str p (c # s) = (if starts_with (c # s) p then Some 0 else map_option Suc (find_str p s))"

text \<open>
  \<open>str::from_utf8\<close>: the sequence of the length its first byte gives has to be the encoding of a
  scalar value.
\<close>

definition utf8_len :: "byte \<Rightarrow> nat" where
  "utf8_len b = (if b < 0x80 then 1 else if b < 0xE0 then 2 else if b < 0xF0 then 3 else 4)"

definition utf8_value :: "byte list \<Rightarrow> uchar" where
  "utf8_value b =
     (let x = (\<lambda>i. unat (b ! i) mod 0x40) in
      if length b = 1 then unat (b ! 0)
      else if length b = 2 then unat (b ! 0) mod 0x20 * 0x40 + x 1
      else if length b = 3 then unat (b ! 0) mod 0x10 * 0x1000 + x 1 * 0x40 + x 2
      else unat (b ! 0) mod 0x08 * 0x40000 + x 1 * 0x1000 + x 2 * 0x40 + x 3)"

definition utf8_first :: "byte list \<Rightarrow> (uchar \<times> nat) option" where
  "utf8_first b =
     (let n = utf8_len (b ! 0); seq = take n b; c = utf8_value seq in
      if length seq = n \<and> scalar c \<and> encode_utf8 c = seq then Some (c, n) else None)"

lemma utf8_first_pos: "utf8_first b = Some (c, n) \<Longrightarrow> 0 < n"
  by (auto simp: utf8_first_def utf8_len_def Let_def split: if_splits)

function from_utf8 :: "byte list \<Rightarrow> rstr option" where
  "from_utf8 b =
     (if b = [] then Some []
      else case utf8_first b of
        None \<Rightarrow> None
      | Some (c, n) \<Rightarrow> map_option ((#) c) (from_utf8 (drop n b)))"
  by auto

termination
  by (relation "measure length") (auto dest: utf8_first_pos)

declare from_utf8.simps [simp del]

section \<open>Entities\<close>

text \<open>\<open>u32::from_str_radix\<close>.\<close>

definition parse_u32 :: "nat \<Rightarrow> rstr \<Rightarrow> nat option" where
  "parse_u32 radix s =
     (let ds = case s of c # cs \<Rightarrow> if c = plus_char then cs else s | [] \<Rightarrow> s in
      if all_digits radix ds \<and> radix_value radix ds < 2 ^ 32 then Some (radix_value radix ds) else None)"

definition entity_char :: "rstr \<Rightarrow> uchar option" where
  "entity_char entity =
     (if entity = lit ''lt'' then Some 60
      else if entity = lit ''gt'' then Some 62
      else if entity = lit ''amp'' then Some 38
      else if entity = lit ''quot'' then Some 34
      else if entity = lit ''apos'' then Some 39
      else case entity of
        c # n \<Rightarrow>
          if c = 35 then
            Option.bind
              (case n of d # hex \<Rightarrow> if d = 120 then parse_u32 16 hex else parse_u32 10 n
               | [] \<Rightarrow> parse_u32 10 n)
              char_from_u32
          else None
      | [] \<Rightarrow> None)"

function unescape :: "rstr \<Rightarrow> rstr + rstr" where
  "unescape s =
     (case position (\<lambda>c. c = 38) s of
        None \<Rightarrow> Inr s
      | Some amp \<Rightarrow>
          (case position (\<lambda>c. c = 59) (drop amp s) of
             None \<Rightarrow> Inl (lit ''an unterminated entity'')
           | Some semi \<Rightarrow>
               (case entity_char (take (semi - 1) (drop (amp + 1) s)) of
                  None \<Rightarrow> Inl (lit ''entity &'' @ take (semi - 1) (drop (amp + 1) s) @ lit '';'')
                | Some c \<Rightarrow>
                    and_then (unescape (drop (amp + semi + 1) s)) (\<lambda>t. Inr (take amp s @ c # t)))))"
  by auto

termination
  by (relation "measure length") (auto dest!: position_less)

declare unescape.simps [simp del]

section \<open>The reader\<close>

record text_reader =
  tx_s :: rstr
  tx_at :: nat

definition tx_rest :: "text_reader \<Rightarrow> rstr" where
  "tx_rest r = drop (tx_at r) (tx_s r)"

definition tx_skip :: "nat \<Rightarrow> text_reader \<Rightarrow> text_reader" where
  "tx_skip n r = r\<lparr>tx_at := tx_at r + n\<rparr>"

definition tx_error :: "rstr \<Rightarrow> text_reader \<Rightarrow> xml_error" where
  "tx_error what r = TextError what (length (filter (\<lambda>c. c = 10) (take (tx_at r) (tx_s r))) + 1)"

definition skip_space :: "text_reader \<Rightarrow> text_reader" where
  "skip_space r = tx_skip (length (takeWhile is_whitespace (tx_rest r))) r"

definition tx_until :: "rstr \<Rightarrow> text_reader \<Rightarrow> xml_error + rstr \<times> text_reader" where
  "tx_until stop r =
     (case find_str stop (tx_rest r) of
        None \<Rightarrow> Inl (tx_error (lit ''no '' @ stop) r)
      | Some n \<Rightarrow> Inr (take n (tx_rest r), tx_skip (n + length stop) r))"

text \<open>\<open>eat\<close> is the test \<open>eats\<close> followed, where it holds, by \<open>tx_skip\<close>.\<close>

definition eats :: "rstr \<Rightarrow> text_reader \<Rightarrow> bool" where
  "eats p r = starts_with (tx_rest r) p"

definition eat :: "rstr \<Rightarrow> text_reader \<Rightarrow> text_reader" where
  "eat p r = (if eats p r then tx_skip (length p) r else r)"

definition ends_name :: "uchar \<Rightarrow> bool" where
  "ends_name c \<longleftrightarrow> is_whitespace c \<or> c \<in> set (lit ''/>='')"

definition tx_name :: "text_reader \<Rightarrow> xml_error + rstr \<times> text_reader" where
  "tx_name r =
     (let n = length (takeWhile (\<lambda>c. \<not> ends_name c) (tx_rest r)) in
      if n = 0 then Inl (tx_error (lit ''no name'') r)
      else Inr (take n (tx_rest r), tx_skip n r))"

text \<open>
  One turn of the loop of \<open>misc\<close>, after the space: \<open>None\<close> where nothing is skipped and the loop ends.
\<close>

definition misc_one :: "text_reader \<Rightarrow> (xml_error + text_reader) option" where
  "misc_one r =
     (if eats (lit ''<?'') r then
        Some (and_then (tx_until (lit ''?>'') (eat (lit ''<?'') r)) (\<lambda>(_, r). Inr r))
      else if eats (lit ''<!--'') r then
        Some (and_then (tx_until (lit ''-->'') (eat (lit ''<!--'') r)) (\<lambda>(_, r). Inr r))
      else if eats (lit ''<!DOCTYPE'') r then
        Some (and_then (tx_until (lit ''>'') (eat (lit ''<!DOCTYPE'') r)) (\<lambda>(d, r).
          if 91 \<in> set d \<and> 93 \<notin> set d
          then and_then (tx_until (lit '']>'') r) (\<lambda>(_, r). Inr r) else Inr r))
      else None)"

text \<open>One attribute of a start tag, after the space and where the tag does not end.\<close>

definition start_attr :: "text_reader \<Rightarrow> xml_error + (rstr \<times> xvalue) \<times> text_reader" where
  "start_attr r =
     and_then (tx_name r) (\<lambda>(name, r).
       let r = skip_space r in
       if \<not> eats (lit ''='') r then
         Inl (tx_error (lit ''attribute '' @ name @ lit '' without a value'') r)
       else
         let r = skip_space (eat (lit ''='') r) in
         case tx_rest r of
           quote # _ \<Rightarrow>
             if quote \<in> {34, 39} then
               and_then (tx_until [quote] (tx_skip 1 r)) (\<lambda>(raw, r).
                 (case unescape raw of
                    Inl w \<Rightarrow> Inl (tx_error w r)
                  | Inr v \<Rightarrow> Inr ((name, XString v), r)))
             else Inl (tx_error (lit ''attribute '' @ name @ lit '' without quotes'') r)
         | [] \<Rightarrow> Inl (tx_error (lit ''attribute '' @ name @ lit '' without quotes'') r))"

section \<open>The reader moves forward\<close>

lemma tx_rest_skip [simp]: "tx_rest (tx_skip n r) = drop n (tx_rest r)"
  by (simp add: tx_rest_def tx_skip_def add.commute)

lemma starts_with_length: "starts_with s p \<Longrightarrow> length p \<le> length s"
  unfolding starts_with_def by (metis length_take min.cobounded1)

lemma eat_less: "eats p r \<Longrightarrow> p \<noteq> [] \<Longrightarrow> length (tx_rest (eat p r)) < length (tx_rest r)"
  using starts_with_length [of "tx_rest r" p] by (cases p) (auto simp: eats_def eat_def)

lemma eat_le: "length (tx_rest (eat p r)) \<le> length (tx_rest r)"
  by (simp add: eat_def)

lemma skip_space_le: "length (tx_rest (skip_space r)) \<le> length (tx_rest r)"
  by (simp add: skip_space_def)

lemma tx_until_le: "tx_until stop r = Inr (x, r') \<Longrightarrow> length (tx_rest r') \<le> length (tx_rest r)"
  by (auto simp: tx_until_def split: option.splits)

lemma tx_name_less: "tx_name r = Inr (x, r') \<Longrightarrow> length (tx_rest r') < length (tx_rest r)"
  by (cases "tx_rest r") (auto simp: tx_name_def Let_def split: if_splits)

lemma lit_Nil [simp]: "lit s = [] \<longleftrightarrow> s = []"
  by (simp add: lit_def)

lemma misc_one_less: "misc_one r = Some (Inr r') \<Longrightarrow> length (tx_rest r') < length (tx_rest r)"
proof -
  assume m: "misc_one r = Some (Inr r')"
  then obtain p where p: "eats p r" "p \<noteq> []"
    and "length (tx_rest r') \<le> length (tx_rest (eat p r))"
    by (force simp: misc_one_def elim!: and_then_Inr_elim dest!: tx_until_le split: if_splits)
  with eat_less [OF p] show ?thesis by linarith
qed

lemma start_attr_less: "start_attr r = Inr (a, r') \<Longrightarrow> length (tx_rest r') < length (tx_rest r)"
proof -
  assume "start_attr r = Inr (a, r')"
  then obtain n r1 q raw where "tx_name r = Inr (n, r1)"
    and "tx_until [q] (tx_skip 1 (skip_space (eat (lit ''='') (skip_space r1)))) = Inr (raw, r')"
    by (force simp: start_attr_def Let_def elim!: and_then_Inr_elim
        split: if_splits list.splits sum.splits)
  then have "length (tx_rest r1) < length (tx_rest r)"
    "length (tx_rest r') \<le> length (tx_rest (skip_space (eat (lit ''='') (skip_space r1))))"
    by (auto dest!: tx_name_less tx_until_le)
  then show ?thesis
    using skip_space_le [of "eat (lit ''='') (skip_space r1)"] eat_le [of "lit ''=''" "skip_space r1"]
      skip_space_le [of r1] by linarith
qed

section \<open>Documents\<close>

function tx_misc :: "text_reader \<Rightarrow> xml_error + bool \<times> text_reader" where
  "tx_misc r =
     (case misc_one (skip_space r) of
        None \<Rightarrow> Inr (tx_rest (skip_space r) \<noteq> [], skip_space r)
      | Some (Inl e) \<Rightarrow> Inl e
      | Some (Inr r') \<Rightarrow> tx_misc r')"
  by auto

termination
proof (relation "measure (\<lambda>r. length (tx_rest r))", simp)
  fix r x2 r'
  assume "misc_one (skip_space r) = Some x2" "x2 = Inr r'"
  then show "(r', r) \<in> measure (\<lambda>r. length (tx_rest r))"
    using misc_one_less [of "skip_space r" r'] skip_space_le [of r] by simp
qed

declare tx_misc.simps [simp del]

text \<open>The loop of \<open>start\<close>: the element with its attributes, and whether the tag was empty.\<close>

function start_loop :: "element \<Rightarrow> text_reader \<Rightarrow> xml_error + (element \<times> bool) \<times> text_reader" where
  "start_loop e r =
     (if eats (lit ''/>'') (skip_space r) then Inr ((e, True), eat (lit ''/>'') (skip_space r))
      else if eats (lit ''>'') (skip_space r) then Inr ((e, False), eat (lit ''>'') (skip_space r))
      else case start_attr (skip_space r) of
        Inl err \<Rightarrow> Inl err
      | Inr (a, r') \<Rightarrow> start_loop (push_attr a e) r')"
  by auto

termination
proof (relation "measure (\<lambda>(e, r). length (tx_rest r))", simp)
  fix e :: element and r x2 a r'
  assume "start_attr (skip_space r) = Inr x2" "(a, r') = x2"
  then show "((push_attr a e, r'), e, r) \<in> measure (\<lambda>(e, r). length (tx_rest r))"
    using start_attr_less [of "skip_space r" a r'] skip_space_le [of r] by auto
qed

declare start_loop.simps [simp del]

definition tx_start :: "text_reader \<Rightarrow> xml_error + (element \<times> bool) \<times> text_reader" where
  "tx_start r = and_then (tx_name r) (\<lambda>(n, r). start_loop (Element n [] []) r)"

text \<open>The end tag, behind its \<open></\<close>.\<close>

definition tx_end :: "element \<Rightarrow> text_reader \<Rightarrow> xml_error + element \<times> text_reader" where
  "tx_end e r =
     and_then (tx_name r) (\<lambda>(name, r).
       let r = skip_space r in
       if name \<noteq> el_name e \<or> \<not> eats (lit ''>'') r then
         Inl (tx_error (lit ''<'' @ el_name e @ lit ''> ends with </'' @ name) r)
       else Inr (e, eat (lit ''>'') r))"

text \<open>
  A node of the content that is neither an end tag nor an element: a comment, a CDATA section, a
  processing instruction or text.
\<close>

definition tx_leaf :: "text_reader \<Rightarrow> xml_error + xnode \<times> text_reader" where
  "tx_leaf r =
     (if eats (lit ''<!--'') r then
        and_then (tx_until (lit ''-->'') (eat (lit ''<!--'') r)) (\<lambda>(s, r).
          Inr (NToken COMMENT (Some s), r))
      else if eats (lit ''<![CDATA['') r then
        and_then (tx_until (lit '']]>'') (eat (lit ''<![CDATA['') r)) (\<lambda>(s, r).
          Inr (NToken CDSECT (Some s), r))
      else if eats (lit ''<?'') r then
        and_then (tx_until (lit ''?>'') (eat (lit ''<?'') r)) (\<lambda>(s, r).
          Inr (NToken PROCESSING_INSTRUCTION (Some s), r))
      else
        (case position (\<lambda>c. c = 60) (tx_rest r) of
           None \<Rightarrow> Inl (tx_error (lit ''no end'') r)
         | Some n \<Rightarrow>
             (case unescape (take n (tx_rest r)) of
                Inl w \<Rightarrow> Inl (tx_error w (tx_skip n r))
              | Inr s \<Rightarrow> Inr (NToken TEXT (Some s), tx_skip n r))))"

definition leaf_ahead :: "text_reader \<Rightarrow> bool" where
  "leaf_ahead r \<longleftrightarrow> eats (lit ''<!--'') r \<or> eats (lit ''<![CDATA['') r \<or> eats (lit ''<?'') r \<or>
     \<not> eats (lit ''<'') r"

text \<open>
  The loop of \<open>element\<close> over the content of \<open>e\<close>, which calls \<open>element\<close> for a child. \<open>None\<close> would
  be a loop that does not end.
\<close>

partial_function (option) tx_content ::
  "element \<Rightarrow> text_reader \<Rightarrow> (xml_error + element \<times> text_reader) option" where
  "tx_content e r =
     (if eats (lit ''</'') r then Some (tx_end e (eat (lit ''</'') r))
      else if leaf_ahead r then
        (case tx_leaf r of
           Inl err \<Rightarrow> Some (Inl err)
         | Inr (n, r) \<Rightarrow> tx_content (push_node n e) r)
      else
        (case tx_start (eat (lit ''<'') r) of
           Inl err \<Rightarrow> Some (Inl err)
         | Inr ((c, no_body), r) \<Rightarrow>
             Option.bind (if no_body then Some (Inr (c, r)) else tx_content c r) (\<lambda>res.
               case res of
                 Inl err \<Rightarrow> Some (Inl err)
               | Inr (c, r) \<Rightarrow> tx_content (push_node (NElement c) e) r)))"

definition tx_element :: "text_reader \<Rightarrow> (xml_error + element \<times> text_reader) option" where
  "tx_element r =
     (case tx_start r of
        Inl err \<Rightarrow> Some (Inl err)
      | Inr ((e, no_body), r) \<Rightarrow> if no_body then Some (Inr (e, r)) else tx_content e r)"

definition strip_bom :: "rstr \<Rightarrow> rstr" where
  "strip_bom s = (case s of c # cs \<Rightarrow> if c = 0xFEFF then cs else s | [] \<Rightarrow> s)"

definition text_read_optional :: "byte list \<Rightarrow> (xml_error + element option) option" where
  "text_read_optional bytes =
     (case from_utf8 bytes of
        None \<Rightarrow> Some (Inl NotUtf8)
      | Some s \<Rightarrow>
          (case tx_misc \<lparr>tx_s = strip_bom s, tx_at = 0\<rparr> of
             Inl e \<Rightarrow> Some (Inl e)
           | Inr (found, r) \<Rightarrow>
               if \<not> found then Some (Inr None)
               else if \<not> eats (lit ''<'') r then Some (Inl (tx_error (lit ''no root element'') r))
               else
                 Option.bind (tx_element (eat (lit ''<'') r)) (\<lambda>res.
                   case res of
                     Inl e \<Rightarrow> Some (Inl e)
                   | Inr (root, r) \<Rightarrow>
                       Some (and_then (tx_misc r) (\<lambda>(found, r).
                         if found then Inl (tx_error (lit ''content after the root element'') r)
                         else Inr (Some root))))))"

definition text_read :: "byte list \<Rightarrow> (xml_error + element) option" where
  "text_read bytes =
     map_option (\<lambda>res. and_then res
       (ok_or (TextError (lit ''no root element'') (length (filter (\<lambda>b. b = 10) bytes) + 1))))
       (text_read_optional bytes)"

section \<open>The reader returns\<close>

lemma start_loop_le: "start_loop e r = Inr (x, r') \<Longrightarrow> length (tx_rest r') \<le> length (tx_rest r)"
proof (induction e r rule: start_loop.induct)
  case (1 e r)
  let ?r0 = "skip_space r"
  show ?case
  proof (cases "eats (lit ''/>'') ?r0 \<or> eats (lit ''>'') ?r0")
    case True
    with "1.prems" have "r' = eat (lit ''/>'') ?r0 \<or> r' = eat (lit ''>'') ?r0"
      by (subst (asm) start_loop.simps) (auto simp: Let_def split: if_splits)
    then show ?thesis
      using eat_le [of _ ?r0] skip_space_le [of r] order_trans by blast
  next
    case False
    with "1.prems" obtain a r1 where a: "start_attr ?r0 = Inr (a, r1)"
      and l: "start_loop (push_attr a e) r1 = Inr (x, r')"
      by (subst (asm) start_loop.simps) (auto simp: Let_def split: sum.splits)
    have "length (tx_rest r') \<le> length (tx_rest r1)" using "1.IH" False a l by simp
    with start_attr_less [OF a] skip_space_le [of r] show ?thesis by linarith
  qed
qed

lemma tx_start_less: "tx_start r = Inr (x, r') \<Longrightarrow> length (tx_rest r') < length (tx_rest r)"
  by (auto simp: tx_start_def elim!: and_then_Inr_elim dest!: tx_name_less start_loop_le)

lemma tx_end_less: "tx_end e r = Inr (x, r') \<Longrightarrow> length (tx_rest r') < length (tx_rest r)"
proof -
  assume "tx_end e r = Inr (x, r')"
  then obtain n r1 where n: "tx_name r = Inr (n, r1)" and r': "r' = eat (lit ''>'') (skip_space r1)"
    by (auto simp: tx_end_def Let_def elim!: and_then_Inr_elim split: if_splits)
  show ?thesis
    unfolding r'
    using tx_name_less [OF n] skip_space_le [of r1] eat_le [of "lit ''>''" "skip_space r1"]
    by linarith
qed

lemma position_nonzero: "position p xs = Some n \<Longrightarrow> xs \<noteq> [] \<Longrightarrow> \<not> p (hd xs) \<Longrightarrow> 0 < n"
  by (cases xs) auto

lemma eats_char: "eats [c] r \<longleftrightarrow> tx_rest r \<noteq> [] \<and> hd (tx_rest r) = c"
  by (cases "tx_rest r") (auto simp: eats_def starts_with_def)

lemma lit_lt: "lit ''<'' = [60]"
  by (simp add: lit_def of_char_def)

lemma tx_leaf_less:
  assumes "tx_leaf r = Inr (n, r')" "leaf_ahead r"
  shows "length (tx_rest r') < length (tx_rest r)"
proof (cases "eats (lit ''<!--'') r \<or> eats (lit ''<![CDATA['') r \<or> eats (lit ''<?'') r")
  case True
  with assms(1) obtain p where "eats p r" "p \<noteq> []" "length (tx_rest r') \<le> length (tx_rest (eat p r))"
    by (force simp: tx_leaf_def elim!: and_then_Inr_elim dest!: tx_until_le split: if_splits)
  with eat_less [of p r] show ?thesis by linarith
next
  case False
  with assms obtain m where m: "position (\<lambda>c. c = 60) (tx_rest r) = Some m" "r' = tx_skip m r"
    by (auto simp: tx_leaf_def split: option.splits sum.splits)
  from False assms(2) have "\<not> eats [60] r" by (simp add: leaf_ahead_def lit_lt)
  moreover have "m < length (tx_rest r)" by (rule position_less [OF m(1)])
  moreover from this have "tx_rest r \<noteq> []" by auto
  ultimately have "0 < m" "m < length (tx_rest r)"
    using position_nonzero [OF m(1)] by (auto simp: eats_char)
  with m show ?thesis by simp
qed

lemma not_leaf_eats: "\<not> leaf_ahead r \<Longrightarrow> eats (lit ''<'') r"
  by (simp add: leaf_ahead_def)

text \<open>
  The loop over the content ends, and gives a reader that has moved on, so that the loop around it
  ends too.
\<close>

definition returns :: "element \<Rightarrow> text_reader \<Rightarrow> bool" where
  "returns e r \<longleftrightarrow> (\<exists>res. tx_content e r = Some res \<and>
     (\<forall>c r'. res = Inr (c, r') \<longrightarrow> length (tx_rest r') < length (tx_rest r)))"

lemma returns_later:
  assumes "tx_content e r = tx_content e' r'" "returns e' r'" "length (tx_rest r') < length (tx_rest r)"
  shows "returns e r"
  using assms unfolding returns_def by (metis less_trans)

lemma returns_leaf:
  assumes IH: "\<And>e' r'. length (tx_rest r') < length (tx_rest r) \<Longrightarrow> returns e' r'"
    and "\<not> eats (lit ''</'') r" "leaf_ahead r"
  shows "returns e r"
proof (cases "tx_leaf r")
  case (Inl err)
  with assms show ?thesis unfolding returns_def by (subst tx_content.simps) simp
next
  case (Inr x)
  obtain n r1 where x: "x = (n, r1)" by (cases x)
  have l: "length (tx_rest r1) < length (tx_rest r)"
    using tx_leaf_less [of r n r1] Inr x assms(3) by simp
  moreover from assms Inr x have "tx_content e r = tx_content (push_node n e) r1"
    by (subst tx_content.simps) simp
  ultimately show ?thesis using returns_later IH by blast
qed

lemma returns_child:
  assumes IH: "\<And>e' r'. length (tx_rest r') < length (tx_rest r) \<Longrightarrow> returns e' r'"
    and "\<not> eats (lit ''</'') r" "\<not> leaf_ahead r"
  shows "returns e r"
proof (cases "tx_start (eat (lit ''<'') r)")
  case (Inl err)
  with assms show ?thesis unfolding returns_def by (subst tx_content.simps) simp
next
  case (Inr x)
  obtain c b r1 where x: "x = ((c, b), r1)" by (cases x) auto
  have l1: "length (tx_rest r1) < length (tx_rest r)"
    using tx_start_less [of "eat (lit ''<'') r" "(c, b)" r1] eat_le [of "lit ''<''" r] Inr x by simp
  then obtain res where res: "(if b then Some (Inr (c, r1)) else tx_content c r1) = Some res"
    and l2: "\<And>c' r2. res = Inr (c', r2) \<Longrightarrow> length (tx_rest r2) < length (tx_rest r)"
    using IH [of r1 c] unfolding returns_def by (cases b) (auto intro: less_trans)
  from assms Inr x res have eq: "tx_content e r =
      (case res of Inl err \<Rightarrow> Some (Inl err) | Inr (c, r) \<Rightarrow> tx_content (push_node (NElement c) e) r)"
    by (subst tx_content.simps) simp
  show ?thesis
  proof (cases res)
    case (Inr y)
    obtain c' r2 where y: "y = (c', r2)" by (cases y)
    with l2 Inr have "length (tx_rest r2) < length (tx_rest r)" by blast
    moreover from eq Inr y have "tx_content e r = tx_content (push_node (NElement c') e) r2" by simp
    ultimately show ?thesis using returns_later IH by blast
  qed (simp add: eq returns_def)
qed

lemma tx_content_returns: "returns e r"
proof (induction "length (tx_rest r)" arbitrary: e r rule: less_induct)
  case less
  show ?case
  proof (cases "eats (lit ''</'') r")
    case True
    then show ?thesis
      using tx_end_less [of e "eat (lit ''</'') r"] eat_le [of "lit ''</''" r]
      unfolding returns_def by (subst tx_content.simps) (auto intro: less_le_trans)
  next
    case False
    with less show ?thesis using returns_leaf returns_child by blast
  qed
qed

lemma tx_content_Some: "\<exists>res. tx_content e r = Some res"
  using tx_content_returns [of e r] by (auto simp: returns_def)

lemma tx_element_Some: "\<exists>res. tx_element r = Some res"
  using tx_content_Some by (auto simp: tx_element_def split: sum.split)

lemma text_read_optional_Some: "\<exists>res. text_read_optional bytes = Some res"
proof (cases "from_utf8 bytes")
  case (Some s)
  show ?thesis
  proof (cases "tx_misc \<lparr>tx_s = strip_bom s, tx_at = 0\<rparr>")
    case (Inr x)
    obtain found r where x: "x = (found, r)" by (cases x)
    obtain res where "tx_element (eat (lit ''<'') r) = Some res" using tx_element_Some by blast
    with Some Inr x show ?thesis by (cases res) (auto simp: text_read_optional_def)
  qed (simp add: text_read_optional_def Some)
qed (simp add: text_read_optional_def)

end
