(* ===== verification/XmlPull.thy ===== *)
theory XmlPull
  imports Abx XmlText
begin

text \<open>
  The incremental reader (\<^verbatim>\<open>src/crates/aim-android-xml/src/pull.rs\<close>, with the \<open>Pull\<close> types of
  \<^verbatim>\<open>abx.rs\<close> and \<^verbatim>\<open>text.rs\<close>) and the readers of \<^verbatim>\<open>lib.rs\<close> that choose between binary and text.
  An error ends the model of a reader: where it stands after one is not modelled.
\<close>

unbundle bit_operations_syntax

datatype xtoken = TkStart element | TkEnd rstr | TkContent u8 "rstr option" | TkEndDocument

datatype xevent = EvStart element | EvEnd rstr | EvText rstr | EvEndDocument

section \<open>Tokens of binary XML\<close>

definition pull_entity :: "rstr \<Rightarrow> xml_error + rstr" where
  "pull_entity name =
     (case map_of entity_table name of
        Some s \<Rightarrow> Inr s
      | None \<Rightarrow>
          (case name of
             c # cs \<Rightarrow>
               if c = 35 then
                 (case parse_i32 cs of
                    None \<Rightarrow> Inl (UnknownEntity name)
                  | Some v \<Rightarrow> ok_or (UnpairedEntity name) (from_utf16 [nat (v mod 0x10000)]))
               else Inl (UnknownEntity name)
           | [] \<Rightarrow> Inl (UnknownEntity name)))"

definition abx_pull_new :: "byte list \<Rightarrow> xml_error + abx_reader" where
  "abx_pull_new bytes =
     (let at = length MAGIC in
      if length bytes \<le> at then Inl TruncatedHeader
      else Inr \<lparr>rd_bytes = bytes,
                rd_at = (if (bytes ! at) AND 0x0F = START_DOCUMENT then at + 1 else at),
                rd_interned = []\<rparr>)"

definition abx_peek :: "abx_reader \<Rightarrow> xml_error + u8" where
  "abx_peek r =
     (if rd_at r < length (rd_bytes r) then Inr ((rd_bytes r ! rd_at r) AND 0x0F)
      else Inl (Truncated (rd_at r)))"

text \<open>What the closure in \<open>token\<close> reads: all but the attributes of a start tag.\<close>

definition abx_bare_token :: "abx_reader \<Rightarrow> xml_error + xtoken \<times> abx_reader" where
  "abx_bare_token r =
     and_then (rd_slice 1 r) (\<lambda>(b, r).
       let event = (b ! 0) AND 0x0F in
       if event = START_TAG then
         and_then (rd_interned_str r) (\<lambda>(n, r). Inr (TkStart (Element n [] []), r))
       else if event = END_TAG then and_then (rd_interned_str r) (\<lambda>(n, r). Inr (TkEnd n, r))
       else if event = END_DOCUMENT then Inr (TkEndDocument, r)
       else if event = START_DOCUMENT then Inr (TkContent START_DOCUMENT None, r)
       else if event = ENTITY_REF then
         and_then (rd_utf r) (\<lambda>(s, r).
           and_then (pull_entity s) (\<lambda>v. Inr (TkContent CDSECT (Some v), r)))
       else if event \<in> {TEXT, CDSECT, COMMENT, PROCESSING_INSTRUCTION, DOCDECL, IGNORABLE_WHITESPACE}
       then and_then (rd_utf r) (\<lambda>(s, r). Inr (TkContent event (Some s), r))
       else Inl (UnexpectedToken event))"

function abx_attr_loop :: "element \<Rightarrow> abx_reader \<Rightarrow> xml_error + element \<times> abx_reader" where
  "abx_attr_loop e r =
     (if \<not> rd_at r < length (rd_bytes r) then Inl (Truncated (rd_at r))
      else if (rd_bytes r ! rd_at r) AND 0x0F \<noteq> ATTRIBUTE then Inr (e, r)
      else case rd_interned_str (r\<lparr>rd_at := rd_at r + 1\<rparr>) of
        Inl err \<Rightarrow> Inl err
      | Inr (n, r1) \<Rightarrow>
          (case rd_value ((rd_bytes r ! rd_at r) AND 0xF0) r1 of
             Inl err \<Rightarrow> Inl err
           | Inr (v, r2) \<Rightarrow> abx_attr_loop (push_attr (n, v) e) r2))"
  by auto

termination
  by (relation "measure (\<lambda>(e, r). length (rd_bytes r) - rd_at r)")
    (auto simp: onward_def dest!: rd_interned_onward rd_value_onward)

declare abx_attr_loop.simps [simp del]

definition abx_pull_token :: "abx_reader \<Rightarrow> xml_error + xtoken \<times> abx_reader" where
  "abx_pull_token r =
     (case abx_bare_token r of
        Inl (Truncated at) \<Rightarrow> Inr (TkEndDocument, r)
      | Inl e \<Rightarrow> Inl e
      | Inr (TkStart e, r) \<Rightarrow> and_then (abx_attr_loop e r) (\<lambda>(e, r). Inr (TkStart e, r))
      | Inr (t, r) \<Rightarrow> Inr (t, r))"

section \<open>Tokens of text XML\<close>

record text_pull =
  tp_reader :: text_reader
  tp_open :: "rstr list"
  tp_empty_end :: "rstr option"
  tp_started :: bool

definition text_pull_new :: "byte list \<Rightarrow> xml_error + text_pull" where
  "text_pull_new bytes =
     and_then (ok_or NotUtf8 (from_utf8 bytes)) (\<lambda>s.
       Inr \<lparr>tp_reader = \<lparr>tx_s = strip_bom s, tx_at = 0\<rparr>, tp_open = [], tp_empty_end = None,
            tp_started = False\<rparr>)"

definition text_peek :: "text_pull \<Rightarrow> u8" where
  "text_peek p =
     (let r = tp_reader p in
      if tp_empty_end p \<noteq> None \<or> eats (lit ''</'') r then 3
      else if eats (lit ''<!--'') r then COMMENT
      else if eats (lit ''<![CDATA['') r then CDSECT
      else if eats (lit ''<?'') r then PROCESSING_INSTRUCTION
      else if eats (lit ''<'') r then 2
      else if tx_rest r = [] then 1
      else TEXT)"

text \<open>The token at a reader that stands inside the root, or at its start tag.\<close>

definition text_inner_token :: "text_pull \<Rightarrow> xml_error + xtoken \<times> text_pull" where
  "text_inner_token p =
     (let r = tp_reader p;
          content = (\<lambda>k. map_sum id (\<lambda>(s, r). (TkContent k (Some s), p\<lparr>tp_reader := r\<rparr>))) in
      if tx_rest r = [] then Inr (TkEndDocument, p)
      else if eats (lit ''</'') r then
        and_then (tx_name (eat (lit ''</'') r)) (\<lambda>(name, r).
          let r = skip_space r in
          case tp_open p of
            inner # outer \<Rightarrow>
              if inner \<noteq> name \<or> \<not> eats (lit ''>'') r
              then Inl (tx_error (lit ''unexpected </'' @ name @ lit ''>'') r)
              else Inr (TkEnd name, p\<lparr>tp_reader := eat (lit ''>'') r, tp_open := outer\<rparr>)
          | [] \<Rightarrow> Inl (tx_error (lit ''unexpected </'' @ name @ lit ''>'') r))
      else if eats (lit ''<!--'') r then content COMMENT (tx_until (lit ''-->'') (eat (lit ''<!--'') r))
      else if eats (lit ''<![CDATA['') r then
        content CDSECT (tx_until (lit '']]>'') (eat (lit ''<![CDATA['') r))
      else if eats (lit ''<?'') r then
        content PROCESSING_INSTRUCTION (tx_until (lit ''?>'') (eat (lit ''<?'') r))
      else if eats (lit ''<'') r then
        and_then (tx_start (eat (lit ''<'') r)) (\<lambda>((e, no_body), r).
          Inr (TkStart e,
               p\<lparr>tp_reader := r, tp_started := True, tp_open := el_name e # tp_open p,
                 tp_empty_end := (if no_body then Some (el_name e) else tp_empty_end p)\<rparr>))
      else
        let n = (case position (\<lambda>c. c = 60) (tx_rest r) of Some n \<Rightarrow> n | None \<Rightarrow> length (tx_rest r)) in
        (case unescape (take n (tx_rest r)) of
           Inl w \<Rightarrow> Inl (tx_error w (tx_skip n r))
         | Inr s \<Rightarrow> Inr (TkContent TEXT (Some s), p\<lparr>tp_reader := tx_skip n r\<rparr>)))"

definition text_pull_token :: "text_pull \<Rightarrow> xml_error + xtoken \<times> text_pull" where
  "text_pull_token p =
     (case tp_empty_end p of
        Some name \<Rightarrow> Inr (TkEnd name, p\<lparr>tp_empty_end := None, tp_open := tl (tp_open p)\<rparr>)
      | None \<Rightarrow>
          if tp_open p \<noteq> [] then text_inner_token p
          else
            and_then (tx_misc (tp_reader p)) (\<lambda>(found, r).
              let p = p\<lparr>tp_reader := r\<rparr> in
              if \<not> found then Inr (TkEndDocument, p)
              else if tp_started p then Inl (tx_error (lit ''content after the root element'') r)
              else if \<not> eats (lit ''<'') r then Inl (tx_error (lit ''no root element'') r)
              else text_inner_token p))"

section \<open>Capturing the document\<close>

record xml_document =
  doc_stack :: "element list"
  doc_root :: "element option"
  doc_complete :: bool

definition empty_document :: xml_document where
  "empty_document = \<lparr>doc_stack = [], doc_root = None, doc_complete = False\<rparr>"

definition doc_close :: "xml_document \<Rightarrow> xml_document" where
  "doc_close d =
     (case doc_stack d of
        e # parent # es \<Rightarrow> d\<lparr>doc_stack := push_node (NElement e) parent # es\<rparr>
      | [e] \<Rightarrow> d\<lparr>doc_stack := [], doc_root := Some e, doc_complete := True\<rparr>
      | [] \<Rightarrow> d)"

function doc_close_all :: "xml_document \<Rightarrow> xml_document" where
  "doc_close_all d = (if doc_stack d = [] then d else doc_close_all (doc_close d))"
  by auto

termination
  by (relation "measure (\<lambda>d. length (doc_stack d))") (auto simp: doc_close_def split: list.split)

declare doc_close_all.simps [simp del]

fun doc_token :: "xtoken \<Rightarrow> xml_document \<Rightarrow> xml_document" where
  "doc_token t d =
     (if doc_complete d then d
      else case t of
        TkStart e \<Rightarrow> d\<lparr>doc_stack := e # doc_stack d\<rparr>
      | TkEnd _ \<Rightarrow> doc_close d
      | TkContent k s \<Rightarrow>
          (case doc_stack d of
             e # es \<Rightarrow> d\<lparr>doc_stack := push_node (NToken k s) e # es\<rparr>
           | [] \<Rightarrow> d)
      | TkEndDocument \<Rightarrow> (doc_close_all d)\<lparr>doc_complete := True\<rparr>)"

declare doc_token.simps [simp del]

section \<open>Events\<close>

datatype xinput = Binary abx_reader | Textual text_pull

record xml_reader =
  xr_input :: xinput
  xr_depth :: int
  xr_end_tag :: bool
  xr_ended :: bool
  xr_document :: "xml_document option"

definition starts_abx :: "byte list \<Rightarrow> bool" where
  "starts_abx bytes \<longleftrightarrow> take (length MAGIC) bytes = MAGIC"

definition xr_new :: "byte list \<Rightarrow> xml_error + xml_reader" where
  "xr_new bytes =
     map_sum id
       (\<lambda>inp. \<lparr>xr_input = inp, xr_depth = 0, xr_end_tag = False, xr_ended = False, xr_document = None\<rparr>)
       (if starts_abx bytes then map_sum id Binary (abx_pull_new bytes)
        else map_sum id Textual (text_pull_new bytes))"

definition xr_with_document :: "byte list \<Rightarrow> xml_error + xml_reader" where
  "xr_with_document bytes =
     map_sum id (\<lambda>r. r\<lparr>xr_document := Some empty_document\<rparr>) (xr_new bytes)"

fun input_token :: "xinput \<Rightarrow> xml_error + xtoken \<times> xinput" where
  "input_token (Binary r) = map_sum id (map_prod id Binary) (abx_pull_token r)"
| "input_token (Textual p) = map_sum id (map_prod id Textual) (text_pull_token p)"

fun input_peek :: "xinput \<Rightarrow> xml_error + u8" where
  "input_peek (Binary r) = abx_peek r"
| "input_peek (Textual p) = Inr (text_peek p)"

fun is_textual :: "xinput \<Rightarrow> bool" where
  "is_textual (Textual _) \<longleftrightarrow> True"
| "is_textual (Binary _) \<longleftrightarrow> False"

definition xr_token :: "xml_reader \<Rightarrow> xml_error + xtoken \<times> xml_reader" where
  "xr_token r =
     and_then (input_token (xr_input r)) (\<lambda>(t, inp).
       Inr (t, r\<lparr>xr_input := inp, xr_document := map_option (doc_token t) (xr_document r)\<rparr>))"

text \<open>The inner loop of \<open>next_event\<close>, which collects text. \<open>None\<close> would be a loop that does not end.\<close>

definition joins_text :: "u8 \<Rightarrow> bool" where
  "joins_text k \<longleftrightarrow> k \<in> {TEXT, CDSECT, ENTITY_REF, COMMENT, PROCESSING_INSTRUCTION}"

fun text_of :: "xtoken \<Rightarrow> rstr" where
  "text_of (TkContent k (Some s)) = (if k = TEXT \<or> k = CDSECT then s else [])"
| "text_of _ = []"

partial_function (option) collect_text ::
  "rstr \<Rightarrow> xml_reader \<Rightarrow> (xml_error + rstr \<times> xml_reader) option" where
  "collect_text acc r =
     (case input_peek (xr_input r) of
        Inl e \<Rightarrow> Some (Inl e)
      | Inr k \<Rightarrow>
          if joins_text k then
            (case xr_token r of
               Inl e \<Rightarrow> Some (Inl e)
             | Inr (t, r) \<Rightarrow> collect_text (acc @ text_of t) r)
          else Some (Inr (acc, r)))"

definition reports_text :: "u8 \<Rightarrow> xml_reader \<Rightarrow> bool" where
  "reports_text k r \<longleftrightarrow> k = TEXT \<or> k = CDSECT \<and> is_textual (xr_input r)"

partial_function (option) event_loop ::
  "xml_reader \<Rightarrow> (xml_error + xevent \<times> xml_reader) option" where
  "event_loop r =
     (case xr_token r of
        Inl e \<Rightarrow> Some (Inl e)
      | Inr (t, r) \<Rightarrow>
          (case t of
             TkStart e \<Rightarrow> Some (Inr (EvStart e, r\<lparr>xr_depth := xr_depth r + 1\<rparr>))
           | TkEnd n \<Rightarrow> Some (Inr (EvEnd n, r\<lparr>xr_end_tag := True\<rparr>))
           | TkEndDocument \<Rightarrow> Some (Inr (EvEndDocument, r\<lparr>xr_ended := True\<rparr>))
           | TkContent k s \<Rightarrow>
               if reports_text k r then
                 Option.bind (collect_text (case s of Some s \<Rightarrow> s | None \<Rightarrow> []) r) (\<lambda>res.
                   case res of
                     Inl e \<Rightarrow> Some (Inl e)
                   | Inr (combined, r) \<Rightarrow>
                       if combined \<noteq> [] then Some (Inr (EvText combined, r)) else event_loop r)
               else event_loop r))"

definition next_event :: "xml_reader \<Rightarrow> (xml_error + xevent \<times> xml_reader) option" where
  "next_event r =
     (if xr_ended r then Some (Inr (EvEndDocument, r))
      else event_loop
        (if xr_end_tag r then r\<lparr>xr_depth := xr_depth r - 1, xr_end_tag := False\<rparr> else r))"

text \<open>\<open>take_document\<close> also takes the capture away from the reader.\<close>

definition take_document :: "xml_reader \<Rightarrow> (xml_error + element option) \<times> xml_reader" where
  "take_document r =
     (case xr_document r of
        None \<Rightarrow> Inl NoCapture
      | Some d \<Rightarrow>
          if \<not> doc_complete d then Inl CaptureOpen
          else case doc_root d of
            None \<Rightarrow> Inr None
          | Some root \<Rightarrow>
              and_then (normalize_next (\<not> is_textual (xr_input r)) root) (\<lambda>e. Inr (Some e)),
      r\<lparr>xr_document := None\<rparr>)"

section \<open>Documents read as a whole\<close>

definition xml_read :: "byte list \<Rightarrow> (xml_error + element) option" where
  "xml_read bytes = (if starts_abx bytes then Some (abx_read bytes) else text_read bytes)"

definition xml_read_sequence :: "byte list \<Rightarrow> (xml_error + element list) option" where
  "xml_read_sequence bytes =
     (if starts_abx bytes then Some (abx_read_sequence bytes)
      else map_option (map_sum id (\<lambda>root. [root])) (text_read bytes))"

definition read_next_optional :: "byte list \<Rightarrow> (xml_error + element option) option" where
  "read_next_optional bytes =
     map_option (\<lambda>res. and_then res (\<lambda>root.
         case root of
           None \<Rightarrow> Inr None
         | Some e \<Rightarrow> and_then (normalize_next (starts_abx bytes) e) (\<lambda>e. Inr (Some e))))
       (if starts_abx bytes then Some (abx_read_optional bytes) else text_read_optional bytes)"

definition read_next :: "byte list \<Rightarrow> (xml_error + element) option" where
  "read_next bytes =
     map_option (\<lambda>res. and_then res
       (ok_or (if starts_abx bytes then NoRoot
               else TextError (lit ''no root element'') (length (filter (\<lambda>b. b = 10) bytes) + 1))))
       (read_next_optional bytes)"

end
