(* ===== verification/XmlAgree.thy ===== *)
theory XmlAgree
  imports XmlPull
begin

text \<open>
  The two ways to read a binary document agree: an owner that follows the events of the incremental
  reader up to the end of the root element and then takes the captured document has what
  \<open>read_next\<close> gives.
\<close>

unbundle bit_operations_syntax

section \<open>The tokens of a document\<close>














section \<open>What the writer writes is such a stream\<close>






section \<open>The captured document\<close>


lemma doc_token_open [simp]:
  "\<not> doc_complete d \<Longrightarrow> doc_token (TkStart e) d = d\<lparr>doc_stack := e # doc_stack d\<rparr>"
  "\<not> doc_complete d \<Longrightarrow> doc_token (TkEnd n) d = doc_close d"
  "\<not> doc_complete d \<Longrightarrow> doc_stack d = e # es \<Longrightarrow>
     doc_token (TkContent k t) d = d\<lparr>doc_stack := push_node (NToken k t) e # es\<rparr>"
  by (simp_all add: doc_token.simps)



section \<open>Normalization of the captured document\<close>



section \<open>Following the events\<close>
























end
