(* ===== verification/XmlPrint.thy ===== *)
theory XmlPrint
  imports XmlText
begin

text \<open>
  What a text document means: \<open>print_element\<close> writes an element the way the platform's serializers
  do (markup characters as entities, attributes in double quotes), and the reader of theory XmlText
  reads it back. The printer is a specification; no code of the repository writes text XML.
\<close>

definition escape_char :: "uchar \<Rightarrow> rstr" where
  "escape_char c =
     (if c = 38 then lit ''&amp;'' else if c = 60 then lit ''&lt;'' else if c = 62 then lit ''&gt;''
      else if c = 34 then lit ''&quot;'' else if c = 39 then lit ''&apos;'' else [c])"

definition escape :: "rstr \<Rightarrow> rstr" where
  "escape s = concat (map escape_char s)"

fun print_attr :: "rstr \<times> xvalue \<Rightarrow> rstr" where
  "print_attr (n, v) =
     lit '' '' @ n @ lit ''=\"'' @ escape (case value_text v of Some s \<Rightarrow> s | None \<Rightarrow> []) @ lit ''\"''"

fun print_element :: "element \<Rightarrow> rstr"
and print_node :: "xnode \<Rightarrow> rstr" where
  "print_element (Element n as cs) =
     lit ''<'' @ n @ concat (map print_attr as) @ lit ''>'' @ concat (map print_node cs) @
     lit ''</'' @ n @ lit ''>''"
| "print_node (NElement e) = print_element e"
| "print_node (NToken k t) =
     (let s = case t of Some s \<Rightarrow> s | None \<Rightarrow> [] in
      if k = COMMENT then lit ''<!--'' @ s @ lit ''-->''
      else if k = CDSECT then lit ''<![CDATA['' @ s @ lit '']]>''
      else if k = PROCESSING_INSTRUCTION then lit ''<?'' @ s @ lit ''?>''
      else escape s)"

text \<open>
  The documents that text can carry: names without markup, string attributes, text that is not
  empty and stands alone, and comments, sections and instructions that do not contain their end.
\<close>

definition name_ok :: "rstr \<Rightarrow> bool" where
  "name_ok n \<longleftrightarrow> n \<noteq> [] \<and> list_all scalar n \<and> list_all (\<lambda>c. \<not> ends_name c) n"

definition tag_ok :: "rstr \<Rightarrow> bool" where
  "tag_ok n \<longleftrightarrow> name_ok n \<and> hd n \<noteq> 33 \<and> hd n \<noteq> 63"

fun attr_printable :: "rstr \<times> xvalue \<Rightarrow> bool" where
  "attr_printable (n, XString s) \<longleftrightarrow> name_ok n \<and> list_all scalar s"
| "attr_printable _ \<longleftrightarrow> False"

definition ends_at :: "rstr \<Rightarrow> rstr \<Rightarrow> bool" where
  "ends_at stop s \<longleftrightarrow> list_all scalar s \<and> find_str stop (s @ stop) = Some (length s)"

fun is_text :: "xnode \<Rightarrow> bool" where
  "is_text (NToken k t) \<longleftrightarrow> k = TEXT"
| "is_text (NElement e) \<longleftrightarrow> False"

fun texts_apart :: "xnode list \<Rightarrow> bool" where
  "texts_apart (a # b # ns) \<longleftrightarrow> \<not> (is_text a \<and> is_text b) \<and> texts_apart (b # ns)"
| "texts_apart _ \<longleftrightarrow> True"

fun printable :: "element \<Rightarrow> bool"
and node_printable :: "xnode \<Rightarrow> bool" where
  "printable (Element n as cs) \<longleftrightarrow>
     tag_ok n \<and> list_all attr_printable as \<and> list_all node_printable cs \<and> texts_apart cs"
| "node_printable (NElement e) \<longleftrightarrow> printable e"
| "node_printable (NToken k None) \<longleftrightarrow> False"
| "node_printable (NToken k (Some s)) \<longleftrightarrow>
     k = COMMENT \<and> ends_at (lit ''-->'') s \<or> k = CDSECT \<and> ends_at (lit '']]>'') s \<or>
     k = PROCESSING_INSTRUCTION \<and> ends_at (lit ''?>'') s \<or> k = TEXT \<and> s \<noteq> [] \<and> list_all scalar s"

section \<open>Entities read back\<close>

lemma unescape_Nil [simp]: "unescape [] = Inr []"
  by (simp add: unescape.simps)

lemma unescape_plain:
  assumes "c \<noteq> 38"
  shows "unescape (c # s) = and_then (unescape s) (\<lambda>t. Inr (c # t))"
proof (cases "position (\<lambda>c. c = 38) s")
  case None
  with assms show ?thesis by (simp add: unescape.simps [of "c # s"] unescape.simps [of s])
next
  case (Some amp)
  with assms show ?thesis
    by (cases "unescape (drop (amp + the (position (\<lambda>c. c = 59) (drop amp s)) + 1) s)")
      (auto simp: unescape.simps [of "c # s"] unescape.simps [of s] Let_def split: option.split)
qed

lemma position_append: "list_all (\<lambda>x. \<not> p x) xs \<Longrightarrow> p y \<Longrightarrow> position p (xs @ y # ys) = Some (length xs)"
  by (induction xs) auto

lemma unescape_entity:
  assumes "entity_char e = Some c" "list_all (\<lambda>x. x \<noteq> 59) e"
  shows "unescape (38 # e @ 59 # s) = and_then (unescape s) (\<lambda>t. Inr (c # t))"
proof -
  have "position (\<lambda>c. c = 59) (38 # e @ 59 # s) = Some (Suc (length e))"
    using position_append [of "\<lambda>c. c = 59" e 59 s] assms(2) by simp
  with assms(1) show ?thesis by (subst unescape.simps) simp
qed

lemma entity_chars:
  "entity_char (lit ''amp'') = Some 38" "entity_char (lit ''lt'') = Some 60"
  "entity_char (lit ''gt'') = Some 62" "entity_char (lit ''quot'') = Some 34"
  "entity_char (lit ''apos'') = Some 39"
  by (simp_all add: entity_char_def lit_def of_char_def)

lemma unescape_escape_char: "unescape (escape_char c @ s) = and_then (unescape s) (\<lambda>t. Inr (c # t))"
  using entity_chars [THEN unescape_entity, of s] unescape_plain [of c s]
  by (simp add: escape_char_def lit_def of_char_def)

lemma unescape_escape: "unescape (escape s) = Inr s"
  by (induction s) (simp_all add: escape_def unescape_escape_char)

lemma escape_plain: "list_all (\<lambda>c. c \<noteq> 60 \<and> c \<noteq> 34) (escape s)"
  by (induction s) (auto simp: escape_def escape_char_def lit_def of_char_def)

lemma escape_not_Nil: "s \<noteq> [] \<Longrightarrow> escape s \<noteq> []"
  by (cases s) (auto simp: escape_def escape_char_def)

lemma escape_scalar: "list_all scalar s \<Longrightarrow> list_all scalar (escape s)"
  by (induction s) (auto simp: escape_def escape_char_def lit_def of_char_def scalar_def)

section \<open>UTF-8 read back\<close>

lemma byte_less: "n < 256 \<Longrightarrow> m < 256 \<Longrightarrow> (of_nat n :: byte) < of_nat m \<longleftrightarrow> n < m"
  by (simp add: word_less_nat_alt unat_byte)

lemma utf8_lead:
  assumes "scalar c"
  shows "utf8_len (hd (encode_utf8 c)) = length (encode_utf8 c)"
proof -
  have n: "(0x80 :: byte) = of_nat 0x80" "(0xE0 :: byte) = of_nat 0xE0" "(0xF0 :: byte) = of_nat 0xF0"
    by simp_all
  consider "c < 0x80" | "0x80 \<le> c" "c < 0x800" | "0x800 \<le> c" "c < 0x10000"
    | "0x10000 \<le> c" "c < 0x110000"
    using assms unfolding scalar_def by linarith
  then show ?thesis
  proof cases
    case 1
    then show ?thesis unfolding utf8_len_def n by (simp add: encode_utf8_def byte_less del: of_nat_numeral)
  next
    case 2
    then have "c div 0x40 < 32" by (simp add: div_less_iff_less_mult)
    with 2 show ?thesis
      unfolding utf8_len_def n by (simp add: encode_utf8_def byte_less del: of_nat_add of_nat_numeral)
  next
    case 3
    then have "c div 0x1000 < 16" by (simp add: div_less_iff_less_mult)
    with 3 show ?thesis
      unfolding utf8_len_def n by (simp add: encode_utf8_def byte_less del: of_nat_add of_nat_numeral)
  next
    case 4
    then have "c div 0x40000 < 5" by (simp add: div_less_iff_less_mult)
    with 4 show ?thesis
      unfolding utf8_len_def n by (simp add: encode_utf8_def byte_less del: of_nat_add of_nat_numeral)
  qed
qed

lemma lead_mods:
  "x < 0x40 \<Longrightarrow> (0x80 + x) mod 0x40 = x" "x < 0x20 \<Longrightarrow> (0xC0 + x) mod 0x20 = x"
  "x < 0x10 \<Longrightarrow> (0xE0 + x) mod 0x10 = x" "x < 0x08 \<Longrightarrow> (0xF0 + x) mod 0x08 = (x :: nat)"
  by (auto intro!: mod_nat_eqI)

lemma utf8_value_encode:
  assumes "scalar c"
  shows "utf8_value (encode_utf8 c) = c"
proof -
  consider "c < 0x80" | "0x80 \<le> c" "c < 0x800" | "0x800 \<le> c" "c < 0x10000"
    | "0x10000 \<le> c" "c < 0x110000"
    using assms unfolding scalar_def by linarith
  then show ?thesis
  proof cases
    case 1
    then show ?thesis by (simp add: encode_utf8_def utf8_value_def unat_byte)
  next
    case 2
    then have "c div 0x40 < 32" by (simp add: div_less_iff_less_mult)
    with 2 show ?thesis
      by (simp add: encode_utf8_def utf8_value_def unat_byte lead_mods del: of_nat_add)
  next
    case 3
    then have "c div 0x1000 < 16" by (simp add: div_less_iff_less_mult)
    with 3 show ?thesis using digits3 [of c]
      by (simp add: encode_utf8_def utf8_value_def unat_byte lead_mods del: of_nat_add)
  next
    case 4
    then have "c div 0x40000 < 5" by (simp add: div_less_iff_less_mult)
    with 4 show ?thesis using digits4 [of c]
      by (simp add: encode_utf8_def utf8_value_def unat_byte lead_mods del: of_nat_add)
  qed
qed

lemma encode_utf8_not_Nil: "encode_utf8 c \<noteq> []"
  by (simp add: encode_utf8_def)

lemma from_utf8_encode: "list_all scalar s \<Longrightarrow> from_utf8 (concat (map encode_utf8 s)) = Some s"
proof (induction s)
  case (Cons c s)
  then have c: "scalar c" by simp
  obtain b bs where e: "encode_utf8 c = b # bs" using encode_utf8_not_Nil by (cases "encode_utf8 c") auto
  have n: "utf8_len b = Suc (length bs)" using utf8_lead [OF c] by (simp add: e)
  have "utf8_value (b # bs) = c" using utf8_value_encode [OF c] by (simp add: e)
  with c e n have "utf8_first (encode_utf8 c @ concat (map encode_utf8 s)) = Some (c, Suc (length bs))"
    by (simp add: utf8_first_def Let_def)
  with Cons e show ?case by (simp add: from_utf8.simps [of "b # bs @ _"])
qed (simp add: from_utf8.simps)

section \<open>The reader on printed text\<close>

lemma starts_with_simps [simp]:
  "starts_with s []" "\<not> starts_with [] (c # p)"
  "starts_with (d # s) (c # p) \<longleftrightarrow> d = c \<and> starts_with s p"
  by (auto simp: starts_with_def)

lemma starts_with_append [simp]: "starts_with (p @ s) p"
  by (simp add: starts_with_def)

lemma eats_append: "tx_rest r = p @ s \<Longrightarrow> eats p r \<and> tx_rest (eat p r) = s"
  by (simp add: eats_def eat_def)

lemma starts_with_more: "length p \<le> length s \<Longrightarrow> starts_with (s @ t) p = starts_with s p"
  by (simp add: starts_with_def)

lemma find_str_length: "find_str p s = Some i \<Longrightarrow> i + length p \<le> length s"
  by (induction s arbitrary: i) (auto split: if_splits dest: starts_with_length)

lemma find_str_append: "find_str p s = Some i \<Longrightarrow> find_str p (s @ t) = Some i"
proof (induction s arbitrary: i)
  case Nil
  then show ?case by (cases t) (auto split: if_splits)
next
  case (Cons c s)
  show ?case
  proof (cases "starts_with (c # s) p")
    case True
    with Cons.prems show ?thesis
      using starts_with_more [OF starts_with_length [OF True], of t] by simp
  next
    case False
    with Cons.prems obtain j where j: "find_str p s = Some j" "i = Suc j" by auto
    then have "length p \<le> length s" using find_str_length by fastforce
    with False have "\<not> starts_with (c # s @ t) p"
      using starts_with_more [of p "c # s" t] by simp
    with Cons.IH [OF j(1)] j show ?thesis by simp
  qed
qed

lemma tx_until_append:
  assumes "find_str stop (x @ stop) = Some (length x)" "tx_rest r = x @ stop @ rest"
  shows "\<exists>r'. tx_until stop r = Inr (x, r') \<and> tx_rest r' = rest"
  using find_str_append [OF assms(1), of rest] assms(2) by (simp add: tx_until_def)

lemma skip_space_none: "tx_rest r = c # s \<Longrightarrow> \<not> is_whitespace c \<Longrightarrow> tx_rest (skip_space r) = c # s"
  by (simp add: skip_space_def)

lemma tx_name_append:
  assumes "name_ok n" "tx_rest r = n @ c # s" "ends_name c"
  shows "\<exists>r'. tx_name r = Inr (n, r') \<and> tx_rest r' = c # s"
proof -
  have "takeWhile (\<lambda>c. \<not> ends_name c) (n @ c # s) = n"
    using assms(1,3) by (simp add: name_ok_def list_all_iff takeWhile_append)
  with assms show ?thesis by (simp add: tx_name_def name_ok_def)
qed

lemma name_start: "name_ok n \<Longrightarrow> \<exists>c cs. n = c # cs \<and> \<not> ends_name c \<and> \<not> is_whitespace c"
  by (cases n) (auto simp: name_ok_def ends_name_def)

lemma find_quote: "list_all (\<lambda>c. c \<noteq> q) s \<Longrightarrow> find_str [q] (s @ [q]) = Some (length s)"
  by (induction s) auto

lemma marks: "ends_name 61" "ends_name 62" "ends_name 32" "ends_name 47" "is_whitespace 32"
  "\<not> is_whitespace 61" "\<not> is_whitespace 62" "\<not> is_whitespace 34" "\<not> is_whitespace 47"
  by (simp_all add: ends_name_def is_whitespace_def lit_def of_char_def)

lemmas lit_simps = lit_def of_char_def

lemma start_attr_printed:
  assumes "attr_printable (n, v)" "tx_rest r = tl (print_attr (n, v)) @ rest"
  shows "\<exists>r'. start_attr r = Inr ((n, v), r') \<and> tx_rest r' = rest"
proof -
  obtain s where v: "v = XString s" and n: "name_ok n" using assms(1) by (cases v) auto
  have "tx_rest r = n @ 61 # 34 # escape s @ 34 # rest" using assms(2) v by (simp add: lit_simps)
  then obtain r1 where r1: "tx_name r = Inr (n, r1)" "tx_rest r1 = 61 # 34 # escape s @ 34 # rest"
    using tx_name_append [OF n] marks by blast
  have r2: "tx_rest (skip_space r1) = 61 # 34 # escape s @ 34 # rest"
    using skip_space_none [OF r1(2)] marks by simp
  then have eq: "eats (lit ''='') (skip_space r1)"
    "tx_rest (eat (lit ''='') (skip_space r1)) = 34 # escape s @ 34 # rest"
    by (simp_all add: eats_def eat_def lit_simps)
  let ?r3 = "skip_space (eat (lit ''='') (skip_space r1))"
  have r3: "tx_rest ?r3 = 34 # escape s @ 34 # rest" using skip_space_none [OF eq(2)] marks by simp
  have "list_all (\<lambda>c. c \<noteq> 34) (escape s)" using escape_plain [of s] by (simp add: list_all_iff)
  then obtain r4 where "tx_until [34] (tx_skip 1 ?r3) = Inr (escape s, r4)" "tx_rest r4 = rest"
    using tx_until_append [OF find_quote, of 34 "escape s" "tx_skip 1 ?r3" rest] r3 by auto
  with r1 eq r3 v show ?thesis by (simp add: start_attr_def unescape_escape)
qed

lemma start_loop_printed:
  assumes "list_all attr_printable as" "tx_rest r = concat (map print_attr as) @ 62 # rest"
  shows "\<exists>r'. start_loop (Element n bs []) r = Inr ((Element n (bs @ as) [], False), r') \<and> tx_rest r' = rest"
  using assms
proof (induction as arbitrary: r bs)
  case Nil
  then have "tx_rest (skip_space r) = 62 # rest" using skip_space_none marks by simp
  then show ?case by (simp add: start_loop.simps [of _ r] eats_def eat_def lit_simps)
next
  case (Cons a as)
  obtain n' v where a: "a = (n', v)" by (cases a)
  let ?more = "concat (map print_attr as) @ 62 # rest"
  have nm: "name_ok n'" using Cons.prems(1) a by (cases v) auto
  then obtain c cs where c: "n' = c # cs" "\<not> ends_name c" "\<not> is_whitespace c" using name_start by blast
  then have "c \<noteq> 47" "c \<noteq> 62" using marks by auto
  have rest: "tx_rest r = 32 # tl (print_attr (n', v)) @ ?more" using Cons.prems(2) a by (simp add: lit_simps)
  then have sp: "tx_rest (skip_space r) = tl (print_attr (n', v)) @ ?more"
    using c marks by (simp add: skip_space_def lit_simps)
  then obtain r1 where r1: "start_attr (skip_space r) = Inr ((n', v), r1)" "tx_rest r1 = ?more"
    using start_attr_printed [of n' v "skip_space r" ?more] Cons.prems(1) a by auto
  have "\<not> eats (lit ''/>'') (skip_space r)" "\<not> eats (lit ''>'') (skip_space r)"
    using sp c \<open>c \<noteq> 47\<close> \<open>c \<noteq> 62\<close> by (simp_all add: eats_def lit_simps)
  with r1 have "start_loop (Element n bs []) r = start_loop (Element n (bs @ [a]) []) r1"
    by (subst start_loop.simps) (simp add: a push_attr_def)
  with Cons.IH [of r1 "bs @ [a]"] Cons.prems(1) r1(2) show ?case by simp
qed

lemma tx_start_printed:
  assumes "tag_ok n" "list_all attr_printable as"
    "tx_rest r = n @ concat (map print_attr as) @ 62 # rest"
  shows "\<exists>r'. tx_start r = Inr ((Element n as [], False), r') \<and> tx_rest r' = rest"
proof -
  obtain c s where cs: "concat (map print_attr as) @ 62 # rest = c # s" "ends_name c"
  proof (cases as)
    case Nil
    then show ?thesis using that marks by simp
  next
    case (Cons a as')
    then show ?thesis using that [of 32] marks by (cases a) (simp add: lit_simps)
  qed
  have n: "name_ok n" using assms(1) by (simp add: tag_ok_def)
  from assms(3) cs have "tx_rest r = n @ c # s" by simp
  then obtain r1 where "tx_name r = Inr (n, r1)" "tx_rest r1 = concat (map print_attr as) @ 62 # rest"
    using tx_name_append [OF n _ cs(2)] cs(1) by metis
  with start_loop_printed [OF assms(2), of r1 rest n "[]"] show ?thesis by (simp add: tx_start_def)
qed

lemma tx_end_printed:
  assumes "name_ok n" "tx_rest r = n @ 62 # rest" "el_name e = n"
  shows "\<exists>r'. tx_end e r = Inr (e, r') \<and> tx_rest r' = rest"
proof -
  obtain r1 where r1: "tx_name r = Inr (n, r1)" "tx_rest r1 = 62 # rest"
    using tx_name_append [OF assms(1,2)] marks by blast
  have "tx_rest (skip_space r1) = 62 # rest" using skip_space_none [OF r1(2)] marks by simp
  with r1 assms(3) show ?thesis by (simp add: tx_end_def eats_def eat_def lit_simps)
qed

section \<open>Content\<close>

lemma markup_printed:
  assumes "ends_at stop s" "tx_rest r = p @ s @ stop @ rest"
  shows "\<exists>r'. tx_until stop (eat p r) = Inr (s, r') \<and> tx_rest r' = rest"
  using tx_until_append [of stop s "eat p r" rest] eats_append [of r p "s @ stop @ rest"] assms
  by (simp add: ends_at_def)

lemma text_printed:
  assumes "s \<noteq> []" "tx_rest r = escape s @ 60 # rest"
  shows "leaf_ahead r" "\<not> eats (lit ''</'') r"
    "\<exists>r'. tx_leaf r = Inr (NToken TEXT (Some s), r') \<and> tx_rest r' = 60 # rest"
proof -
  obtain c cs where c: "escape s = c # cs" "c \<noteq> 60"
    using escape_not_Nil [OF assms(1)] escape_plain [of s] by (cases "escape s") auto
  with assms(2) have lt: "\<not> eats (lit (''<'' @ p)) r" for p by (simp add: eats_def lit_simps)
  from lt [of "[]"] show "leaf_ahead r" by (simp add: leaf_ahead_def)
  from lt [of "''/''"] show "\<not> eats (lit ''</'') r" by simp
  have "list_all (\<lambda>x. x \<noteq> 60) (escape s)" using escape_plain [of s] by (simp add: list_all_iff)
  then have "position (\<lambda>c. c = 60) (tx_rest r) = Some (length (escape s))"
    using position_append [of "\<lambda>c. c = 60" "escape s" 60 rest] assms(2) by simp
  then show "\<exists>r'. tx_leaf r = Inr (NToken TEXT (Some s), r') \<and> tx_rest r' = 60 # rest"
    using lt [of "''!--''"] lt [of "''![CDATA[''"] lt [of "''?''"] assms(2)
    by (simp add: tx_leaf_def unescape_escape)
qed

lemma leaf_printed:
  assumes "node_printable (NToken k t)" "tx_rest r = print_node (NToken k t) @ rest"
    and "k = TEXT \<Longrightarrow> \<exists>s. rest = 60 # s"
  shows "leaf_ahead r \<and> \<not> eats (lit ''</'') r \<and> (\<exists>r'. tx_leaf r = Inr (NToken k t, r') \<and> tx_rest r' = rest)"
proof -
  obtain s where s: "t = Some s" using assms(1) by (cases t) auto
  consider "k = COMMENT" "ends_at (lit ''-->'') s" | "k = CDSECT" "ends_at (lit '']]>'') s"
    | "k = PROCESSING_INSTRUCTION" "ends_at (lit ''?>'') s" | "k = TEXT" "s \<noteq> []"
    using assms(1) s by auto
  then show ?thesis
  proof cases
    case 1
    then show ?thesis
      using markup_printed [OF 1(2), of r "lit ''<!--''" rest] assms(2) s
      by (auto simp: tx_leaf_def leaf_ahead_def eats_def lit_simps)
  next
    case 2
    then show ?thesis
      using markup_printed [OF 2(2), of r "lit ''<![CDATA[''" rest] assms(2) s
      by (auto simp: tx_leaf_def leaf_ahead_def eats_def lit_simps)
  next
    case 3
    then show ?thesis
      using markup_printed [OF 3(2), of r "lit ''<?''" rest] assms(2) s
      by (auto simp: tx_leaf_def leaf_ahead_def eats_def lit_simps)
  next
    case 4
    then obtain s' where "rest = 60 # s'" using assms(3) by blast
    with 4 show ?thesis using text_printed [OF 4(2), of r s'] assms(2) s by simp
  qed
qed

definition reads_element :: "element \<Rightarrow> bool" where
  "reads_element e \<longleftrightarrow> (\<forall>r rest. tx_rest r = print_element e @ rest \<longrightarrow>
     (\<exists>r'. tx_element (eat (lit ''<'') r) = Some (Inr (e, r')) \<and> tx_rest r' = rest))"

lemma child_printed:
  assumes "printable c" "reads_element c" "tx_rest r = print_element c @ rest"
  shows "\<exists>r'. tx_content e r = tx_content (push_node (NElement c) e) r' \<and> tx_rest r' = rest"
proof -
  obtain n as cs where c: "c = Element n as cs" by (cases c)
  with assms(1) have n: "tag_ok n" by simp
  then obtain x xs where x: "n = x # xs" "\<not> ends_name x" "x \<noteq> 33" "x \<noteq> 63"
    by (cases n) (auto simp: tag_ok_def name_ok_def)
  then have "x \<noteq> 47" using marks by auto
  with x have no: "\<not> eats (lit ''</'') r" "\<not> leaf_ahead r"
    using assms(3) c by (simp_all add: leaf_ahead_def eats_def lit_simps)
  obtain r' where r': "tx_element (eat (lit ''<'') r) = Some (Inr (c, r'))" "tx_rest r' = rest"
    using assms(2,3) unfolding reads_element_def by blast
  then have "tx_content e r = tx_content (push_node (NElement c) e) r'"
    using no by (subst tx_content.simps)
      (auto simp: tx_element_def split: sum.splits if_splits)
  with r' show ?thesis by blast
qed

lemma node_starts: "\<not> is_text m \<Longrightarrow> node_printable m \<Longrightarrow> \<exists>s. print_node m = 60 # s"
  by (cases m rule: node_printable.cases) (auto simp: lit_simps elim: printable.elims)

lemma nodes_printed:
  assumes "list_all node_printable ns" "texts_apart ns" "\<And>c. NElement c \<in> set ns \<Longrightarrow> reads_element c"
    and "tx_rest r = concat (map print_node ns) @ 60 # tail"
  shows "\<exists>r'. tx_content (Element n as cs) r = tx_content (Element n as (cs @ ns)) r' \<and>
    tx_rest r' = 60 # tail"
  using assms
proof (induction ns arbitrary: r cs)
  case (Cons m ns)
  let ?more = "concat (map print_node ns) @ 60 # tail"
  have more: "\<exists>s. ?more = 60 # s" if "is_text m"
    using that Cons.prems(1,2) node_starts by (cases ns) fastforce+
  have "\<exists>r'. tx_content (Element n as cs) r = tx_content (Element n as (cs @ [m])) r' \<and> tx_rest r' = ?more"
  proof (cases m)
    case (NElement c)
    then show ?thesis
      using child_printed [of c r ?more "Element n as cs"] Cons.prems by (simp add: push_node_def)
  next
    case (NToken k t)
    then have "leaf_ahead r \<and> \<not> eats (lit ''</'') r \<and> (\<exists>r'. tx_leaf r = Inr (m, r') \<and> tx_rest r' = ?more)"
      using leaf_printed [of k t r ?more] Cons.prems more by simp
    then show ?thesis by (subst tx_content.simps) (auto simp: push_node_def)
  qed
  then obtain r1 where r1: "tx_content (Element n as cs) r = tx_content (Element n as (cs @ [m])) r1"
    "tx_rest r1 = ?more" by blast
  have "texts_apart ns" using Cons.prems(2) by (cases ns) auto
  with Cons.IH [of r1 "cs @ [m]"] Cons.prems r1 show ?case by simp
qed auto

lemma element_printed: "printable e \<Longrightarrow> reads_element e"
  "node_printable m \<Longrightarrow> case m of NElement c \<Rightarrow> reads_element c | _ \<Rightarrow> True"
proof (induction e and m rule: printable_node_printable.induct)
  case (1 n as cs)
  then have ok: "tag_ok n" "list_all attr_printable as" "list_all node_printable cs" "texts_apart cs"
    by simp_all
  have children: "reads_element c" if "NElement c \<in> set cs" for c
    using "1.IH" [of "NElement c"] that ok(3) by (force simp: list_all_iff)
  show ?case
    unfolding reads_element_def
  proof (intro allI impI)
    fix r rest assume r: "tx_rest r = print_element (Element n as cs) @ rest"
    let ?tail = "47 # n @ 62 # rest"
    let ?content = "concat (map print_node cs) @ 60 # ?tail"
    from r have "tx_rest (eat (lit ''<'') r) = n @ concat (map print_attr as) @ 62 # ?content"
      by (simp add: eat_def eats_def lit_simps)
    then obtain r1 where r1: "tx_start (eat (lit ''<'') r) = Inr ((Element n as [], False), r1)"
      "tx_rest r1 = ?content"
      using tx_start_printed [OF ok(1,2)] by blast
    obtain r2 where r2: "tx_content (Element n as []) r1 = tx_content (Element n as cs) r2"
      "tx_rest r2 = 60 # ?tail"
      using nodes_printed [OF ok(3,4) children r1(2), of n as "[]"] by auto
    have close: "eats (lit ''</'') r2" "tx_rest (eat (lit ''</'') r2) = n @ 62 # rest"
      using r2(2) by (simp_all add: eats_def eat_def lit_simps)
    obtain r3 where "tx_end (Element n as cs) (eat (lit ''</'') r2) = Inr (Element n as cs, r3)"
      "tx_rest r3 = rest"
      using tx_end_printed [OF _ close(2), of "Element n as cs"] ok(1) by (auto simp: tag_ok_def)
    with r1 r2 close show "\<exists>r'. tx_element (eat (lit ''<'') r) = Some (Inr (Element n as cs, r')) \<and>
        tx_rest r' = rest"
      by (auto simp: tx_element_def tx_content.simps [of "Element n as cs" r2])
  qed
qed auto

lemma print_starts: "printable e \<Longrightarrow> \<exists>x s. print_element e = 60 # x # s \<and> x \<noteq> 33 \<and> x \<noteq> 63"
proof -
  assume e: "printable e"
  obtain n as cs where c: "e = Element n as cs" by (cases e)
  with e obtain x xs where "n = x # xs" "x \<noteq> 33" "x \<noteq> 63"
    by (cases n) (auto simp: tag_ok_def name_ok_def)
  with c show ?thesis by (simp add: lit_simps)
qed

lemma scalar_lit: "list_all scalar (lit s)"
proof -
  have "scalar (of_char c)" for c :: char
    unfolding scalar_def using nat_of_char_less_256 [of c] by linarith
  then show ?thesis by (simp add: lit_def list_all_iff)
qed

lemma scalar_concat: "(\<And>x. x \<in> set xs \<Longrightarrow> list_all scalar (f x)) \<Longrightarrow> list_all scalar (concat (map f xs))"
  by (induction xs) auto

lemma print_attr_scalar: "attr_printable a \<Longrightarrow> list_all scalar (print_attr a)"
  using escape_scalar
  by (cases a rule: attr_printable.cases) (simp_all add: name_ok_def scalar_lit)

lemma print_scalar:
  "printable e \<Longrightarrow> list_all scalar (print_element e)"
  "node_printable m \<Longrightarrow> list_all scalar (print_node m)"
proof (induction e and m rule: printable_node_printable.induct)
  case (1 n as cs)
  then have "list_all scalar (concat (map print_attr as))" "list_all scalar (concat (map print_node cs))"
    by (auto intro!: scalar_concat print_attr_scalar simp: list_all_iff [of attr_printable]
        list_all_iff [of node_printable])
  with "1.prems" show ?case by (simp add: tag_ok_def name_ok_def scalar_lit)
next
  case (4 k s)
  then show ?case using escape_scalar [of s] by (auto simp: ends_at_def scalar_lit Let_def)
qed auto

lemma tx_misc_element:
  assumes "tx_rest r = 60 # x # s" "x \<noteq> 33" "x \<noteq> 63"
  shows "\<exists>r'. tx_misc r = Inr (True, r') \<and> tx_rest r' = 60 # x # s"
proof -
  have "tx_rest (skip_space r) = 60 # x # s"
    using skip_space_none [OF assms(1)] by (simp add: is_whitespace_def)
  with assms show ?thesis
    by (simp add: tx_misc.simps [of r] misc_one_def eats_def lit_simps Let_def)
qed

lemma tx_misc_end: "tx_rest r = [] \<Longrightarrow> \<exists>r'. tx_misc r = Inr (False, r')"
  by (simp add: tx_misc.simps [of r] misc_one_def eats_def skip_space_def lit_simps Let_def)

lemma text_read_printed:
  assumes "printable e"
  shows "text_read (concat (map encode_utf8 (print_element e))) = Some (Inr e)"
proof -
  obtain x s where p: "print_element e = 60 # x # s" "x \<noteq> 33" "x \<noteq> 63"
    using print_starts [OF assms] by blast
  let ?r = "\<lparr>tx_s = print_element e, tx_at = 0\<rparr>"
  have bom: "strip_bom (print_element e) = print_element e" by (simp add: strip_bom_def p)
  have utf: "from_utf8 (concat (map encode_utf8 (print_element e))) = Some (print_element e)"
    using from_utf8_encode print_scalar(1) [OF assms] by blast
  have "tx_rest ?r = 60 # x # s" by (simp add: tx_rest_def p)
  then obtain r1 where r1: "tx_misc ?r = Inr (True, r1)" "tx_rest r1 = print_element e"
    using tx_misc_element p by fastforce
  then obtain r2 where r2: "tx_element (eat (lit ''<'') r1) = Some (Inr (e, r2))" "tx_rest r2 = []"
    using element_printed(1) [OF assms] unfolding reads_element_def by (metis append_Nil2)
  obtain r3 where "tx_misc r2 = Inr (False, r3)" using tx_misc_end [OF r2(2)] by blast
  moreover have "eats (lit ''<'') r1" using r1(2) p by (simp add: eats_def lit_simps)
  ultimately show ?thesis
    using utf bom r1 r2 by (simp add: text_read_def text_read_optional_def)
qed

text \<open>
  Property C21. The reader of text XML returns on every input, with a document or an error. What a
  serializer prints for a document (markup characters as entities, attributes in double quotes), it
  reads as that document: names, attributes, text, comments, CDATA sections, instructions and nested
  elements in their order.
\<close>

theorem text_reads_back:
  "(\<exists>res. text_read bytes = Some res) \<and>
   (printable root \<longrightarrow> text_read (concat (map encode_utf8 (print_element root))) = Some (Inr root))"
  using text_read_optional_Some [of bytes] text_read_printed by (auto simp: text_read_def)

definition sample_text :: element where
  "sample_text =
     Element (lit ''a'') [(lit ''x'', XString (lit ''<&>''))]
       [NToken TEXT (Some [233, 60]), NToken COMMENT (Some (lit ''-'')),
        NElement (Element (lit ''b'') [] [])]"

theorem text_reads_back_witness:
  "text_read (concat (map encode_utf8 (print_element sample_text))) = Some (Inr sample_text)"
proof -
  have "printable sample_text"
    by (simp add: sample_text_def tag_ok_def name_ok_def ends_name_def is_whitespace_def ends_at_def
        scalar_def lit_simps)
  then show ?thesis using text_reads_back [where root = sample_text] by blast
qed

end
