(* ===== verification/Spec2Isabelle.thy ===== *)
theory Spec2Isabelle
  imports Lifecycle Watching XmlAgree XmlPrint
begin

text \<open>
  \<^bold>\<open>A verification of the binder driver and the XML persistence of aim.\<close>

  \<^bold>\<open>The program.\<close> aim runs an Android system on macOS. Every Android process talks to every other
  through binder, which on Linux is a kernel driver; aim has its own, written in Rust, in
  \<^verbatim>\<open>src/crates/aim-binder-driver\<close>. A guest process opens the device, maps a receive
  area and issues \<open>BINDER_WRITE_READ\<close> ioctls. The written half is a stream of BC commands (call,
  reply, free a buffer, take or drop a reference, ask for a death notification, enter or leave the
  thread pool); the read half blocks until there is work and returns BR commands. All state is
  behind one lock. The host (\<^verbatim>\<open>src/crates/aim-binder-host\<close>) calls the entry points and
  gives the driver access to guest memory and file descriptors.

  \<^bold>\<open>Theories and sources.\<close> Paths are relative to \<^verbatim>\<open>src/crates/aim-binder-driver/src\<close>.
  \<^item> Prelude: checked arithmetic, little-endian bytes, slices, ordered maps; no code of its own.
  \<^item> Uapi: \<^verbatim>\<open>uapi.rs\<close> (numbers, structures, their encodings) and the errno values of \<^verbatim>\<open>host.rs\<close>.
  \<^item> Alloc: \<^verbatim>\<open>alloc.rs\<close>. \<open>allocator\<close> is \<open>struct Allocator\<close>; \<open>allocate\<close> and \<open>free_buf\<close> are
    \<open>alloc\<close> and \<open>free\<close>.
  \<^item> Trace and Shadow: \<^verbatim>\<open>trace.rs\<close> and \<^verbatim>\<open>shadow.rs\<close>, the two observers of transactions.
  \<^item> BState: \<^verbatim>\<open>state.rs\<close>. \<open>bstate\<close> is \<open>struct State\<close> with its tables of processes (\<open>bproc\<close>),
    threads (\<open>bthread\<close>), nodes, references and deaths; the operations are those of \<open>impl State\<close>.
  \<^item> Host: \<^verbatim>\<open>host.rs\<close>. The trait \<open>GuestProcess\<close> is the record \<open>guest\<close>, a parameter of all that
    touches guest memory or descriptors.
  \<^item> Transaction: \<^verbatim>\<open>transaction.rs\<close>, from \<open>transaction\<close> down to the translation of single objects
    and back up to \<open>abort_transaction\<close>, \<open>send_failed_reply\<close> and \<open>free_buffer\<close>.
  \<^item> ThreadRead, ThreadWrite, Release: \<^verbatim>\<open>read.rs\<close>, \<^verbatim>\<open>write.rs\<close>, \<^verbatim>\<open>release.rs\<close>.
  \<^item> Driver: \<^verbatim>\<open>driver.rs\<close>. Each definition is a stretch of code that holds the lock.
  \<^item> Machine: the interleaving of those stretches as an \<open>inductive\<close> step relation, with
    reachability; Scenario: a concrete run of two processes that the examples start from.

  \<^bold>\<open>How the code is read.\<close> Functions that may panic return an \<open>option\<close>, \<open>None\<close> for a call that
  does not return; arithmetic overflow counts as a panic (the debug profile and
  \<open>overflow-checks\<close>; the release profile wraps instead). \<open>Result\<close> is a sum, \<open>Inl\<close> the error.
  \<open>BTreeMap\<close>, \<open>BTreeSet\<close> and \<open>HashMap\<close> are association lists in ascending key order; where the
  code iterates over a \<open>HashMap\<close> the order is a parameter \<open>ord\<close>, of which only that it permutes is
  used. Condition variables, parked resumes and notifiers are numbers; waking is a list of effects
  that \<open>unlock\<close> delivers. \<open>Instant\<close> is a number the caller supplies.

  \<^bold>\<open>What is proved.\<close>
  \<^item> The reference graph. RefGraph defines it (who holds which node, strongly or weakly, and the
    counts); Refs and RefSteps show that every operation of the driver keeps the tables a
    consistent graph; Handles draws the conclusions for every reachable state.
  \<^item> Receive buffers. Alloc shows that live buffers are disjoint, inside the mapping and merged
    back when freed; Buffers and Calls lift it to all processes in every reachable state.
  \<^item> Calls: what a failed transaction leaves behind, where its failure goes, and the order of the
    one-way transactions of a node. Objects: translation of objects there and back, and what
    translation may not touch. Streams: what a write consumes and a read fits in, when a read
    sleeps and what wakes it, and that it returns. Lifecycle: releases, deaths, the context manager,
    forwarded calls, errors. Watching: traces and shadow copies.

  \<^bold>\<open>Structure.\<close> What one component needs of another is a locale, proved once by the client and
  interpreted on the definitions of the model: a predicate on the state closed under a group of
  operations (\<open>queue_closed\<close>, \<open>mark_ops\<close>, \<open>ref_ops\<close>, \<open>node_closed\<close>, \<open>ref_closed\<close> in BState,
  \<open>reply_ops\<close> to \<open>txn_ops\<close> in Transaction, \<open>read_ops\<close>, \<open>drive_ops\<close>, \<open>release_ops\<close>, \<open>driver_ops\<close>),
  so that an invariant is shown for the primitive operations and carried to the entry points by
  \<open>driver_inv\<close> in Machine. The abstract-interface style follows the set and map
  specifications of HOL-Data\_Structures, the reachability arguments the reference developments on
  kernels and event systems, and the codecs the byte-encoding theories of AutoCorrode.

  \<^bold>\<open>Bounds and fuel.\<close> The recursions follow the data or have a termination proof, with these
  exceptions: \<open>validate_walk\<close> (a walk along parent offsets) and the chain of \<open>send_failed_reply\<close> may
  not end in an arbitrary state and are \<open>partial_function (option)\<close>; that they return where the
  driver calls them is proved. \<open>read_loop\<close> is one too; \<open>read_returns\<close> gives the condition under
  which it ends.

  \<^bold>\<open>Not modelled.\<close> The host daemon (\<^verbatim>\<open>aim-binder-host\<close>) is Mach messages, dispatch queues and
  process bookkeeping of Darwin. The system-call layer runs guest machine code; the services, device
  modules, image and build tools are file I/O, processes and macOS frameworks. None of these has a
  meaning that their sources alone give. The tests of the modelled files are not modelled.
\<close>

end
